(* ===== verification/Prelude.thy ===== *)
theory Prelude
  imports Main "HOL-Library.Word"
begin

unbundle bit_operations_syntax

text \<open>
  What the component theories share: the names of the machine integer types, the
  error numbers the C functions return, the kinds of IP configuration, byte order, dotted-quad addresses and their
  bit fields, and the facts on words and lists that the component proofs use.

  Addresses are kept at their width (\<open>u32\<close>). \<open>ip4 a b c d\<close> is the host-order
  value of the address \<open>a.b.c.d\<close>; the lemmas in \<open>ip4_fields\<close> say what the masks and
  shifts of the C code do to it. Pointers are natural numbers; a structure reached by
  pointer carries its own address, so that pointer comparisons of the source are
  comparisons of these numbers.
\<close>

section \<open>Types\<close>

type_synonym u8 = "8 word"
type_synonym u16 = "16 word"
type_synonym u32 = "32 word"
type_synonym ptr = nat

text \<open>The error numbers that the modelled functions return negated.\<close>

datatype errno =
    EINVAL | ENXIO | ENOMEM | EIO | ESRCH | EEXIST | EALREADY | EINPROGRESS
  | EBUSY | EPERM | EOPNOTSUPP | ENOTCONN | EISCONN | EPROTO | EACCES | EAGAIN | ENOBUFS | ENOMSG | ENODEV | ENOENT | ENOTSUP

type_synonym 'a result = "errno + 'a"

text \<open>The kinds and methods of an IP configuration, from \<open>src/include/ipconfig.h\<close>.\<close>

datatype ipconfig_type =
    CONNMAN_IPCONFIG_TYPE_UNKNOWN | CONNMAN_IPCONFIG_TYPE_IPV4
  | CONNMAN_IPCONFIG_TYPE_IPV6 | CONNMAN_IPCONFIG_TYPE_ALL

datatype ipconfig_method =
    CONNMAN_IPCONFIG_METHOD_UNKNOWN | CONNMAN_IPCONFIG_METHOD_OFF | CONNMAN_IPCONFIG_METHOD_FIXED
  | CONNMAN_IPCONFIG_METHOD_MANUAL | CONNMAN_IPCONFIG_METHOD_DHCP | CONNMAN_IPCONFIG_METHOD_AUTO

named_theorems ip4_fields \<open>masks and shifts of dotted-quad addresses\<close>
named_theorems word_nat \<open>word operations read as natural numbers\<close>

section \<open>Words read as natural numbers\<close>

lemma unat_inj_word [word_nat]: "v = w \<longleftrightarrow> unat v = unat w" for v w :: "'a::len word"
  by (rule word_unat_eq_iff)

lemma unat_push_bit:
  "unat (push_bit k w) = unat w * 2 ^ k mod 2 ^ LENGTH('a)" for w :: "'a::len word"
  by (subst unsigned_push_bit_eq) (simp only: take_bit_eq_mod push_bit_eq_mult)

lemma unat_drop_bit: "unat (drop_bit k w) = unat w div 2 ^ k" for w :: "'a::len word"
  by (subst unsigned_drop_bit_eq) (simp add: drop_bit_eq_div take_bit_nat_eq_self)

lemma unat_take_drop_bit:
  "unat (take_bit m (drop_bit k w)) = unat w div 2 ^ k mod 2 ^ m" for w :: "'a::len word"
  by (subst unsigned_take_bit_eq) (simp only: take_bit_eq_mod unat_drop_bit)

text \<open>Masking with \<open>m\<close> ones shifted to position \<open>k\<close> keeps that field.\<close>

lemma unat_and_field:
  fixes w :: "'a::len word"
  assumes "k + m \<le> LENGTH('a)"
  shows "unat (w AND push_bit k (mask m)) = unat w div 2 ^ k mod 2 ^ m * 2 ^ k"
proof -
  have "w AND push_bit k (mask m) = push_bit k (take_bit m (drop_bit k w))"
    by (rule bit_eqI) (auto simp: bit_simps)
  then have "unat (w AND push_bit k (mask m)) = (unat w div 2 ^ k mod 2 ^ m * 2 ^ k) mod 2 ^ LENGTH('a)"
    by (simp only: unat_push_bit unat_take_drop_bit)
  moreover have "unat w div 2 ^ k mod 2 ^ m * 2 ^ k < 2 ^ LENGTH('a)"
  proof -
    have "unat w div 2 ^ k mod 2 ^ m * 2 ^ k < 2 ^ m * 2 ^ k" by simp
    also have "\<dots> \<le> 2 ^ LENGTH('a)"
      using assms by (simp flip: power_add add: add.commute)
    finally show ?thesis .
  qed
  ultimately show ?thesis by simp
qed

lemma u32_masks:
  "(0xff :: u32) = push_bit 0 (mask 8)"
  "(0xff00 :: u32) = push_bit 8 (mask 8)"
  "(0xff0000 :: u32) = push_bit 16 (mask 8)"
  "(0xff000000 :: u32) = push_bit 24 (mask 8)"
  "(0xffff0000 :: u32) = push_bit 16 (mask 16)"
  by (simp_all add: mask_eq_exp_minus_1)

lemma unat_and_masks [word_nat]:
  fixes w :: u32
  shows "unat (w AND 0xff) = unat w mod 2 ^ 8"
    and "unat (w AND 0xff00) = unat w div 2 ^ 8 mod 2 ^ 8 * 2 ^ 8"
    and "unat (w AND 0xff0000) = unat w div 2 ^ 16 mod 2 ^ 8 * 2 ^ 16"
    and "unat (w AND 0xff000000) = unat w div 2 ^ 24 mod 2 ^ 8 * 2 ^ 24"
    and "unat (w AND 0xffff0000) = unat w div 2 ^ 16 mod 2 ^ 16 * 2 ^ 16"
  unfolding u32_masks by (subst unat_and_field; simp)+

section \<open>Dotted-quad addresses\<close>

definition ip4 :: "nat \<Rightarrow> nat \<Rightarrow> nat \<Rightarrow> nat \<Rightarrow> u32" where
  "ip4 a b c d = word_of_nat (((a * 256 + b) * 256 + c) * 256 + d)"

lemma unat_ip4:
  assumes "a < 256" "b < 256" "c < 256" "d < 256"
  shows "unat (ip4 a b c d) = ((a * 256 + b) * 256 + c) * 256 + d"
  using assms unfolding ip4_def unat_of_nat by simp

lemma div_bytes:
  fixes n :: nat
  shows "n div 2 ^ 8 = n div 256"
    and "n div 2 ^ 16 = n div 256 div 256"
    and "n div 2 ^ 24 = n div 256 div 256 div 256"
  by (simp_all flip: div_mult2_eq)

lemma byte_div_mod:
  fixes x d :: nat
  assumes "d < 256"
  shows "(x * 256 + d) div 256 = x" and "(x * 256 + d) mod 256 = d"
  using assms by simp_all

lemma ip4_split:
  fixes a b c d :: nat
  assumes "b < 256" "c < 256" "d < 256"
  shows "(((a * 256 + b) * 256 + c) * 256 + d) div 2 ^ 8 = (a * 256 + b) * 256 + c"
    and "(((a * 256 + b) * 256 + c) * 256 + d) div 2 ^ 16 = a * 256 + b"
    and "(((a * 256 + b) * 256 + c) * 256 + d) div 2 ^ 24 = a"
    and "((a * 256 + b) * 256 + c) mod 2 ^ 8 = c"
    and "(a * 256 + b) mod 2 ^ 8 = b"
proof -
  have e: "(2 :: nat) ^ 8 = 256" by simp
  show "(((a * 256 + b) * 256 + c) * 256 + d) div 2 ^ 8 = (a * 256 + b) * 256 + c"
    and "(((a * 256 + b) * 256 + c) * 256 + d) div 2 ^ 16 = a * 256 + b"
    and "(((a * 256 + b) * 256 + c) * 256 + d) div 2 ^ 24 = a"
    and "((a * 256 + b) * 256 + c) mod 2 ^ 8 = c"
    and "(a * 256 + b) mod 2 ^ 8 = b"
    by (simp_all only: div_bytes e byte_div_mod assms)
qed

lemma byte_pair_eq:
  fixes x d x' d' :: nat
  assumes "d < 256" "d' < 256"
  shows "x * 256 + d = x' * 256 + d' \<longleftrightarrow> x = x' \<and> d = d'"
  using byte_div_mod [OF assms(1), of x] byte_div_mod [OF assms(2), of x'] by metis

lemma ip4_eq_iff:
  assumes "a < 256" "b < 256" "c < 256" "d < 256" "a' < 256" "b' < 256" "c' < 256" "d' < 256"
  shows "ip4 a b c d = ip4 a' b' c' d' \<longleftrightarrow> a = a' \<and> b = b' \<and> c = c' \<and> d = d'"
  using assms by (simp only: unat_inj_word unat_ip4 byte_pair_eq) blast

text \<open>Small numbers compare as words as they do as natural numbers.\<close>

lemma word_of_nat_small:
  fixes n m :: nat
  assumes "n < 65536" "m < 65536"
  shows "(word_of_nat n :: u32) = word_of_nat m \<longleftrightarrow> n = m"
    and "(word_of_nat n :: u32) \<le> word_of_nat m \<longleftrightarrow> n \<le> m"
    and "(word_of_nat n :: u32) < word_of_nat m \<longleftrightarrow> n < m"
  using assms
  by (simp_all add: word_le_nat_alt word_less_nat_alt word_unat_eq_iff unat_of_nat
      del: word_of_nat_eq_iff)

lemma ip4_and [ip4_fields]:
  assumes "a < 256" "b < 256" "c < 256" "d < 256"
  shows "ip4 a b c d AND 0xffff0000 = ip4 a b 0 0"
    and "ip4 a b c d AND 0xff000000 = ip4 a 0 0 0"
    and "drop_bit 8 (ip4 a b c d AND 0xff00) = word_of_nat c"
    and "drop_bit 16 (ip4 a b c d AND 0xff0000) = word_of_nat b"
    and "drop_bit 24 (ip4 a b c d AND 0xff000000) = word_of_nat a"
    and "drop_bit 8 (ip4 a b c d) AND 0xff = word_of_nat c"
    and "drop_bit 16 (ip4 a b c d) AND 0xff = word_of_nat b"
    and "drop_bit 24 (ip4 a b c d) AND 0xff = word_of_nat a"
  using assms
  by (simp_all only: unat_inj_word unat_and_masks unat_drop_bit unat_ip4 ip4_split unat_of_nat
      zero_less_numeral) simp_all

lemma ip4_push_bit:
  "ip4 a b 0 0 = push_bit 16 (word_of_nat (a * 256 + b))"
  "ip4 a 0 0 0 = push_bit 24 (word_of_nat a)"
  by (simp_all add: ip4_def push_bit_eq_mult algebra_simps)

lemma or_disjoint_add:
  fixes v w :: "'a::len word"
  assumes "\<And>n. bit v n \<Longrightarrow> bit w n \<Longrightarrow> False"
  shows "v OR w = v + w"
  using assms by (subst disjunctive_add) blast+

lemma ip4_or [ip4_fields]:
  assumes "a < 256" "b < 256" "c < 256"
  shows "ip4 a b 0 0 OR (push_bit 8 (word_of_nat c) AND 0xff00) = ip4 a b c 0"
    and "ip4 a 0 0 0 OR (push_bit 16 (word_of_nat b) AND 0xff0000) = ip4 a b 0 0"
proof -
  have c: "push_bit 8 (word_of_nat c) AND 0xff00 = (word_of_nat (c * 256) :: u32)"
    using assms by (simp only: unat_inj_word unat_and_masks unat_push_bit unat_of_nat) simp
  have b: "push_bit 16 (word_of_nat b) AND 0xff0000 = (word_of_nat (b * 65536) :: u32)"
    using assms by (simp only: unat_inj_word unat_and_masks unat_push_bit unat_of_nat) simp
  have "ip4 a b 0 0 OR (push_bit 8 (word_of_nat c) AND 0xff00) =
      ip4 a b 0 0 + (push_bit 8 (word_of_nat c) AND 0xff00)"
    by (rule or_disjoint_add) (auto simp: ip4_push_bit(1) u32_masks bit_simps)
  then show "ip4 a b 0 0 OR (push_bit 8 (word_of_nat c) AND 0xff00) = ip4 a b c 0"
    unfolding c by (simp add: ip4_def algebra_simps)
  have "ip4 a 0 0 0 OR (push_bit 16 (word_of_nat b) AND 0xff0000) =
      ip4 a 0 0 0 + (push_bit 16 (word_of_nat b) AND 0xff0000)"
    by (rule or_disjoint_add) (auto simp: ip4_push_bit(2) u32_masks bit_simps)
  then show "ip4 a 0 0 0 OR (push_bit 16 (word_of_nat b) AND 0xff0000) = ip4 a b 0 0"
    unfolding b by (simp add: ip4_def algebra_simps)
qed

section \<open>Printing addresses\<close>

text \<open>\<open>inet_ntoa\<close> of \<open>htonl ip\<close>: the four bytes in decimal, most significant first.\<close>

fun show_nat :: "nat \<Rightarrow> string" where
  "show_nat n = (if n < 10 then [char_of (48 + n)]
     else show_nat (n div 10) @ [char_of (48 + n mod 10)])"

declare show_nat.simps [simp del]

definition dotted_quad :: "u32 \<Rightarrow> string" where
  "dotted_quad ip = show_nat (unat ip div 2 ^ 24) @ ''.'' @ show_nat (unat ip div 2 ^ 16 mod 256)
     @ ''.'' @ show_nat (unat ip div 2 ^ 8 mod 256) @ ''.'' @ show_nat (unat ip mod 256)"

section \<open>Reads of memory\<close>

text \<open>A read of a byte of an object, if it is inside.\<close>

definition rd :: "u8 list \<Rightarrow> nat \<Rightarrow> u8 option" where
  "rd m i = (if i < length m then Some (m ! i) else None)"

section \<open>Lists of structures reached by pointer\<close>

text \<open>
  \<open>upd_ptr at p f xs\<close> applies \<open>f\<close> to the structure at address \<open>p\<close>, and
  \<open>remove_ptr at p xs\<close> is \<open>g_slist_remove\<close> (or \<open>g_list_remove\<close>) of that pointer;
  \<open>at\<close> reads the address of a structure.
\<close>

definition upd_ptr :: "('a \<Rightarrow> ptr) \<Rightarrow> ptr \<Rightarrow> ('a \<Rightarrow> 'a) \<Rightarrow> 'a list \<Rightarrow> 'a list" where
  "upd_ptr at p f xs = map (\<lambda>x. if at x = p then f x else x) xs"

fun remove_ptr :: "('a \<Rightarrow> ptr) \<Rightarrow> ptr \<Rightarrow> 'a list \<Rightarrow> 'a list" where
  "remove_ptr at p [] = []"
| "remove_ptr at p (x # xs) = (if at x = p then xs else x # remove_ptr at p xs)"

lemma set_remove_ptr:
  "distinct (map at xs) \<Longrightarrow> set (remove_ptr at p xs) = {x \<in> set xs. at x \<noteq> p}"
  by (induction xs) (auto simp: image_iff)

lemma set_remove_ptr_subset: "set (remove_ptr at p xs) \<subseteq> set xs"
  by (induction xs) auto

lemma distinct_remove_ptr: "distinct (map f xs) \<Longrightarrow> distinct (map f (remove_ptr at p xs))"
  by (induction xs) (use set_remove_ptr_subset in fastforce)+

lemma remove_ptr_idle: "p \<notin> at ` set xs \<Longrightarrow> remove_ptr at p xs = xs"
  by (induction xs) auto

lemma map_upd_ptr: "(\<And>x. g (f x) = g x) \<Longrightarrow> map g (upd_ptr at p f xs) = map g xs"
  by (simp add: upd_ptr_def)

lemma set_upd_ptr: "set (upd_ptr at p f xs) = (\<lambda>x. if at x = p then f x else x) ` set xs"
  by (simp add: upd_ptr_def)

lemma upd_ptr_Cons [simp]:
  "upd_ptr at p f (x # xs) = (if at x = p then f x else x) # upd_ptr at p f xs"
  "upd_ptr at p f [] = []"
  by (simp_all add: upd_ptr_def)

lemma upd_ptr_idle: "p \<notin> at ` set xs \<Longrightarrow> upd_ptr at p f xs = xs"
  by (induction xs) auto

lemma find_Some_mem: "find P xs = Some x \<Longrightarrow> x \<in> set xs \<and> P x"
  by (auto simp: find_Some_iff)

end
