(* ===== verification/IpPool.thy ===== *)
theory IpPool
  imports Prelude
begin

text \<open>
  \<^bold>\<open>The private address pool\<close> (\<^verbatim>\<open>src/src/ippool.c\<close>).

  \<open>ippool\<close> is the file's static state: the list of allocated blocks, the block handed
  out last, the constants set by the initialisation, and the pools handed to callers.
  One definition models each function. \<open>inet_aton\<close> is an argument: it gives the
  address in host order, or \<open>None\<close> where the C function returns 0. An allocation that
  may fail is a boolean argument. The search loop of \<open>get_free_block\<close> may run forever,
  so it is a \<^theory_text>\<open>partial_function\<close>: \<open>None\<close> means that it does not return.
  Shifting by the width of the type is undefined in C; \<open>connman_ippool_deladdr\<close>
  returns \<open>None\<close> there.
\<close>

section \<open>State\<close>

record address_info =
  ai_addr :: ptr
  ai_index :: int
  ai_start :: u32
  ai_end :: u32
  ai_use_count :: u32
  ai_pool :: "ptr option"

record connman_ippool =
  pool_info :: "ptr option"
  pool_gateway :: string
  pool_broadcast :: string
  pool_start_ip :: string
  pool_end_ip :: string
  pool_subnet_mask :: string
  pool_collision_cb :: "ptr option"
  pool_user_data :: ptr

record ippool =
  allocated_blocks :: "address_info list"
  last_block :: u32
  block_16_bits :: u32
  block_20_bits :: u32
  block_24_bits :: u32
  subnet_mask_24 :: u32
  pools :: "ptr \<rightharpoonup> connman_ippool"
  next_ptr :: ptr

definition ippool_zero :: ippool where
  "ippool_zero = \<lparr>allocated_blocks = [], last_block = 0, block_16_bits = 0, block_20_bits = 0,
     block_24_bits = 0, subnet_mask_24 = 0, pools = Map.empty, next_ptr = 1\<rparr>"

section \<open>Operations\<close>

definition connman_ippool_init :: "ippool \<Rightarrow> ippool" where
  "connman_ippool_init s = s\<lparr>block_16_bits := ip4 192 168 0 0, block_20_bits := ip4 172 16 0 0,
     block_24_bits := ip4 10 0 0 0, subnet_mask_24 := ip4 255 255 255 0\<rparr>"

definition connman_ippool_cleanup :: "ippool \<Rightarrow> ippool" where
  "connman_ippool_cleanup s = s\<lparr>allocated_blocks := [], last_block := 0\<rparr>"

definition connman_ippool_free :: "ptr option \<Rightarrow> ippool \<Rightarrow> ippool" where
  "connman_ippool_free pool s = (case pool of None \<Rightarrow> s
     | Some p \<Rightarrow> (case pools s p of None \<Rightarrow> s
        | Some pl \<Rightarrow>
            let s1 = (case pool_info pl of None \<Rightarrow> s
                | Some i \<Rightarrow> s\<lparr>allocated_blocks := remove_ptr ai_addr i (allocated_blocks s)\<rparr>)
            in s1\<lparr>pools := (pools s1)(p := None)\<rparr>))"

definition get_ip :: "u32 \<Rightarrow> string" where
  "get_ip ip = dotted_quad ip"

definition next_block :: "ippool \<Rightarrow> u32 \<Rightarrow> u32" where
  "next_block s block =
     (let nxt = drop_bit 8 (block AND 0x0000ff00) + 1 in
      if nxt = 255 \<and> (block AND 0xffff0000) = block_16_bits s then block_20_bits s
      else if nxt = 255 \<and> block_20_bits s \<le> (block AND 0xffff0000) then
        (let b = drop_bit 16 (block AND 0x00ff0000);
             b' = (if 16 \<le> b \<and> b < 32 then b + 1 else b) in
         if b' = 32 then block_24_bits s
         else (block AND 0xff000000) OR (push_bit 16 b' AND 0x00ff0000))
      else if nxt = 255 \<and> (block AND 0xff000000) = block_24_bits s then
        (let b = drop_bit 16 (block AND 0x00ff0000);
             b' = (if b < 255 then b + 1 else b) in
         if b' = 255 then block_16_bits s
         else (block AND 0xff000000) OR (push_bit 16 b' AND 0x00ff0000))
      else (block AND 0xffff0000) OR (push_bit 8 nxt AND 0x0000ff00))"

definition block_collides :: "ippool \<Rightarrow> u32 \<Rightarrow> bool" where
  "block_collides s block = list_ex (\<lambda>i. ai_start i \<le> block \<and> block \<le> ai_end i) (allocated_blocks s)"

partial_function (option) get_free_block_loop :: "ippool \<Rightarrow> u32 \<Rightarrow> u32 option" where
  "get_free_block_loop s block =
     (if \<not> block_collides s block then Some block
      else let block' = next_block s block in
        if block' \<noteq> last_block s then get_free_block_loop s block' else Some 0)"

definition get_free_block :: "ippool \<Rightarrow> u32 \<Rightarrow> u32 option" where
  "get_free_block s sz =
     get_free_block_loop s (if last_block s \<noteq> 0 then last_block s else block_16_bits s)"

definition lookup_info :: "ippool \<Rightarrow> int \<Rightarrow> u32 \<Rightarrow> address_info option" where
  "lookup_info s index start =
     find (\<lambda>i. ai_index i = index \<and> ai_start i = start) (allocated_blocks s)"

definition is_private_address :: "u32 \<Rightarrow> bool" where
  "is_private_address address =
     (let a = drop_bit 24 (address AND 0xff000000); b = drop_bit 16 (address AND 0x00ff0000) in
      a = 10 \<or> (a = 192 \<and> b = 168) \<or> (a = 172 \<and> 16 \<le> b \<and> b \<le> 31))"

text \<open>The prefix mask; a shift by the whole width is undefined in C.\<close>

definition prefix_mask :: "u8 \<Rightarrow> u32" where
  "prefix_mask prefixlen = NOT (drop_bit (unat prefixlen) 0xffffffff)"

definition newaddr_mask :: "u8 \<Rightarrow> u32" where
  "newaddr_mask prefixlen = (if 32 \<le> prefixlen then 0xffffffff else prefix_mask prefixlen)"

text \<open>The change of \<open>info->use_count\<close>, for the structure at address \<open>p\<close>.\<close>

definition set_use_count :: "(u32 \<Rightarrow> u32) \<Rightarrow> ptr \<Rightarrow> ippool \<Rightarrow> ippool" where
  "set_use_count f p s = s\<lparr>allocated_blocks := upd_ptr ai_addr p
     (\<lambda>i. i\<lparr>ai_use_count := f (ai_use_count i)\<rparr>) (allocated_blocks s)\<rparr>"

text \<open>The lookup of \<open>connman_ippool_newaddr\<close>, and its new entry where there is none.\<close>

definition get_info :: "int \<Rightarrow> u32 \<Rightarrow> u32 \<Rightarrow> ippool \<Rightarrow> ptr \<times> ippool" where
  "get_info index start end s = (case lookup_info s index start of
       Some i \<Rightarrow> (ai_addr i, s)
     | None \<Rightarrow> (next_ptr s, s\<lparr>allocated_blocks := \<lparr>ai_addr = next_ptr s, ai_index = index,
           ai_start = start, ai_end = end, ai_use_count = 0, ai_pool = None\<rparr> # allocated_blocks s,
         next_ptr := next_ptr s + 1\<rparr>))"

text \<open>
  The check at the end of \<open>connman_ippool_newaddr\<close>: the collision callback to run, with
  its pool and user data, for the first other block that holds the start of this one.
\<close>

definition check_collision :: "ptr \<Rightarrow> ippool \<Rightarrow> (ptr \<times> ptr \<times> ptr) option" where
  "check_collision p s = (case find (\<lambda>i. ai_addr i = p) (allocated_blocks s) of
       None \<Rightarrow> None
     | Some info \<Rightarrow>
       if 1 < ai_use_count info \<or> ai_pool info \<noteq> None then None
       else (case find (\<lambda>it. ai_addr it \<noteq> p \<and> ai_start it \<le> ai_start info \<and> ai_start info \<le> ai_end it)
                  (allocated_blocks s) of
            None \<Rightarrow> None
          | Some it \<Rightarrow> (case ai_pool it of None \<Rightarrow> None
              | Some q \<Rightarrow> (case pools s q of None \<Rightarrow> None
                  | Some pl \<Rightarrow> map_option (\<lambda>cb. (cb, q, pool_user_data pl)) (pool_collision_cb pl)))))"

definition connman_ippool_newaddr ::
  "(string \<Rightarrow> u32 option) \<Rightarrow> bool \<Rightarrow> int \<Rightarrow> string \<Rightarrow> u8 \<Rightarrow> ippool \<Rightarrow> ippool \<times> (ptr \<times> ptr \<times> ptr) option"
where
  "connman_ippool_newaddr inet_aton mem index address prefixlen s =
     (case inet_aton address of None \<Rightarrow> (s, None)
      | Some addr \<Rightarrow>
        if \<not> is_private_address addr then (s, None)
        else
          let mask = newaddr_mask prefixlen;
              start = addr AND mask;
              end = start OR NOT mask in
          if lookup_info s index start = None \<and> \<not> mem then (s, None)
          else
            let (p, s1) = get_info index start end s;
                s2 = set_use_count (\<lambda>c. c + 1) p s1 in
            (s2, check_collision p s2))"

definition connman_ippool_deladdr ::
  "(string \<Rightarrow> u32 option) \<Rightarrow> int \<Rightarrow> string \<Rightarrow> u8 \<Rightarrow> ippool \<Rightarrow> ippool option"
where
  "connman_ippool_deladdr inet_aton index address prefixlen s =
     (case inet_aton address of None \<Rightarrow> Some s
      | Some addr \<Rightarrow>
        if \<not> is_private_address addr then Some s
        else if 32 \<le> prefixlen then None
        else
          let mask = prefix_mask prefixlen;
              start = addr AND mask in
          (case lookup_info s index start of None \<Rightarrow> Some s
           | Some info \<Rightarrow>
             let s1 = set_use_count (\<lambda>c. c - 1) (ai_addr info) s in
             if ai_pool info \<noteq> None then Some s1
             else if 0 < ai_use_count info - 1 then Some s1
             else Some (s1\<lparr>allocated_blocks := remove_ptr ai_addr (ai_addr info) (allocated_blocks s1)\<rparr>)))"

text \<open>The second half of \<open>connman_ippool_create\<close>: the pool on the block found.\<close>

definition pool_info_new :: "int \<Rightarrow> u32 \<Rightarrow> u32 \<Rightarrow> ippool \<Rightarrow> address_info" where
  "pool_info_new index block rng s = \<lparr>ai_addr = next_ptr s + 1, ai_index = index, ai_start = block,
     ai_end = block + rng, ai_use_count = 0, ai_pool = Some (next_ptr s)\<rparr>"

definition pool_new :: "u32 \<Rightarrow> u32 \<Rightarrow> u32 \<Rightarrow> ptr option \<Rightarrow> ptr \<Rightarrow> ippool \<Rightarrow> connman_ippool" where
  "pool_new block start rng collision_cb user_data s =
     (let rng' = (if rng = 0 then 1 else rng) in
      \<lparr>pool_info = Some (next_ptr s + 1),
       pool_gateway = get_ip (block + 1),
       pool_broadcast = get_ip (block + 255),
       pool_start_ip = get_ip (block + start),
       pool_end_ip = get_ip (block + start + rng'),
       pool_subnet_mask = get_ip (subnet_mask_24 s),
       pool_collision_cb = collision_cb, pool_user_data = user_data\<rparr>)"

definition add_pool :: "int \<Rightarrow> u32 \<Rightarrow> u32 \<Rightarrow> u32 \<Rightarrow> ptr option \<Rightarrow> ptr \<Rightarrow> ippool \<Rightarrow> ippool" where
  "add_pool index block start rng collision_cb user_data s =
     s\<lparr>last_block := block, allocated_blocks := pool_info_new index block rng s # allocated_blocks s,
       pools := (pools s)(next_ptr s \<mapsto> pool_new block start rng collision_cb user_data s),
       next_ptr := next_ptr s + 2\<rparr>"

text \<open>
  \<open>None\<close>: the search for a free block does not return. Otherwise the new state and the
  pool, or no pool.
\<close>

definition connman_ippool_create ::
  "bool \<Rightarrow> bool \<Rightarrow> int \<Rightarrow> u32 \<Rightarrow> u32 \<Rightarrow> ptr option \<Rightarrow> ptr \<Rightarrow> ippool \<Rightarrow> (ippool \<times> ptr option) option"
where
  "connman_ippool_create mem_pool mem_info index start rng collision_cb user_data s =
     (if 254 < start + rng then Some (s, None)
      else (case get_free_block s (start + rng) of None \<Rightarrow> None
        | Some block \<Rightarrow>
          if block = 0 then Some (s, None)
          else if \<not> mem_pool then Some (s, None)
          else if \<not> mem_info then Some (s, None)
          else Some (add_pool index block start rng collision_cb user_data s, Some (next_ptr s))))"

definition connman_ippool_get_gateway :: "connman_ippool \<Rightarrow> string" where
  "connman_ippool_get_gateway pool = pool_gateway pool"

definition connman_ippool_get_broadcast :: "connman_ippool \<Rightarrow> string" where
  "connman_ippool_get_broadcast pool = pool_broadcast pool"

definition connman_ippool_get_start_ip :: "connman_ippool \<Rightarrow> string" where
  "connman_ippool_get_start_ip pool = pool_start_ip pool"

definition connman_ippool_get_end_ip :: "connman_ippool \<Rightarrow> string" where
  "connman_ippool_get_end_ip pool = pool_end_ip pool"

definition connman_ippool_get_subnet_mask :: "connman_ippool \<Rightarrow> string" where
  "connman_ippool_get_subnet_mask pool = pool_subnet_mask pool"

section \<open>The cycle of blocks, the invariant, reachable states\<close>

text \<open>
  The blocks the search visits, in its order: 192.168.0.0 to 192.168.254.0, then
  172.16.0.0 to 172.31.254.0, then 10.0.0.0 to 10.254.254.0, \<open>n_blocks\<close> in all.
  \<open>cyclic_blocks k j\<close> are those from the \<open>j\<close>-th after \<open>block_at k\<close> on, once round.
\<close>

definition ippool_ready :: "ippool \<Rightarrow> bool" where
  "ippool_ready s \<longleftrightarrow> block_16_bits s = ip4 192 168 0 0 \<and> block_20_bits s = ip4 172 16 0 0 \<and>
     block_24_bits s = ip4 10 0 0 0 \<and> subnet_mask_24 s = ip4 255 255 255 0"

definition n_blocks :: nat where
  "n_blocks = 69360"

definition block_at :: "nat \<Rightarrow> u32" where
  "block_at i = (if i < 255 then ip4 192 168 i 0
     else if i < 4335 then ip4 172 (16 + (i - 255) div 255) ((i - 255) mod 255) 0
     else ip4 10 ((i - 4335) div 255) ((i - 4335) mod 255) 0)"

definition cyclic_blocks :: "nat \<Rightarrow> nat \<Rightarrow> u32 list" where
  "cyclic_blocks k j = map (\<lambda>i. block_at ((k + i) mod n_blocks)) [j..<n_blocks]"

text \<open>
  The invariant: the initialisation has run; the list holds each structure once, each
  (interface, start) pair once, and only ranges that are not empty; a pool and its block
  point at each other; a pool's block is one of the cycle, at most 255 addresses long,
  and no other pool has it; the search starts from a block of the cycle.
\<close>

definition pool_block_ok :: "ippool \<Rightarrow> address_info \<Rightarrow> ptr \<Rightarrow> bool" where
  "pool_block_ok s i p \<longleftrightarrow> (\<exists>pl. pools s p = Some pl \<and> pool_info pl = Some (ai_addr i)) \<and>
     (\<exists>k < n_blocks. ai_start i = block_at k) \<and> (\<exists>r \<le> 254. ai_end i = ai_start i + word_of_nat r)"

definition ippool_inv :: "ippool \<Rightarrow> bool" where
  "ippool_inv s \<longleftrightarrow> ippool_ready s \<and>
     distinct (map ai_addr (allocated_blocks s)) \<and>
     distinct (map (\<lambda>i. (ai_index i, ai_start i)) (allocated_blocks s)) \<and>
     (\<forall>i \<in> set (allocated_blocks s). ai_addr i < next_ptr s \<and> ai_start i \<le> ai_end i \<and>
        (\<forall>p. ai_pool i = Some p \<longrightarrow> pool_block_ok s i p)) \<and>
     (\<forall>p pl. pools s p = Some pl \<longrightarrow> p < next_ptr s \<and>
        (\<exists>i \<in> set (allocated_blocks s). ai_pool i = Some p \<and> pool_info pl = Some (ai_addr i))) \<and>
     (\<forall>i \<in> set (allocated_blocks s). \<forall>j \<in> set (allocated_blocks s).
        ai_pool i \<noteq> None \<longrightarrow> ai_pool j \<noteq> None \<longrightarrow> ai_start i = ai_start j \<longrightarrow> i = j) \<and>
     (last_block s = 0 \<or> (\<exists>k < n_blocks. last_block s = block_at k))"

inductive ippool_reach :: "(string \<Rightarrow> u32 option) \<Rightarrow> ippool \<Rightarrow> bool" for inet_aton where
  reach_init: "ippool_reach inet_aton (connman_ippool_init ippool_zero)"
| reach_newaddr: "ippool_reach inet_aton s \<Longrightarrow>
    ippool_reach inet_aton (fst (connman_ippool_newaddr inet_aton mem index address prefixlen s))"
| reach_deladdr: "ippool_reach inet_aton s \<Longrightarrow>
    connman_ippool_deladdr inet_aton index address prefixlen s = Some s' \<Longrightarrow> ippool_reach inet_aton s'"
| reach_create: "ippool_reach inet_aton s \<Longrightarrow> unat start + unat rng < 2 ^ 32 \<Longrightarrow>
    connman_ippool_create mem_pool mem_info index start rng cb user_data s = Some (s', r) \<Longrightarrow>
    ippool_reach inet_aton s'"
| reach_free: "ippool_reach inet_aton s \<Longrightarrow> ippool_reach inet_aton (connman_ippool_free pool s)"

text \<open>What the search returns, as a specification: the first free block of the cycle.\<close>

definition first_free_block :: "ippool \<Rightarrow> nat \<Rightarrow> u32" where
  "first_free_block s k = (case find (\<lambda>b. \<not> block_collides s b) (cyclic_blocks k 0) of None \<Rightarrow> 0 | Some b \<Rightarrow> b)"

text \<open>A concrete history: two pools are created and an address is added.\<close>

definition demo_aton :: "string \<Rightarrow> u32 option" where
  "demo_aton a = map_of [(''192.168.0.129'', 0xc0a80081), (''10.0.0.1'', 0x0a000001),
     (''172.16.0.1'', 0xac100001), (''172.31.0.1'', 0xac1f0001), (''192.168.0.1'', 0xc0a80001)] a"

definition demo_pool :: "int \<Rightarrow> ippool \<Rightarrow> ippool" where
  "demo_pool index s = fst (the (connman_ippool_create True True index 1 100 None 0 s))"

definition demo_net :: "string \<Rightarrow> u8 \<Rightarrow> ippool \<Rightarrow> ippool" where
  "demo_net address prefixlen s = fst (connman_ippool_newaddr demo_aton True 3 address prefixlen s)"

definition demo_pools :: ippool where
  "demo_pools = demo_pool 2 (demo_pool 1 (connman_ippool_init ippool_zero))"

section \<open>The order of the blocks\<close>

lemma next_block_inner:
  assumes "a < 256" "b < 256" "c < 254"
  shows "next_block s (ip4 a b c 0) = ip4 a b (c + 1) 0"
proof -
  have "drop_bit 8 (ip4 a b c 0 AND 0x0000ff00) + 1 = word_of_nat (c + 1)"
    using assms by (simp add: ip4_fields)
  moreover have "word_of_nat (c + 1) \<noteq> (255 :: u32)"
    using word_of_nat_small(1)[of "c + 1" 255] assms by (simp del: of_nat_add)
  ultimately show ?thesis
    using assms ip4_or(1)[of a b "c + 1"] by (simp add: next_block_def ip4_fields add.commute del: of_nat_add)
qed

lemma ip4_or_succ:
  assumes "a < 256" "b < 255"
  shows "ip4 a 0 0 0 OR (push_bit 16 (word_of_nat b + 1) AND 0xff0000) = ip4 a (b + 1) 0 0"
  using ip4_or(2)[of a "b + 1" 0] assms by (simp add: add.commute)

lemma ip4_le:
  assumes "a < 256" "b < 256" "a' < 256" "b' < 256"
  shows "ip4 a b 0 0 \<le> ip4 a' b' 0 0 \<longleftrightarrow> a < a' \<or> (a = a' \<and> b \<le> b')"
  using assms by (auto simp: word_le_nat_alt unat_ip4)

lemma next_block_outer:
  assumes "ippool_ready s"
  shows "next_block s (ip4 192 168 254 0) = ip4 172 16 0 0"
    and "16 \<le> b \<Longrightarrow> b < 31 \<Longrightarrow> next_block s (ip4 172 b 254 0) = ip4 172 (b + 1) 0 0"
    and "next_block s (ip4 172 31 254 0) = ip4 10 0 0 0"
    and "b < 254 \<Longrightarrow> next_block s (ip4 10 b 254 0) = ip4 10 (b + 1) 0 0"
    and "next_block s (ip4 10 254 254 0) = ip4 192 168 0 0"
proof -
  note ready = assms [unfolded ippool_ready_def]
  note unfold = next_block_def ip4_fields ip4_eq_iff ip4_le ip4_or_succ Let_def
  show "next_block s (ip4 192 168 254 0) = ip4 172 16 0 0"
    and "next_block s (ip4 172 31 254 0) = ip4 10 0 0 0"
    and "next_block s (ip4 10 254 254 0) = ip4 192 168 0 0"
    using ready by (simp_all add: unfold)
  show "next_block s (ip4 172 b 254 0) = ip4 172 (b + 1) 0 0" if b: "16 \<le> b" "b < 31"
  proof -
    have "16 \<le> (word_of_nat b :: u32)" "(word_of_nat b :: u32) < 32" "(word_of_nat b :: u32) \<noteq> 31"
      using word_of_nat_small[of b 32] word_of_nat_small[of 16 b] word_of_nat_small[of b 31] b
      by simp_all
    then show ?thesis
      using ready b ip4_or_succ[of 172 b] by (simp add: unfold)
  qed
  show "next_block s (ip4 10 b 254 0) = ip4 10 (b + 1) 0 0" if b: "b < 254"
  proof -
    have "(word_of_nat b :: u32) < 255" "(word_of_nat b :: u32) \<noteq> 254"
      using word_of_nat_small[of b 255] word_of_nat_small[of b 254] b by simp_all
    then show ?thesis
      using ready b ip4_or_succ[of 10 b] by (simp add: unfold)
  qed
qed

text \<open>The three ranges, with the third byte running from 0 to 254.\<close>

lemma block_at_ranges:
  shows "i < 255 \<Longrightarrow> block_at i = ip4 192 168 i 0"
    and "q < 16 \<Longrightarrow> r < 255 \<Longrightarrow> block_at (255 + (255 * q + r)) = ip4 172 (16 + q) r 0"
    and "r < 255 \<Longrightarrow> block_at (4335 + (255 * q + r)) = ip4 10 q r 0"
  by (simp_all add: block_at_def)

lemma div_mod_255: "\<exists>q r. r < 255 \<and> j = 255 * q + r" for j :: nat
  by (rule exI [of _ "j div 255"], rule exI [of _ "j mod 255"]) simp

lemma n_blocks_cases:
  assumes "i < n_blocks"
  obtains (block_16) "i < 255"
    | (block_20) q r where "i = 255 + (255 * q + r)" "q < 16" "r < 255"
    | (block_24) q r where "i = 4335 + (255 * q + r)" "q < 255" "r < 255"
proof -
  consider "i < 255" | "255 \<le> i" "i < 4335" | "4335 \<le> i" by linarith
  then show ?thesis
  proof cases
    case 1
    then show ?thesis by (rule block_16)
  next
    case 2
    obtain q r where qr: "r < 255" "i - 255 = 255 * q + r" using div_mod_255 by blast
    then have "i = 255 + (255 * q + r)" using 2 by linarith
    moreover have "q < 16" using qr 2 by linarith
    ultimately show ?thesis using qr block_20 by blast
  next
    case 3
    obtain q r where qr: "r < 255" "i - 4335 = 255 * q + r" using div_mod_255 by blast
    then have "i = 4335 + (255 * q + r)" using 3 by linarith
    moreover have "q < 255" using qr 3 assms unfolding n_blocks_def by linarith
    ultimately show ?thesis using qr block_24 by blast
  qed
qed

lemma next_block_at:
  assumes s: "ippool_ready s" and "i < n_blocks"
  shows "next_block s (block_at i) = block_at (Suc i mod n_blocks)"
  using assms(2)
proof (cases rule: n_blocks_cases)
  case block_16
  show ?thesis
  proof (cases "i = 254")
    case True
    then show ?thesis
      using block_at_ranges(2)[of 0 0] by (simp add: block_at_ranges(1) next_block_outer[OF s] n_blocks_def)
  next
    case False
    then show ?thesis
      using block_16 by (simp add: block_at_ranges(1) next_block_inner n_blocks_def)
  qed
next
  case (block_20 q r)
  have b: "block_at i = ip4 172 (16 + q) r 0" using block_20 block_at_ranges(2) by simp
  have m: "Suc i mod n_blocks = 255 + (255 * q + Suc r)" using block_20 by (simp add: n_blocks_def)
  consider "r < 254" | "r = 254" "q < 15" | "r = 254" "q = 15" using block_20 by linarith
  then show ?thesis
  proof cases
    case 1
    then show ?thesis
      using block_20 block_at_ranges(2)[of q "Suc r"] unfolding b m by (simp add: next_block_inner)
  next
    case 2
    then show ?thesis
      using block_20 block_at_ranges(2)[of "Suc q" 0] unfolding b m
      by (simp add: next_block_outer[OF s])
  next
    case 3
    then show ?thesis
      using block_20 block_at_ranges(3)[of 0 0] unfolding b m by (simp add: next_block_outer[OF s])
  qed
next
  case (block_24 q r)
  have b: "block_at i = ip4 10 q r 0" using block_24 block_at_ranges(3) by simp
  have m: "Suc i mod n_blocks = (if q = 254 \<and> r = 254 then 0 else 4335 + (255 * q + Suc r))"
    using block_24 by (auto simp: n_blocks_def)
  consider "r < 254" | "r = 254" "q < 254" | "r = 254" "q = 254" using block_24 by linarith
  then show ?thesis
  proof cases
    case 1
    then show ?thesis
      using block_24 block_at_ranges(3)[of "Suc r" q] unfolding b m by (simp add: next_block_inner)
  next
    case 2
    then show ?thesis
      using block_24 block_at_ranges(3)[of 0 "Suc q"] unfolding b m
      by (simp add: next_block_outer[OF s])
  next
    case 3
    then show ?thesis
      using block_at_ranges(1)[of 0] unfolding b m by (simp add: next_block_outer[OF s])
  qed
qed

lemma block_at_parts:
  assumes "i < n_blocks"
  obtains a b c where "block_at i = ip4 a b c 0" "0 < a" "a < 256" "b < 256" "c < 255"
    "a = 192 \<and> b = 168 \<and> i = c \<or> a = 172 \<and> 16 \<le> b \<and> i + 3825 = 255 * b + c \<or>
     a = 10 \<and> i = 4335 + 255 * b + c"
  using assms
proof (cases rule: n_blocks_cases)
  case block_16
  then show ?thesis using that[of 192 168 i] block_at_ranges(1)[of i] by simp
next
  case (block_20 q r)
  then show ?thesis using that[of 172 "16 + q" r] block_at_ranges(2)[of q r] by simp
next
  case (block_24 q r)
  then show ?thesis using that[of 10 q r] block_at_ranges(3)[of r q] by simp
qed

lemma block_at_inj:
  assumes "i < n_blocks" "j < n_blocks" "block_at i = block_at j"
  shows "i = j"
proof -
  obtain a b c where i: "block_at i = ip4 a b c 0" "a < 256" "b < 256" "c < 255"
    "a = 192 \<and> b = 168 \<and> i = c \<or> a = 172 \<and> 16 \<le> b \<and> i + 3825 = 255 * b + c \<or>
     a = 10 \<and> i = 4335 + 255 * b + c"
    by (rule block_at_parts [OF assms(1)])
  obtain a' b' c' where j: "block_at j = ip4 a' b' c' 0" "a' < 256" "b' < 256" "c' < 255"
    "a' = 192 \<and> b' = 168 \<and> j = c' \<or> a' = 172 \<and> 16 \<le> b' \<and> j + 3825 = 255 * b' + c' \<or>
     a' = 10 \<and> j = 4335 + 255 * b' + c'"
    by (rule block_at_parts [OF assms(2)])
  have "a = a' \<and> b = b' \<and> c = c'"
    using assms(3) i j ip4_eq_iff[of a b c 0 a' b' c' 0] by simp
  then show ?thesis using i(5) j(5) by auto
qed

lemma block_at_nonzero:
  assumes "i < n_blocks"
  shows "block_at i \<noteq> 0"
proof -
  obtain a b c where i: "block_at i = ip4 a b c 0" "0 < a" "a < 256" "b < 256" "c < 255"
    by (rule block_at_parts [OF assms])
  then have "unat (block_at i) \<noteq> 0" by (simp add: unat_ip4)
  then show ?thesis by auto
qed

section \<open>The search\<close>

lemma n_blocks_pos: "0 < n_blocks" by (simp add: n_blocks_def)

lemma get_free_block_loop_cycle:
  assumes s: "ippool_ready s" and k: "k < n_blocks" and last: "last_block s = block_at k"
    and j: "j < n_blocks"
  shows "get_free_block_loop s (block_at ((k + j) mod n_blocks)) =
    Some (case find (\<lambda>b. \<not> block_collides s b) (cyclic_blocks k j) of None \<Rightarrow> 0 | Some b \<Rightarrow> b)"
  using j
proof (induction "n_blocks - j" arbitrary: j)
  case 0
  then show ?case by simp
next
  case (Suc n)
  let ?b = "block_at ((k + j) mod n_blocks)"
  have c: "cyclic_blocks k j = ?b # cyclic_blocks k (Suc j)"
    using Suc.prems by (simp add: cyclic_blocks_def upt_conv_Cons)
  have nb: "next_block s ?b = block_at ((k + Suc j) mod n_blocks)"
    by (subst next_block_at) (simp_all add: s n_blocks_pos mod_Suc_eq)
  show ?case
  proof (cases "Suc j = n_blocks")
    case True
    then have "next_block s ?b = last_block s" using nb k last by simp
    moreover have "cyclic_blocks k (Suc j) = []" using True by (simp add: cyclic_blocks_def)
    ultimately show ?thesis by (subst get_free_block_loop.simps) (simp add: c)
  next
    case False
    then have j': "Suc j < n_blocks" using Suc.prems by simp
    have "(k + Suc j) mod n_blocks \<noteq> k"
      using j' k by (auto simp: mod_if)
    then have "block_at ((k + Suc j) mod n_blocks) \<noteq> last_block s"
      using block_at_inj[of "(k + Suc j) mod n_blocks" k] k last n_blocks_pos by auto
    moreover have "n = n_blocks - Suc j" using Suc.hyps(2) by simp
    ultimately show ?thesis
      using Suc.hyps(1)[OF _ j'] nb by (subst get_free_block_loop.simps) (simp add: c)
  qed
qed


lemma get_free_block_last:
  assumes "ippool_ready s" "k < n_blocks" "last_block s = block_at k"
  shows "get_free_block s sz =
    Some (case find (\<lambda>b. \<not> block_collides s b) (cyclic_blocks k 0) of None \<Rightarrow> 0 | Some b \<Rightarrow> b)"
  using get_free_block_loop_cycle[OF assms n_blocks_pos] assms block_at_nonzero[of k]
  by (simp add: get_free_block_def)

lemma set_cyclic_blocks:
  assumes "k < n_blocks"
  shows "set (cyclic_blocks k 0) = block_at ` {..<n_blocks}"
proof -
  have "(\<lambda>i. (k + i) mod n_blocks) ` {..<n_blocks} = {..<n_blocks}"
  proof (rule card_subset_eq)
    show "(\<lambda>i. (k + i) mod n_blocks) ` {..<n_blocks} \<subseteq> {..<n_blocks}"
      using n_blocks_pos by auto
    have "inj_on (\<lambda>i. (k + i) mod n_blocks) {..<n_blocks}"
      by (rule inj_onI) (use assms in \<open>auto simp: mod_if split: if_splits\<close>)
    then show "card ((\<lambda>i. (k + i) mod n_blocks) ` {..<n_blocks}) = card {..<n_blocks}"
      by (rule card_image)
  qed simp
  then show ?thesis
    unfolding cyclic_blocks_def set_map set_upt atLeast0LessThan
    by (subst image_image [symmetric, of block_at]) simp
qed

text \<open>With no block handed out yet the loop can only stop at a free block.\<close>

lemma get_free_block_loop_first:
  assumes s: "ippool_ready s" and last: "last_block s = 0" and j: "j < n_blocks"
    and free: "i < n_blocks" "j \<le> i" "\<not> block_collides s (block_at i)"
  shows "get_free_block_loop s (block_at j) =
    find (\<lambda>b. \<not> block_collides s b) (map block_at [j..<n_blocks])"
  using j free
proof (induction "i - j" arbitrary: j)
  case 0
  then have "i = j" by simp
  then show ?case using 0 by (subst get_free_block_loop.simps) (simp add: upt_conv_Cons)
next
  case (Suc n)
  then have j': "Suc j < n_blocks" by linarith
  then have nb: "next_block s (block_at j) = block_at (Suc j)"
    using next_block_at[OF s, of j] by simp
  have "get_free_block_loop s (block_at (Suc j)) =
    find (\<lambda>b. \<not> block_collides s b) (map block_at [Suc j..<n_blocks])"
    by (rule Suc.hyps(1)) (use Suc j' in linarith)+
  then show ?case
    using nb block_at_nonzero[OF j'] last Suc.prems
    by (subst get_free_block_loop.simps) (simp add: upt_conv_Cons)
qed

lemma get_free_block_loop_diverges:
  assumes s: "ippool_ready s" and last: "last_block s = 0"
    and full: "\<And>i. i < n_blocks \<Longrightarrow> block_collides s (block_at i)"
    and j: "j < n_blocks"
  shows "get_free_block_loop s (block_at j) = None"
proof (rule ccontr)
  assume "get_free_block_loop s (block_at j) \<noteq> None"
  then obtain r where r: "get_free_block_loop s (block_at j) = Some r" by auto
  have "s = s \<longrightarrow> block_at j \<notin> block_at ` {..<n_blocks}"
  proof (rule get_free_block_loop.raw_induct
      [where P = "\<lambda>s' b y. s' = s \<longrightarrow> b \<notin> block_at ` {..<n_blocks}", OF _ r], intro impI notI)
    fix f s' b y
    assume IH: "\<And>s' b y. f s' b = Some y \<Longrightarrow> s' = s \<longrightarrow> b \<notin> block_at ` {..<n_blocks}"
      and eq: "(if \<not> block_collides s' b then Some b
        else let b' = next_block s' b in if b' \<noteq> last_block s' then f s' b' else Some 0) = Some y"
      and s': "s' = s" and "b \<in> block_at ` {..<n_blocks}"
    then obtain i where i: "i < n_blocks" "b = block_at i" by auto
    have "Suc i mod n_blocks < n_blocks" using n_blocks_pos by simp
    moreover have "f s (block_at (Suc i mod n_blocks)) = Some y"
      using eq s' i full[OF i(1)] next_block_at[OF s i(1)] last
        block_at_nonzero[of "Suc i mod n_blocks"] calculation by simp
    ultimately show False using IH by blast
  qed
  then show False using j by blast
qed

lemma get_free_block_first:
  assumes "ippool_ready s" "last_block s = 0"
  shows "get_free_block s sz = find (\<lambda>b. \<not> block_collides s b) (map block_at [0..<n_blocks])"
proof -
  have z: "block_at 0 = block_16_bits s" using assms by (simp add: block_at_def ippool_ready_def)
  show ?thesis
  proof (cases "\<exists>i < n_blocks. \<not> block_collides s (block_at i)")
    case True
    then obtain i where "i < n_blocks" "\<not> block_collides s (block_at i)" by blast
    then show ?thesis
      using get_free_block_loop_first[OF assms n_blocks_pos] z assms by (simp add: get_free_block_def)
  next
    case False
    then have "find (\<lambda>b. \<not> block_collides s b) (map block_at [0..<n_blocks]) = None"
      by (auto simp: find_None_iff)
    then show ?thesis
      using get_free_block_loop_diverges[OF assms _ n_blocks_pos] False z assms
      by (simp add: get_free_block_def)
  qed
qed

lemma reach_inv_init: "ippool_inv (connman_ippool_init ippool_zero)"
  by (simp add: ippool_inv_def connman_ippool_init_def ippool_zero_def ippool_ready_def)

lemma ippool_inv_add:
  assumes "ippool_inv s" "lookup_info s index start = None" "start \<le> end"
  shows "ippool_inv (s\<lparr>allocated_blocks := \<lparr>ai_addr = next_ptr s, ai_index = index,
      ai_start = start, ai_end = end, ai_use_count = c, ai_pool = None\<rparr> # allocated_blocks s,
      next_ptr := next_ptr s + 1\<rparr>)"
  using assms unfolding ippool_inv_def pool_block_ok_def ippool_ready_def lookup_info_def find_None_iff
  by (auto simp: less_Suc_eq)

lemma ippool_invI:
  assumes "ippool_ready s"
    and "distinct (map ai_addr (allocated_blocks s))"
    and "distinct (map (\<lambda>i. (ai_index i, ai_start i)) (allocated_blocks s))"
    and "\<And>i. i \<in> set (allocated_blocks s) \<Longrightarrow> ai_addr i < next_ptr s"
    and "\<And>i. i \<in> set (allocated_blocks s) \<Longrightarrow> ai_start i \<le> ai_end i"
    and "\<And>i p. i \<in> set (allocated_blocks s) \<Longrightarrow> ai_pool i = Some p \<Longrightarrow> pool_block_ok s i p"
    and "\<And>p pl. pools s p = Some pl \<Longrightarrow> p < next_ptr s"
    and "\<And>p pl. pools s p = Some pl \<Longrightarrow>
      \<exists>i \<in> set (allocated_blocks s). ai_pool i = Some p \<and> pool_info pl = Some (ai_addr i)"
    and "\<And>i j. i \<in> set (allocated_blocks s) \<Longrightarrow> j \<in> set (allocated_blocks s) \<Longrightarrow>
      ai_pool i \<noteq> None \<Longrightarrow> ai_pool j \<noteq> None \<Longrightarrow> ai_start i = ai_start j \<Longrightarrow> i = j"
    and "last_block s = 0 \<or> (\<exists>k < n_blocks. last_block s = block_at k)"
  shows "ippool_inv s"
  unfolding ippool_inv_def using assms by blast

lemma ippool_inv_dests:
  assumes "ippool_inv s"
  shows "ippool_ready s"
    and "distinct (map ai_addr (allocated_blocks s))"
    and "i \<in> set (allocated_blocks s) \<Longrightarrow> ai_addr i < next_ptr s"
    and "i \<in> set (allocated_blocks s) \<Longrightarrow> ai_start i \<le> ai_end i"
    and "i \<in> set (allocated_blocks s) \<Longrightarrow> ai_pool i = Some p \<Longrightarrow> pool_block_ok s i p"
    and "pools s p = Some pl \<Longrightarrow> p < next_ptr s"
    and "pools s p = Some pl \<Longrightarrow>
      \<exists>i \<in> set (allocated_blocks s). ai_pool i = Some p \<and> pool_info pl = Some (ai_addr i)"
    and "last_block s = 0 \<or> (\<exists>k < n_blocks. last_block s = block_at k)"
    and "distinct (map (\<lambda>i. (ai_index i, ai_start i)) (allocated_blocks s))"
    and "i \<in> set (allocated_blocks s) \<Longrightarrow> j \<in> set (allocated_blocks s) \<Longrightarrow>
      ai_pool i \<noteq> None \<Longrightarrow> ai_pool j \<noteq> None \<Longrightarrow> ai_start i = ai_start j \<Longrightarrow> i = j"
  using assms unfolding ippool_inv_def by blast+

lemma ippool_inv_addr_inj:
  "ippool_inv s \<Longrightarrow> i \<in> set (allocated_blocks s) \<Longrightarrow> j \<in> set (allocated_blocks s) \<Longrightarrow>
    ai_addr i = ai_addr j \<Longrightarrow> i = j"
  using ippool_inv_dests(2) by (fastforce simp: distinct_map inj_on_def)

lemma ippool_inv_use_count:
  assumes inv: "ippool_inv s"
  shows "ippool_inv (set_use_count f p s)"
proof -
  let ?g = "\<lambda>i. i\<lparr>ai_use_count := f (ai_use_count i)\<rparr>"
  let ?s = "set_use_count f p s"
  have d: "map ai_addr (upd_ptr ai_addr p ?g xs) = map ai_addr xs"
    "map (\<lambda>i. (ai_index i, ai_start i)) (upd_ptr ai_addr p ?g xs) = map (\<lambda>i. (ai_index i, ai_start i)) xs"
    for xs by (rule map_upd_ptr; simp)+
  have ab: "allocated_blocks ?s = upd_ptr ai_addr p ?g (allocated_blocks s)"
    by (simp add: set_use_count_def)
  have mem: "j \<in> set (allocated_blocks ?s) \<longleftrightarrow>
      (\<exists>i \<in> set (allocated_blocks s). j = (if ai_addr i = p then ?g i else i))" for j
    by (simp only: ab set_upd_ptr image_iff)
  have same: "pools ?s = pools s" "next_ptr ?s = next_ptr s" "last_block ?s = last_block s"
    by (simp_all add: set_use_count_def)
  show ?thesis
  proof (rule ippool_invI, unfold same)
    show "ippool_ready ?s" using ippool_inv_dests(1)[OF inv] by (simp add: ippool_ready_def set_use_count_def)
    show "distinct (map ai_addr (allocated_blocks ?s))"
      "distinct (map (\<lambda>i. (ai_index i, ai_start i)) (allocated_blocks ?s))"
      using ippool_inv_dests(2,9)[OF inv] by (simp_all add: set_use_count_def d)
    show "last_block s = 0 \<or> (\<exists>k < n_blocks. last_block s = block_at k)"
      by (rule ippool_inv_dests(8)[OF inv])
  next
    fix j assume "j \<in> set (allocated_blocks ?s)"
    then obtain i where i: "i \<in> set (allocated_blocks s)" "j = (if ai_addr i = p then ?g i else i)"
      using mem by blast
    show "ai_addr j < next_ptr s" "ai_start j \<le> ai_end j"
      using ippool_inv_dests(3,4)[OF inv i(1)] i(2) by simp_all
    show "pool_block_ok ?s j q" if "ai_pool j = Some q" for q
      using ippool_inv_dests(5)[OF inv i(1), of q] that i(2) by (simp add: pool_block_ok_def same split: if_splits)
    fix j' assume "j' \<in> set (allocated_blocks ?s)" and eq: "ai_pool j \<noteq> None" "ai_pool j' \<noteq> None" "ai_start j = ai_start j'"
    then obtain i' where i': "i' \<in> set (allocated_blocks s)" "j' = (if ai_addr i' = p then ?g i' else i')"
      using mem by blast
    then have "i = i'" using ippool_inv_dests(10)[OF inv i(1) i'(1)] eq i(2) by (simp split: if_splits)
    then show "j = j'" using i i' by simp
  next
    fix q pl assume q: "pools s q = Some pl"
    then show "q < next_ptr s" by (rule ippool_inv_dests(6)[OF inv])
    obtain i where i: "i \<in> set (allocated_blocks s)" "ai_pool i = Some q" "pool_info pl = Some (ai_addr i)"
      using ippool_inv_dests(7)[OF inv q] by blast
    then show "\<exists>i \<in> set (allocated_blocks ?s). ai_pool i = Some q \<and> pool_info pl = Some (ai_addr i)"
      using mem[of "if ai_addr i = p then ?g i else i"]
      by (intro bexI [of _ "if ai_addr i = p then ?g i else i"]) auto
  qed
qed

text \<open>Removing a block keeps the invariant once the pool that points at it is gone.\<close>

lemma ippool_inv_remove:
  assumes inv: "ippool_inv s" and i: "i \<in> set (allocated_blocks s)" 
    and ps: "ps = (case ai_pool i of None \<Rightarrow> pools s | Some p \<Rightarrow> (pools s)(p := None))"
  shows "ippool_inv (s\<lparr>allocated_blocks := remove_ptr ai_addr (ai_addr i) (allocated_blocks s), pools := ps\<rparr>)"
proof -
  let ?r = "remove_ptr ai_addr (ai_addr i) (allocated_blocks s)"
  note r = set_remove_ptr[OF ippool_inv_dests(2)[OF inv], of "ai_addr i"]
  have ps_ps: "ps p = Some pl \<Longrightarrow> pools s p = Some pl \<and> ai_pool i \<noteq> Some p" for p pl
    using ps by (auto split: option.splits if_splits)
  have other: "ps p = pools s p" if "j \<in> set ?r" "ai_pool j = Some p" for j p
  proof -
    have j: "j \<in> set (allocated_blocks s)" "ai_addr j \<noteq> ai_addr i" using that r by auto
    have "ai_pool i \<noteq> Some p"
    proof
      assume "ai_pool i = Some p"
      then have "pool_block_ok s i p" "pool_block_ok s j p"
        using inv i j that(2) ippool_inv_dests(5) by blast+
      then show False using j(2) by (auto simp: pool_block_ok_def)
    qed
    then show ?thesis using ps by (auto split: option.splits)
  qed
  have "\<exists>j \<in> set ?r. ai_pool j = Some p \<and> pool_info pl = Some (ai_addr j)" if p: "ps p = Some pl" for p pl
  proof -
    obtain j where j: "j \<in> set (allocated_blocks s)" "ai_pool j = Some p" "pool_info pl = Some (ai_addr j)"
      using ippool_inv_dests(7)[OF inv] ps_ps[OF p] by blast
    then have "ai_addr j \<noteq> ai_addr i" using i ippool_inv_addr_inj[OF inv] ps_ps[OF p] by blast
    then show ?thesis using j r by auto
  qed
  note ex = this
  let ?s = "s\<lparr>allocated_blocks := ?r, pools := ps\<rparr>"
  have sub: "j \<in> set (allocated_blocks s)" if "j \<in> set (allocated_blocks ?s)" for j
    using that r by simp
  show ?thesis
  proof (rule ippool_invI)
    show "ippool_ready ?s" using ippool_inv_dests(1)[OF inv] by (simp add: ippool_ready_def)
    show "distinct (map ai_addr (allocated_blocks ?s))"
      "distinct (map (\<lambda>i. (ai_index i, ai_start i)) (allocated_blocks ?s))"
      using ippool_inv_dests(2,9)[OF inv] by (simp_all add: distinct_remove_ptr)
    show "last_block ?s = 0 \<or> (\<exists>k < n_blocks. last_block ?s = block_at k)"
      using ippool_inv_dests(8)[OF inv] by simp
  next
    fix j assume j: "j \<in> set (allocated_blocks ?s)"
    show "ai_addr j < next_ptr ?s" "ai_start j \<le> ai_end j"
      using ippool_inv_dests(3,4)[OF inv sub[OF j]] by simp_all
    show "pool_block_ok ?s j p" if "ai_pool j = Some p" for p
      using ippool_inv_dests(5)[OF inv sub[OF j] that] j other[of j p] that by (simp add: pool_block_ok_def)
    show "j = k" if "k \<in> set (allocated_blocks ?s)" "ai_pool j \<noteq> None" "ai_pool k \<noteq> None"
      "ai_start j = ai_start k" for k
      using ippool_inv_dests(10)[OF inv sub[OF j] sub[OF that(1)]] that by blast
  next
    fix p pl assume "pools ?s p = Some pl"
    then have p: "ps p = Some pl" by simp
    show "p < next_ptr ?s" using ps_ps[OF p] ippool_inv_dests(6)[OF inv] by auto
    show "\<exists>i \<in> set (allocated_blocks ?s). ai_pool i = Some p \<and> pool_info pl = Some (ai_addr i)"
      using ex[OF p] by simp
  qed
qed

lemma ippool_inv_get_info:
  assumes "ippool_inv s" "start \<le> end"
  shows "ippool_inv (snd (get_info index start end s))"
  using assms ippool_inv_add[OF assms(1) _ assms(2)]
  by (simp add: get_info_def split: option.split)

lemma ippool_inv_newaddr:
  assumes inv: "ippool_inv s"
  shows "ippool_inv (fst (connman_ippool_newaddr inet_aton mem index address prefixlen s))"
proof -
  have "ippool_inv (set_use_count f p (snd (get_info index (a AND m) ((a AND m) OR NOT m) s)))" for f p a m
    by (intro ippool_inv_use_count ippool_inv_get_info inv le_word_or2)
  then show ?thesis
    unfolding connman_ippool_newaddr_def Let_def case_prod_beta
    using inv by (simp split: option.split)
qed

lemma lookup_info_Some:
  "lookup_info s index start = Some i \<Longrightarrow>
    i \<in> set (allocated_blocks s) \<and> ai_index i = index \<and> ai_start i = start"
  unfolding lookup_info_def by (drule find_Some_mem) simp

lemma ippool_inv_deladdr:
  assumes inv: "ippool_inv s"
    and del: "connman_ippool_deladdr inet_aton index address prefixlen s = Some s'"
  shows "ippool_inv s'"
proof (cases "\<exists>addr i. inet_aton address = Some addr \<and> is_private_address addr \<and>
    lookup_info s index (addr AND prefix_mask prefixlen) = Some i")
  case False
  then have "s' = s"
    using del unfolding connman_ippool_deladdr_def Let_def by (auto split: option.splits if_splits)
  then show ?thesis using inv by simp
next
  case True
  then obtain addr i where i: "inet_aton address = Some addr" "is_private_address addr"
    "lookup_info s index (addr AND prefix_mask prefixlen) = Some i" by blast
  let ?s = "set_use_count (\<lambda>c. c - 1) (ai_addr i) s"
  let ?i = "i\<lparr>ai_use_count := ai_use_count i - 1\<rparr>"
  have inv': "ippool_inv ?s" by (rule ippool_inv_use_count [OF inv])
  have "i \<in> set (allocated_blocks s)" using lookup_info_Some[OF i(3)] by simp
  then have "?i \<in> set (allocated_blocks ?s)" by (auto simp: set_upd_ptr set_use_count_def)
  from ippool_inv_remove[OF inv' this refl]
  have "ippool_inv (?s\<lparr>allocated_blocks := remove_ptr ai_addr (ai_addr i) (allocated_blocks ?s)\<rparr>)"
    if "ai_pool i = None" using that by simp
  moreover have "s' = ?s \<or> ai_pool i = None \<and>
      s' = ?s\<lparr>allocated_blocks := remove_ptr ai_addr (ai_addr i) (allocated_blocks ?s)\<rparr>"
    using del i unfolding connman_ippool_deladdr_def Let_def
    by (simp split: if_splits)
  ultimately show ?thesis using inv' by (elim disjE conjE) simp_all
qed

lemma ippool_inv_free:
  assumes inv: "ippool_inv s"
  shows "ippool_inv (connman_ippool_free pool s)"
proof (cases pool)
  case None
  then show ?thesis using inv by (simp add: connman_ippool_free_def)
next
  case (Some p)
  show ?thesis
  proof (cases "pools s p")
    case None
    then show ?thesis using inv Some by (simp add: connman_ippool_free_def)
  next
    case (Some pl)
    then obtain i where i: "i \<in> set (allocated_blocks s)" "ai_pool i = Some p" "pool_info pl = Some (ai_addr i)"
      using ippool_inv_dests(7)[OF inv] by blast
    then show ?thesis
      using ippool_inv_remove[OF inv i(1) refl] Some \<open>pool = Some p\<close>
      by (simp add: connman_ippool_free_def)
  qed
qed

lemma block_at_low:
  assumes "k < n_blocks" "r < 256"
  shows "unat (block_at k + word_of_nat r) = unat (block_at k) + r" and "unat (block_at k) mod 256 = 0"
proof -
  obtain a b c where i: "block_at k = ip4 a b c 0" "a < 256" "b < 256" "c < 255"
    by (rule block_at_parts [OF assms(1)])
  have "block_at k + word_of_nat r = ip4 a b c r" unfolding i(1) by (simp add: ip4_def)
  then show "unat (block_at k + word_of_nat r) = unat (block_at k) + r"
    using i assms(2) by (simp add: unat_ip4)
  show "unat (block_at k) mod 256 = 0" using i by (simp add: unat_ip4)
qed

lemma get_free_block_result:
  assumes inv: "ippool_inv s" and "get_free_block s sz = Some b" "b \<noteq> 0"
  shows "\<exists>k < n_blocks. b = block_at k" and "\<not> block_collides s b"
proof -
  note ready = ippool_inv_dests(1)[OF inv]
  have "b \<in> block_at ` {..<n_blocks} \<and> \<not> block_collides s b"
    using ippool_inv_dests(8)[OF inv]
  proof
    assume "last_block s = 0"
    with get_free_block_first[OF ready this, of sz] assms(2)
    have "find (\<lambda>b. \<not> block_collides s b) (map block_at [0..<n_blocks]) = Some b" by simp
    from find_Some_mem[OF this] show ?thesis by (auto simp: atLeast0LessThan)
  next
    assume "\<exists>k < n_blocks. last_block s = block_at k"
    then obtain k where k: "k < n_blocks" "last_block s = block_at k" by blast
    have "find (\<lambda>b. \<not> block_collides s b) (cyclic_blocks k 0) = Some b"
      using get_free_block_last[OF ready k, of sz] assms(2,3) by (simp split: option.splits)
    from find_Some_mem[OF this] show ?thesis by (simp add: set_cyclic_blocks[OF k(1)])
  qed
  then show "\<exists>k < n_blocks. b = block_at k" "\<not> block_collides s b" by auto
qed

text \<open>What a call that hands out a pool has done.\<close>

lemma connman_ippool_create_Some:
  assumes inv: "ippool_inv s" and nowrap: "unat start + unat rng < 2 ^ 32"
    and create: "connman_ippool_create mem_pool mem_info index start rng cb ud s = Some (s', Some p)"
  obtains k where "k < n_blocks" "unat start + unat rng \<le> 254" "\<not> block_collides s (block_at k)"
    "p = next_ptr s" "s' = add_pool index (block_at k) start rng cb ud s"
proof -
  obtain b where b: "get_free_block s (start + rng) = Some b" "b \<noteq> 0" "\<not> 254 < start + rng"
    "p = next_ptr s" "s' = add_pool index b start rng cb ud s"
    using create unfolding connman_ippool_create_def by (auto split: option.splits if_splits)
  obtain k where k: "k < n_blocks" "b = block_at k" using get_free_block_result(1)[OF inv b(1,2)] by blast
  have "unat (start + rng) = unat start + unat rng" using nowrap by (simp add: unat_word_ariths)
  then have "unat start + unat rng \<le> 254" using b(3) by (simp add: word_less_nat_alt)
  then show ?thesis
    using that k b get_free_block_result(2)[OF inv b(1,2)] by blast
qed

lemma ippool_inv_add_pool:
  assumes inv: "ippool_inv s" and k: "k < n_blocks" "unat rng \<le> 254" "\<not> block_collides s (block_at k)"
  shows "ippool_inv (add_pool index (block_at k) start rng cb ud s)"
proof -
  let ?s = "add_pool index (block_at k) start rng cb ud s"
  let ?i = "pool_info_new index (block_at k) rng s"
  have i: "ai_addr ?i = next_ptr s + 1" "ai_start ?i = block_at k" "ai_pool ?i = Some (next_ptr s)"
    "ai_end ?i = block_at k + rng" "ai_index ?i = index"
    by (simp_all add: pool_info_new_def)
  have s: "allocated_blocks ?s = ?i # allocated_blocks s" "next_ptr ?s = next_ptr s + 2"
    "pools ?s = (pools s)(next_ptr s \<mapsto> pool_new (block_at k) start rng cb ud s)" "last_block ?s = block_at k"
    by (simp_all add: add_pool_def)
  have pl: "pool_info (pool_new (block_at k) start rng cb ud s) = Some (next_ptr s + 1)"
    by (simp add: pool_new_def Let_def)
  have fresh: "ai_start j \<noteq> block_at k" if "j \<in> set (allocated_blocks s)" for j
    using k(3) that ippool_inv_dests(4)[OF inv that] by (auto simp: block_collides_def list_ex_iff)
  have old: "ai_pool j \<noteq> Some (next_ptr s)" if "j \<in> set (allocated_blocks s)" for j
    using ippool_inv_dests(5)[OF inv that] ippool_inv_dests(6)[OF inv] by (fastforce simp: pool_block_ok_def)
  have rng: "rng = word_of_nat (unat rng)" by simp
  show ?thesis
  proof (rule ippool_invI, unfold s)
    show "ippool_ready ?s" using ippool_inv_dests(1)[OF inv] by (simp add: add_pool_def ippool_ready_def)
    show "distinct (map ai_addr (?i # allocated_blocks s))"
      using ippool_inv_dests(2)[OF inv] ippool_inv_dests(3)[OF inv] by (fastforce simp: i)
    show "distinct (map (\<lambda>i. (ai_index i, ai_start i)) (?i # allocated_blocks s))"
      using ippool_inv_dests(9)[OF inv] fresh by (fastforce simp: i)
    show "block_at k = 0 \<or> (\<exists>k' < n_blocks. block_at k = block_at k')" using k(1) by auto
  next
    fix j assume jm: "j \<in> set (?i # allocated_blocks s)"
    then consider "j = ?i" | "j \<in> set (allocated_blocks s)" by auto
    note j = this
    show "ai_addr j < next_ptr s + 2" using j by cases (use ippool_inv_dests(3)[OF inv] i in fastforce)+
    show "ai_start j \<le> ai_end j"
      using j
    proof cases
      case 1
      then show ?thesis using block_at_low(1)[OF k(1), of "unat rng"] k(2) i by (simp add: word_le_nat_alt)
    next
      case 2
      then show ?thesis by (rule ippool_inv_dests(4)[OF inv])
    qed
    show "pool_block_ok ?s j q" if q: "ai_pool j = Some q" for q
      using j
    proof cases
      case 1
      then show ?thesis
        using q i k pl unfolding pool_block_ok_def s by (metis fun_upd_same option.inject rng)
    next
      case 2
      then show ?thesis
        using ippool_inv_dests(5)[OF inv _ q] old q by (auto simp: pool_block_ok_def s)
    qed
    show "j = j'" if j': "j' \<in> set (?i # allocated_blocks s)" "ai_pool j \<noteq> None" "ai_pool j' \<noteq> None"
      "ai_start j = ai_start j'" for j'
    proof (cases "j = ?i \<or> j' = ?i")
      case True
      then show ?thesis using jm j'(1,4) fresh[of j] fresh[of j'] i(2) by (elim disjE) auto
    next
      case False
      then show ?thesis using jm j' ippool_inv_dests(10)[OF inv, of j j'] by simp
    qed
  next
    fix q pl' assume q: "((pools s)(next_ptr s \<mapsto> pool_new (block_at k) start rng cb ud s)) q = Some pl'"
    show "q < next_ptr s + 2" using q ippool_inv_dests(6)[OF inv, of q] by (auto split: if_splits)
    show "\<exists>i \<in> set (?i # allocated_blocks s). ai_pool i = Some q \<and> pool_info pl' = Some (ai_addr i)"
      using q ippool_inv_dests(7)[OF inv, of q pl'] pl i by (auto split: if_splits)
  qed
qed

lemma ippool_inv_create:
  assumes inv: "ippool_inv s" and nowrap: "unat start + unat rng < 2 ^ 32"
    and create: "connman_ippool_create mem_pool mem_info index start rng cb ud s = Some (s', r)"
  shows "ippool_inv s'"
proof (cases r)
  case None
  then have "s' = s"
    using create unfolding connman_ippool_create_def by (auto split: option.splits if_splits)
  then show ?thesis using inv by simp
next
  case (Some p)
  from connman_ippool_create_Some[OF inv nowrap create[unfolded this]] obtain k where
    "k < n_blocks" "unat start + unat rng \<le> 254" "\<not> block_collides s (block_at k)"
    "s' = add_pool index (block_at k) start rng cb ud s" by blast
  then show ?thesis using ippool_inv_add_pool[OF inv] by simp
qed

lemma ippool_reach_inv: "ippool_reach inet_aton s \<Longrightarrow> ippool_inv s"
  by (induction rule: ippool_reach.induct)
     (auto intro: reach_inv_init ippool_inv_newaddr ippool_inv_deladdr ippool_inv_create ippool_inv_free)

lemma block_unique:
  fixes x y z :: nat
  assumes "x \<noteq> y" "x mod 256 = 0" "y mod 256 = 0" "x \<le> z" "z \<le> x + 254" "y \<le> z" "z \<le> y + 254"
  shows False
proof -
  obtain a b where ab: "x = 256 * a" "y = 256 * b" using assms(2,3) by (auto elim!: dvdE simp: mod_eq_0_iff_dvd)
  then have "a < b + 1" "b < a + 1" using assms by linarith+
  then show False using assms(1) ab by simp
qed

text \<open>Blocks of two pools start at different multiples of 256 and are shorter than that.\<close>

lemma pool_ranges_disjoint:
  assumes inv: "ippool_inv s" and i: "i \<in> set (allocated_blocks s)" "ai_pool i = Some p"
    and j: "j \<in> set (allocated_blocks s)" "ai_pool j = Some q" and "p \<noteq> q"
  shows "{ai_start i..ai_end i} \<inter> {ai_start j..ai_end j} = {}"
proof -
  obtain k r where k: "k < n_blocks" "ai_start i = block_at k" "r \<le> 254" "ai_end i = ai_start i + word_of_nat r"
    using ippool_inv_dests(5)[OF inv i] unfolding pool_block_ok_def by blast
  obtain k' r' where k': "k' < n_blocks" "ai_start j = block_at k'" "r' \<le> 254" "ai_end j = ai_start j + word_of_nat r'"
    using ippool_inv_dests(5)[OF inv j] unfolding pool_block_ok_def by blast
  have ne: "unat (block_at k) \<noteq> unat (block_at k')"
    using ippool_inv_dests(10)[OF inv i(1) j(1)] i(2) j(2) k(2) k'(2) \<open>p \<noteq> q\<close> unat_inj_word by fastforce
  have low: "unat (block_at k) mod 256 = 0" "unat (block_at k') mod 256 = 0"
    using block_at_low(2)[of _ 0] k(1) k'(1) by auto
  have e: "unat (ai_end i) = unat (block_at k) + r" "unat (ai_end j) = unat (block_at k') + r'"
    using block_at_low(1) k k' by auto
  have False if "x \<in> {ai_start i..ai_end i}" "x \<in> {ai_start j..ai_end j}" for x
  proof -
    have "unat (block_at k) \<le> unat x" "unat x \<le> unat (block_at k) + 254"
      "unat (block_at k') \<le> unat x" "unat x \<le> unat (block_at k') + 254"
      using that k k' e by (auto simp: word_le_nat_alt)
    then show False using block_unique[OF _ low] ne by blast
  qed
  then show ?thesis by blast
qed

text \<open>Adding an address and deleting it again.\<close>

lemma get_info_lookup:
  assumes "ippool_inv s"
  shows "lookup_info (snd (get_info index start end s)) index start \<noteq> None"
  by (auto simp: get_info_def lookup_info_def split: option.split)

lemma newaddr_deladdr_lookup:
  assumes inv: "ippool_inv s" and l: "lookup_info s index start = Some i"
  shows "lookup_info (set_use_count f (ai_addr i) s) index start = Some (i\<lparr>ai_use_count := f (ai_use_count i)\<rparr>)"
proof -
  have "find P (upd_ptr ai_addr p g xs) = map_option (\<lambda>x. if ai_addr x = p then g x else x) (find P xs)"
    if "\<And>x. P (g x) = P x" for P p g and xs :: "address_info list"
    using that by (induction xs) auto
  then show ?thesis
    using l unfolding lookup_info_def set_use_count_def by simp
qed

lemma upd_ptr_upd_ptr:
  "(\<And>x. at (f x) = at x) \<Longrightarrow> upd_ptr at p g (upd_ptr at p f xs) = upd_ptr at p (g \<circ> f) xs"
  by (simp add: upd_ptr_def)

lemma upd_ptr_same: "(\<And>x. f x = x) \<Longrightarrow> upd_ptr at p f xs = xs"
  by (simp add: upd_ptr_def map_idI)

lemma newaddr_deladdr_existing:
  assumes inv: "ippool_inv s" and l: "lookup_info s index start = Some i"
  shows "set_use_count (\<lambda>c. c - 1) (ai_addr i) (set_use_count (\<lambda>c. c + 1) (ai_addr i) s) = s"
  by (simp add: set_use_count_def upd_ptr_upd_ptr comp_def upd_ptr_same)

lemma newaddr_deladdr_new:
  assumes inv: "ippool_inv s" and l: "lookup_info s index start = None"
    and s2: "s2 = set_use_count (\<lambda>c. c + 1) (next_ptr s) (snd (get_info index start end s))"
  shows "lookup_info s2 index start = Some \<lparr>ai_addr = next_ptr s, ai_index = index, ai_start = start,
      ai_end = end, ai_use_count = 1, ai_pool = None\<rparr>"
    and "remove_ptr ai_addr (next_ptr s) (allocated_blocks (set_use_count (\<lambda>c. c - 1) (next_ptr s) s2)) = allocated_blocks s"
proof -
  have idle: "next_ptr s \<notin> ai_addr ` set (allocated_blocks s)"
    using ippool_inv_dests(3)[OF inv] by fastforce
  show "lookup_info s2 index start = Some \<lparr>ai_addr = next_ptr s, ai_index = index, ai_start = start,
      ai_end = end, ai_use_count = 1, ai_pool = None\<rparr>"
    using l by (simp add: s2 get_info_def lookup_info_def set_use_count_def)
  show "remove_ptr ai_addr (next_ptr s) (allocated_blocks (set_use_count (\<lambda>c. c - 1) (next_ptr s) s2)) = allocated_blocks s"
    using l idle by (simp add: s2 get_info_def set_use_count_def upd_ptr_idle)
qed


lemma first_free_block_zero:
  assumes "k < n_blocks"
  shows "first_free_block s k = 0 \<longleftrightarrow> (\<forall>i < n_blocks. block_collides s (block_at i))"
proof (cases "find (\<lambda>b. \<not> block_collides s b) (cyclic_blocks k 0)")
  case None
  then show ?thesis
    using set_cyclic_blocks[OF assms] find_None_iff[THEN iffD1, OF None] by (auto simp: first_free_block_def)
next
  case (Some b)
  then obtain i where i: "i < n_blocks" "b = block_at i" "\<not> block_collides s b"
    using find_Some_mem[OF Some] set_cyclic_blocks[OF assms] by auto
  then have "first_free_block s k \<noteq> 0" using Some block_at_nonzero by (simp add: first_free_block_def)
  then show ?thesis using i by blast
qed

lemma newaddr_private:
  assumes "prefixlen < 32" "inet_aton address = Some addr" "is_private_address addr"
  shows "fst (connman_ippool_newaddr inet_aton True index address prefixlen s) =
    (let start = addr AND prefix_mask prefixlen; g = get_info index start (start OR NOT (prefix_mask prefixlen)) s
     in set_use_count (\<lambda>c. c + 1) (fst g) (snd g))"
  using assms by (simp add: connman_ippool_newaddr_def newaddr_mask_def Let_def split_beta)

lemma deladdr_private:
  assumes "prefixlen < 32" "inet_aton address = Some addr" "is_private_address addr"
    and "lookup_info s index (addr AND prefix_mask prefixlen) = Some i"
  shows "connman_ippool_deladdr inet_aton index address prefixlen s =
    (let s1 = set_use_count (\<lambda>c. c - 1) (ai_addr i) s in
     Some (if ai_pool i \<noteq> None \<or> 0 < ai_use_count i - 1 then s1
       else s1\<lparr>allocated_blocks := remove_ptr ai_addr (ai_addr i) (allocated_blocks s1)\<rparr>))"
  using assms by (auto simp: connman_ippool_deladdr_def Let_def)

lemma get_info_known: "lookup_info s index start = Some i \<Longrightarrow> get_info index start end s = (ai_addr i, s)"
  by (simp add: get_info_def)

lemma fst_get_info_new: "lookup_info s index start = None \<Longrightarrow> fst (get_info index start end s) = next_ptr s"
  by (simp add: get_info_def)

lemmas pool_getters = connman_ippool_get_gateway_def connman_ippool_get_start_ip_def
  connman_ippool_get_end_ip_def connman_ippool_get_broadcast_def connman_ippool_get_subnet_mask_def

section \<open>A concrete history\<close>


lemmas demo_eval = connman_ippool_create_def get_free_block_def get_free_block_loop.simps
  block_collides_def next_block_def Let_def add_pool_def pool_info_new_def

lemma demo_init: "connman_ippool_init ippool_zero = \<lparr>allocated_blocks = [], last_block = 0,
    block_16_bits = 0xc0a80000, block_20_bits = 0xac100000, block_24_bits = 0x0a000000,
    subnet_mask_24 = 0xffffff00, pools = (\<lambda>_. None), next_ptr = 1\<rparr>"
  by (simp add: connman_ippool_init_def ippool_zero_def ip4_def)

lemmas demo_net_eval = demo_net_def connman_ippool_newaddr_def demo_aton_def is_private_address_def
  newaddr_mask_def prefix_mask_def get_info_def set_use_count_def lookup_info_def Let_def upd_ptr_def

lemma demo_pools_eval:
  "allocated_blocks demo_pools = [\<lparr>ai_addr = 4, ai_index = 2, ai_start = 0xc0a80100, ai_end = 0xc0a80164,
     ai_use_count = 0, ai_pool = Some 3\<rparr>, \<lparr>ai_addr = 2, ai_index = 1, ai_start = 0xc0a80000,
     ai_end = 0xc0a80064, ai_use_count = 0, ai_pool = Some 1\<rparr>]"
  by (simp add: demo_pools_def demo_pool_def demo_init demo_eval)

lemma demo_pool_create:
  "connman_ippool_create True True 1 1 100 None 0 (connman_ippool_init ippool_zero) =
     Some (demo_pool 1 (connman_ippool_init ippool_zero), Some 1)"
  "connman_ippool_create True True 2 1 100 None 0 (demo_pool 1 (connman_ippool_init ippool_zero)) =
     Some (demo_pools, Some 3)"
  by (simp_all add: demo_pools_def demo_pool_def demo_init demo_eval)

lemma demo_pools_reach: "ippool_reach inet_aton demo_pools"
  by (rule reach_create[OF reach_create[OF reach_init _ demo_pool_create(1)] _ demo_pool_create(2)]) simp_all

lemma ippool_inv_demo: "ippool_inv (demo_pool 1 (connman_ippool_init ippool_zero))"
  by (rule ippool_reach_inv[OF reach_create[OF reach_init _ demo_pool_create(1)]]) simp

section \<open>Properties\<close>

text \<open>
  C1. Two pools never share an address: in every state that calls of the interface reach,
  the blocks of different pools are disjoint.
\<close>

theorem pools_disjoint:
  assumes "ippool_reach inet_aton s"
    and "i \<in> set (allocated_blocks s)" "ai_pool i = Some p"
    and "j \<in> set (allocated_blocks s)" "ai_pool j = Some q" and "p \<noteq> q"
  shows "{ai_start i..ai_end i} \<inter> {ai_start j..ai_end j} = {}"
  by (rule pool_ranges_disjoint[OF ippool_reach_inv[OF assms(1)] assms(2-6)])

theorem pools_disjoint_witness:
  "{0xc0a80100..0xc0a80164} \<inter> {0xc0a80000..0xc0a80064 :: u32} = {}"
  using pools_disjoint[OF demo_pools_reach, of "hd (allocated_blocks demo_pools)" 3 "allocated_blocks demo_pools ! 1" 1]
  by (simp add: demo_pools_eval)

text \<open>
  C2. Once a block has been given out, the search always returns, and it returns the first
  block from the last one on, in the order 192.168/16, 172.16/12, 10/8 and round again,
  whose start lies in no range of the list; it returns 0 exactly when every block of the
  cycle collides.
\<close>

theorem get_free_block_refines:
  assumes "ippool_ready s" "k < n_blocks" "last_block s = block_at k"
  shows "get_free_block s sz = Some (first_free_block s k) \<and>
    (first_free_block s k = 0 \<longleftrightarrow> (\<forall>i < n_blocks. block_collides s (block_at i)))"
  using get_free_block_last[OF assms] first_free_block_zero[OF assms(2)] by (simp add: first_free_block_def)

theorem get_free_block_refines_witness: "get_free_block demo_pools 10 = Some (first_free_block demo_pools 1)"
proof (rule get_free_block_refines[THEN conjunct1])
  show "ippool_ready demo_pools" by (rule ippool_inv_dests(1)[OF ippool_reach_inv[OF demo_pools_reach]])
  show "(1::nat) < n_blocks" by (simp add: n_blocks_def)
  show "last_block demo_pools = block_at 1"
    by (simp add: demo_pools_def demo_pool_def demo_init demo_eval block_at_def ip4_def)
qed

text \<open>
  C3. Before any block has been given out the search has no stopping condition: it returns
  exactly when some block of the cycle is free, and does not return when every block
  collides, which three private networks on one interface bring about.
\<close>

theorem get_free_block_unset_diverges:
  assumes "ippool_ready s" "last_block s = 0"
  shows "get_free_block s sz = None \<longleftrightarrow> (\<forall>i < n_blocks. block_collides s (block_at i))"
  unfolding get_free_block_first[OF assms] by (auto simp: find_None_iff)

theorem get_free_block_unset_diverges_witness:
  "get_free_block (demo_net ''192.168.0.1'' 16 (demo_net ''172.16.0.1'' 12
     (demo_net ''10.0.0.1'' 8 (connman_ippool_init ippool_zero)))) 10 = None"
proof -
  let ?s = "demo_net ''192.168.0.1'' 16 (demo_net ''172.16.0.1'' 12
     (demo_net ''10.0.0.1'' 8 (connman_ippool_init ippool_zero)))"
  have ready: "ippool_ready ?s" "last_block ?s = 0"
    by (simp_all add: demo_net_eval demo_init ippool_ready_def ip4_def)
  have "block_collides ?s (block_at i)" if "i < n_blocks" for i
    using that by (cases rule: n_blocks_cases)
      (simp_all add: demo_net_eval demo_init block_collides_def block_at_ranges word_le_nat_alt unat_ip4)
  then show ?thesis using get_free_block_unset_diverges[OF ready] by blast
qed

text \<open>
  C34. For a start and a range whose sum does not wrap, a pool handed out lies in one /24 block whose
  first address is in no range of the list before and in one afterwards. Its gateway is address 1 of
  the block, its first address is address \<open>start\<close>, its last one comes \<open>range\<close> addresses later, or one
  later when the range is 0, and never exceeds address 255, which is the broadcast address.
\<close>

theorem connman_ippool_create_addresses:
  assumes "ippool_inv s" "unat start + unat rng < 2 ^ 32"
    and "connman_ippool_create mem_pool mem_info index start rng cb ud s = Some (s', Some p)"
  shows "\<exists>k pl n. k < n_blocks \<and> \<not> block_collides s (block_at k) \<and> block_collides s' (block_at k) \<and>
    pools s' p = Some pl \<and> n = (if rng = 0 then 1 else unat rng) \<and>
    connman_ippool_get_gateway pl = dotted_quad (block_at k + 1) \<and>
    connman_ippool_get_start_ip pl = dotted_quad (block_at k + start) \<and>
    connman_ippool_get_end_ip pl = dotted_quad (block_at k + start + word_of_nat n) \<and>
    connman_ippool_get_broadcast pl = dotted_quad (block_at k + 255) \<and>
    unat (block_at k) mod 256 = 0 \<and>
    unat (block_at k + start) = unat (block_at k) + unat start \<and>
    unat (block_at k + start + word_of_nat n) = unat (block_at k) + (unat start + n) \<and>
    unat start + n \<le> 255 \<and> (rng \<noteq> 0 \<or> start \<noteq> 254 \<longrightarrow> unat start + n < 255)"
proof -
  obtain k where k: "k < n_blocks" "unat start + unat rng \<le> 254" "\<not> block_collides s (block_at k)"
    "p = next_ptr s" "s' = add_pool index (block_at k) start rng cb ud s"
    by (rule connman_ippool_create_Some[OF assms])
  define n where "n = (if rng = 0 then 1 else unat rng)"
  have w: "word_of_nat n = (if rng = 0 then 1 else rng)" by (simp add: n_def)
  have s: "start \<noteq> 254 \<Longrightarrow> unat start \<noteq> 254" by (simp add: word_unat_eq_iff)
  have n: "unat start + n \<le> 255" "rng \<noteq> 0 \<or> start \<noteq> 254 \<longrightarrow> unat start + n < 255"
    using k(2) s by (cases "rng = 0"; simp add: n_def; linarith)+
  have e: "unat (block_at k + start) = unat (block_at k) + unat start"
    "unat (block_at k + rng) = unat (block_at k) + unat rng"
    using block_at_low(1)[OF k(1), of "unat start"] block_at_low(1)[OF k(1), of "unat rng"] k(2) by simp_all
  have e1: "unat (block_at k + start + word_of_nat n) = unat (block_at k) + (unat start + n)"
    using block_at_low(1)[OF k(1), of "unat start + n"] n(1) by (simp add: add.assoc)
  have "block_collides s' (block_at k)"
    using e(2) by (simp add: k(5) add_pool_def block_collides_def pool_info_new_def word_le_nat_alt)
  then show ?thesis
    using k e e1 n block_at_low(2)[OF k(1), of 0] n_def w
    by (intro exI[of _ k] exI[of _ "pool_new (block_at k) start rng cb ud s"] exI[of _ n])
      (simp add: add_pool_def pool_new_def Let_def pool_getters get_ip_def)
qed

theorem connman_ippool_create_addresses_witness:
  "\<exists>pl k. pools demo_pools 3 = Some pl \<and> connman_ippool_get_gateway pl = dotted_quad (block_at k + 1)"
  using connman_ippool_create_addresses[OF ippool_inv_demo _ demo_pool_create(2)] by auto

text \<open>
  C35. Deleting an address undoes adding it: for a private address with a prefix shorter
  than the whole width, the list of ranges is as before, whether the range was new or known.
\<close>

theorem newaddr_deladdr:
  assumes "ippool_inv s" "prefixlen < 32" "inet_aton address = Some addr" "is_private_address addr"
    and "\<And>i. i \<in> set (allocated_blocks s) \<Longrightarrow> ai_pool i = None \<Longrightarrow> 0 < ai_use_count i"
  shows "\<exists>s'. connman_ippool_deladdr inet_aton index address prefixlen
      (fst (connman_ippool_newaddr inet_aton True index address prefixlen s)) = Some s' \<and>
    allocated_blocks s' = allocated_blocks s \<and> pools s' = pools s \<and> last_block s' = last_block s"
proof -
  note new_addr = newaddr_private[where inet_aton = inet_aton and address = address, OF assms(2-4)]
  note del_addr = deladdr_private[where inet_aton = inet_aton and address = address, OF assms(2-4)]
  show ?thesis
  proof (cases "lookup_info s index (addr AND prefix_mask prefixlen)")
    case None
    note new = newaddr_deladdr_new[OF assms(1) None refl]
    show ?thesis
      using new(2) unfolding new_addr Let_def fst_get_info_new[OF None] del_addr[OF new(1)]
      by (simp add: set_use_count_def get_info_def None)
  next
    case (Some i)
    have i: "ai_pool i = None \<Longrightarrow> 0 < ai_use_count i" using assms(5) lookup_info_Some[OF Some] by blast
    show ?thesis
      using i newaddr_deladdr_existing[OF assms(1) Some]
      unfolding new_addr Let_def get_info_known[OF Some] fst_conv snd_conv
        del_addr[OF newaddr_deladdr_lookup[OF assms(1) Some]]
      by auto
  qed
qed

theorem newaddr_deladdr_witness:
  "\<exists>s'. connman_ippool_deladdr demo_aton 3 ''192.168.0.129'' 25 (demo_net ''192.168.0.129'' 25 demo_pools) = Some s' \<and>
    allocated_blocks s' = allocated_blocks demo_pools"
proof -
  have "0 < ai_use_count i" if "i \<in> set (allocated_blocks demo_pools)" "ai_pool i = None" for i
    using that by (auto simp: demo_pools_eval)
  moreover have "demo_aton ''192.168.0.129'' = Some 0xc0a80081" by (simp add: demo_aton_def)
  moreover have "is_private_address 0xc0a80081" by (simp add: is_private_address_def)
  moreover have "(25 :: u8) < 32" by simp
  ultimately have "\<exists>s'. connman_ippool_deladdr demo_aton 3 ''192.168.0.129'' 25
      (fst (connman_ippool_newaddr demo_aton True 3 ''192.168.0.129'' 25 demo_pools)) = Some s' \<and>
    allocated_blocks s' = allocated_blocks demo_pools \<and> pools s' = pools demo_pools \<and> last_block s' = last_block demo_pools"
    using newaddr_deladdr ippool_reach_inv[OF demo_pools_reach] by meson
  then show ?thesis unfolding demo_net_def by blast
qed

text \<open>
  The search tests only the start of a block: with 192.168.0.128/25 in use on an
  interface, the block 192.168.0.0 counts as free, and the pool created on it overlaps the
  network in use.
\<close>

lemma create_overlaps_network:
  "map (\<lambda>i. (ai_start i, ai_end i, ai_pool i)) (allocated_blocks
     (fst (the (connman_ippool_create True True 1 1 200 None 0
       (demo_net ''192.168.0.129'' 25 (connman_ippool_init ippool_zero)))))) =
   [(0xc0a80000, 0xc0a800c8, Some 2), (0xc0a80080, 0xc0a800ff, None)]"
  by (simp add: demo_net_eval demo_eval demo_init)

text \<open>
  The order of the search: following a block of the cycle is the next one, and the
  blocks of the cycle are pairwise different, so that no block is visited twice in a round.
\<close>

lemma next_block_cycle:
  assumes "ippool_ready s" "i < n_blocks"
  shows "next_block s (block_at i) = block_at (Suc i mod n_blocks) \<and>
    (\<forall>j < n_blocks. block_at i = block_at j \<longrightarrow> i = j)"
  using next_block_at[OF assms] block_at_inj[OF assms(2)] by blast

lemma next_block_cycle_example:
  "next_block (connman_ippool_init ippool_zero) (block_at 254) = block_at 255"
  using next_block_cycle[of "connman_ippool_init ippool_zero" 254]
  by (simp add: n_blocks_def demo_init ippool_ready_def ip4_def)

text \<open>
  C26. Every state that calls of the interface reach is well formed: the list holds no
  structure and no (interface, start) pair twice, its ranges are not empty, and pools and
  their entries point at each other.
\<close>

theorem ippool_reachable_inv:
  assumes "ippool_reach inet_aton s"
  shows "ippool_inv s"
  by (rule ippool_reach_inv[OF assms])

theorem ippool_reachable_inv_witness: "ippool_inv demo_pools"
  by (rule ippool_reachable_inv[OF demo_pools_reach])

end
