(* ===== verification/DhcpPacket.thy ===== *)
theory DhcpPacket
  imports Prelude
begin

text \<open>
  DHCP packets: \<open>src/gdhcp/common.c\<close>, \<open>src/gdhcp/common.h\<close> and the accessors of
  \<open>src/gdhcp/unaligned.h\<close> they use. A packet is a record with the fields of
  \<open>struct dhcp_packet\<close>; a field wider than a byte holds the number the host reads there, so
  that the byte order of the host is an argument \<open>le\<close> (true for little endian) of the
  definitions that depend on it. \<open>packet_bytes\<close> is the packet as it lies in memory: the walk
  over the options moves from one array of the structure to another and is defined on it.
  The walk has loops that do not end, so it is a partial function: \<open>None\<close> says that it does
  not return. \<open>Opt_undef\<close> says that it reads outside the structure or overflows a signed
  integer.
\<close>

unbundle bit_operations_syntax

section \<open>Constants\<close>

abbreviation "DHCP_OPTIONS_BUFSIZE \<equiv> 308 :: nat"
abbreviation "EXTEND_FOR_BUGGY_SERVERS \<equiv> 80 :: nat"
abbreviation "ETH_ALEN \<equiv> 6 :: nat"

abbreviation "BOOTREQUEST \<equiv> 1 :: u8"
abbreviation "BOOTREPLY \<equiv> 2 :: u8"
abbreviation "BROADCAST_FLAG \<equiv> 0x8000 :: u16"
abbreviation "DHCP_MAGIC \<equiv> 0x63825363 :: u32"

abbreviation "DHCP_PADDING \<equiv> 0x00 :: u8"
abbreviation "DHCP_SUBNET \<equiv> 0x01 :: u8"
abbreviation "DHCP_ROUTER \<equiv> 0x03 :: u8"
abbreviation "DHCP_DNS_SERVER \<equiv> 0x06 :: u8"
abbreviation "DHCP_REQUESTED_IP \<equiv> 0x32 :: u8"
abbreviation "DHCP_LEASE_TIME \<equiv> 0x33 :: u8"
abbreviation "DHCP_OPTION_OVERLOAD \<equiv> 0x34 :: u8"
abbreviation "DHCP_MESSAGE_TYPE \<equiv> 0x35 :: u8"
abbreviation "DHCP_SERVER_ID \<equiv> 0x36 :: u8"
abbreviation "DHCP_END \<equiv> 0xff :: u8"

abbreviation "FILE_FIELD \<equiv> 1 :: u8"
abbreviation "SNAME_FIELD \<equiv> 2 :: u8"

abbreviation "DHCPDISCOVER \<equiv> 1 :: u8"
abbreviation "DHCPOFFER \<equiv> 2 :: u8"
abbreviation "DHCPREQUEST \<equiv> 3 :: u8"
abbreviation "DHCPDECLINE \<equiv> 4 :: u8"
abbreviation "DHCPACK \<equiv> 5 :: u8"
abbreviation "DHCPNAK \<equiv> 6 :: u8"
abbreviation "DHCPRELEASE \<equiv> 7 :: u8"
abbreviation "DHCPINFORM \<equiv> 8 :: u8"
abbreviation "DHCP_MINTYPE \<equiv> DHCPDISCOVER"
abbreviation "DHCP_MAXTYPE \<equiv> DHCPINFORM"

definition MAC_BCAST_ADDR :: "u8 list" where
  "MAC_BCAST_ADDR = replicate 6 0xff"

definition MAC_ANY_ADDR :: "u8 list" where
  "MAC_ANY_ADDR = replicate 6 0"

section \<open>Byte order\<close>

definition bswap_16 :: "u16 \<Rightarrow> u16" where
  "bswap_16 w = push_bit 8 (w AND 0xff) OR (drop_bit 8 w AND 0xff)"

definition bswap_32 :: "u32 \<Rightarrow> u32" where
  "bswap_32 w = push_bit 24 (w AND 0xff) OR push_bit 8 (w AND 0xff00) OR
     (drop_bit 8 w AND 0xff00) OR (drop_bit 24 w AND 0xff)"

definition htons :: "bool \<Rightarrow> u16 \<Rightarrow> u16" where
  "htons le w = (if le then bswap_16 w else w)"

definition htonl :: "bool \<Rightarrow> u32 \<Rightarrow> u32" where
  "htonl le w = (if le then bswap_32 w else w)"

definition ntohl :: "bool \<Rightarrow> u32 \<Rightarrow> u32" where
  "ntohl le w = (if le then bswap_32 w else w)"

text \<open>A number in memory, and the unaligned reads and writes.\<close>

definition u16_bytes :: "bool \<Rightarrow> u16 \<Rightarrow> u8 list" where
  "u16_bytes le w = (let bs = [ucast w, ucast (drop_bit 8 w)] in if le then bs else rev bs)"

definition u32_bytes :: "bool \<Rightarrow> u32 \<Rightarrow> u8 list" where
  "u32_bytes le w = (let bs = [ucast w, ucast (drop_bit 8 w), ucast (drop_bit 16 w), ucast (drop_bit 24 w)]
     in if le then bs else rev bs)"

definition get_unaligned_16 :: "bool \<Rightarrow> u8 list \<Rightarrow> u16" where
  "get_unaligned_16 le mem = (let bs = (if le then take 2 mem else rev (take 2 mem)) in
     ucast (bs ! 0) OR push_bit 8 (ucast (bs ! 1)))"

definition get_unaligned_32 :: "bool \<Rightarrow> u8 list \<Rightarrow> u32" where
  "get_unaligned_32 le mem = (let bs = (if le then take 4 mem else rev (take 4 mem)) in
     ucast (bs ! 0) OR push_bit 8 (ucast (bs ! 1)) OR push_bit 16 (ucast (bs ! 2)) OR push_bit 24 (ucast (bs ! 3)))"

definition get_be32 :: "bool \<Rightarrow> u8 list \<Rightarrow> u32" where
  "get_be32 le mem = (if le then bswap_32 (get_unaligned_32 le mem) else get_unaligned_32 le mem)"

definition put_be16 :: "bool \<Rightarrow> u16 \<Rightarrow> u8 list" where
  "put_be16 le val = u16_bytes le (if le then bswap_16 val else val)"

definition put_be32 :: "bool \<Rightarrow> u32 \<Rightarrow> u8 list" where
  "put_be32 le val = u32_bytes le (if le then bswap_32 val else val)"

section \<open>The packet\<close>

record dhcp_packet =
  pkt_op :: u8
  pkt_htype :: u8
  pkt_hlen :: u8
  pkt_hops :: u8
  pkt_xid :: u32
  pkt_secs :: u16
  pkt_flags :: u16
  pkt_ciaddr :: u32
  pkt_yiaddr :: u32
  pkt_siaddr_nip :: u32
  pkt_gateway_nip :: u32
  pkt_chaddr :: "u8 list"
  pkt_sname :: "u8 list"
  pkt_file :: "u8 list"
  pkt_cookie :: u32
  pkt_options :: "u8 list"

text \<open>The packet after \<open>memset (packet, 0, sizeof (*packet))\<close>.\<close>

definition packet_zero :: dhcp_packet where
  "packet_zero = \<lparr>pkt_op = 0, pkt_htype = 0, pkt_hlen = 0, pkt_hops = 0, pkt_xid = 0, pkt_secs = 0,
     pkt_flags = 0, pkt_ciaddr = 0, pkt_yiaddr = 0, pkt_siaddr_nip = 0, pkt_gateway_nip = 0,
     pkt_chaddr = replicate 16 0, pkt_sname = replicate 64 0, pkt_file = replicate 128 0, pkt_cookie = 0,
     pkt_options = replicate (DHCP_OPTIONS_BUFSIZE + EXTEND_FOR_BUGGY_SERVERS) 0\<rparr>"

definition packet_bytes :: "bool \<Rightarrow> dhcp_packet \<Rightarrow> u8 list" where
  "packet_bytes le p = [pkt_op p, pkt_htype p, pkt_hlen p, pkt_hops p] @ u32_bytes le (pkt_xid p) @
     u16_bytes le (pkt_secs p) @ u16_bytes le (pkt_flags p) @ u32_bytes le (pkt_ciaddr p) @
     u32_bytes le (pkt_yiaddr p) @ u32_bytes le (pkt_siaddr_nip p) @ u32_bytes le (pkt_gateway_nip p) @
     pkt_chaddr p @ pkt_sname p @ pkt_file p @ u32_bytes le (pkt_cookie p) @ pkt_options p"

text \<open>The structure laid over 628 bytes of memory.\<close>

definition packet_of_bytes :: "bool \<Rightarrow> u8 list \<Rightarrow> dhcp_packet" where
  "packet_of_bytes le m = \<lparr>pkt_op = m ! 0, pkt_htype = m ! 1, pkt_hlen = m ! 2, pkt_hops = m ! 3,
     pkt_xid = get_unaligned_32 le (drop 4 m), pkt_secs = get_unaligned_16 le (drop 8 m),
     pkt_flags = get_unaligned_16 le (drop 10 m), pkt_ciaddr = get_unaligned_32 le (drop 12 m),
     pkt_yiaddr = get_unaligned_32 le (drop 16 m), pkt_siaddr_nip = get_unaligned_32 le (drop 20 m),
     pkt_gateway_nip = get_unaligned_32 le (drop 24 m), pkt_chaddr = take 16 (drop 28 m),
     pkt_sname = take 64 (drop 44 m), pkt_file = take 128 (drop 108 m),
     pkt_cookie = get_unaligned_32 le (drop 236 m), pkt_options = take 388 (drop 240 m)\<rparr>"

section \<open>Options\<close>

text \<open>\<open>GDHCPOptionType\<close>; the list flag is a second component.\<close>

datatype option_type = OPTION_UNKNOWN | OPTION_IP | OPTION_STRING | OPTION_U8 | OPTION_U16 | OPTION_U32

definition client_options :: "((option_type \<times> bool) \<times> u8) list" where
  "client_options = [((OPTION_IP, False), 0x01), ((OPTION_IP, True), 0x03), ((OPTION_IP, True), 0x06),
     ((OPTION_STRING, False), 0x0c), ((OPTION_STRING, False), 0x0f), ((OPTION_U16, False), 0x1a),
     ((OPTION_IP, True), 0x2a), ((OPTION_U32, False), 0x33), ((OPTION_IP, False), 0x32),
     ((OPTION_U8, False), 0x35), ((OPTION_U32, False), 0x36), ((OPTION_U16, False), 0x39),
     ((OPTION_STRING, False), 0x3c), ((OPTION_STRING, False), 0x3d), ((OPTION_STRING, False), 0xfc),
     ((OPTION_UNKNOWN, False), 0x00)]"

fun code_type_loop :: "((option_type \<times> bool) \<times> u8) list \<Rightarrow> u8 \<Rightarrow> option_type \<times> bool" where
  "code_type_loop [] code = (OPTION_UNKNOWN, False)"
| "code_type_loop ((type, c) # os) code =
     (if c = 0 then (OPTION_UNKNOWN, False) else if c = code then type else code_type_loop os code)"

definition dhcp_get_code_type :: "u8 \<Rightarrow> option_type \<times> bool" where
  "dhcp_get_code_type code = code_type_loop client_options code"

fun dhcp_option_lengths :: "option_type \<Rightarrow> nat" where
  "dhcp_option_lengths OPTION_UNKNOWN = 0"
| "dhcp_option_lengths OPTION_IP = 4"
| "dhcp_option_lengths OPTION_STRING = 1"
| "dhcp_option_lengths OPTION_U8 = 1"
| "dhcp_option_lengths OPTION_U16 = 2"
| "dhcp_option_lengths OPTION_U32 = 4"

definition check_option :: "u8 \<Rightarrow> nat \<Rightarrow> option_type \<times> bool" where
  "check_option code data_len =
     (let type = dhcp_get_code_type code in
      if type = (OPTION_UNKNOWN, False) then type
      else if dhcp_option_lengths (fst type) \<noteq> data_len then (OPTION_UNKNOWN, False) else type)"

datatype opt_result = Opt_none | Opt_at nat | Opt_undef

abbreviation INT_MIN :: int where "INT_MIN \<equiv> - (2 ^ 31)"

partial_function (option) dhcp_get_option_loop ::
  "u8 list \<Rightarrow> int \<Rightarrow> int \<Rightarrow> int \<Rightarrow> nat \<Rightarrow> u8 \<Rightarrow> opt_result option"
where
  "dhcp_get_option_loop mem options_end code rem optionptr overload =
     (if rem \<le> 0 \<and> options_end < int optionptr then Some Opt_none
      else case rd mem optionptr of None \<Rightarrow> Some Opt_undef
      | Some c \<Rightarrow>
        if c = DHCP_PADDING then
          (if rem - 1 < INT_MIN then Some Opt_undef
           else dhcp_get_option_loop mem options_end code (rem - 1) (optionptr + 1) overload)
        else if c = DHCP_END then
          (if overload AND FILE_FIELD \<noteq> 0 then
             dhcp_get_option_loop mem options_end code 128 108 (overload AND NOT FILE_FIELD)
           else if overload AND SNAME_FIELD \<noteq> 0 then
             dhcp_get_option_loop mem options_end code 64 44 (overload AND NOT SNAME_FIELD)
           else Some Opt_none)
        else if options_end < int optionptr + 1 then Some Opt_none
        else (case rd mem (optionptr + 1) of None \<Rightarrow> Some Opt_undef
          | Some l \<Rightarrow>
            let len = 2 + unat l; rem' = rem - int len in
            if rem' < INT_MIN then Some Opt_undef
            else if rem' < 0 then dhcp_get_option_loop mem options_end code rem' optionptr overload
            else if uint c = code then
              (if options_end < int (optionptr + len) then Some Opt_none else Some (Opt_at (optionptr + 2)))
            else if c = DHCP_OPTION_OVERLOAD then
              (case rd mem (optionptr + 2) of None \<Rightarrow> Some Opt_undef
               | Some b \<Rightarrow> dhcp_get_option_loop mem options_end code rem' (optionptr + len) (overload OR b))
            else dhcp_get_option_loop mem options_end code rem' (optionptr + len) overload))"

text \<open>
  The end pointer is the address of the last byte received: the offset of the options in the
  structure is added to and subtracted from the same length.
\<close>

definition dhcp_get_option :: "bool \<Rightarrow> dhcp_packet \<Rightarrow> u16 \<Rightarrow> int \<Rightarrow> opt_result option" where
  "dhcp_get_option le packet packet_len code =
     dhcp_get_option_loop (packet_bytes le packet) (int (unat packet_len) - 1) code 388 240 0"

text \<open>The end of the options; \<open>None\<close> when the loop reads past the memory of the packet.\<close>

function dhcp_end_option_loop :: "u8 list \<Rightarrow> nat \<Rightarrow> nat option" where
  "dhcp_end_option_loop optionptr i =
     (case rd optionptr i of None \<Rightarrow> None
      | Some c \<Rightarrow>
        if c = DHCP_END then Some i
        else if c = DHCP_PADDING then dhcp_end_option_loop optionptr (i + 1)
        else (case rd optionptr (i + 1) of None \<Rightarrow> None
          | Some l \<Rightarrow> dhcp_end_option_loop optionptr (i + unat l + 2)))"
  by pat_completeness auto
termination
  by (relation "measure (\<lambda>(mem, i). length mem - i)") (auto simp: rd_def split: if_splits)

declare dhcp_end_option_loop.simps [simp del]

definition dhcp_end_option :: "u8 list \<Rightarrow> nat option" where
  "dhcp_end_option optionptr = dhcp_end_option_loop optionptr 0"

text \<open>\<open>memcpy\<close> into an array.\<close>

definition memcpy :: "nat \<Rightarrow> u8 list \<Rightarrow> u8 list \<Rightarrow> u8 list" where
  "memcpy at src mem = take at mem @ src @ drop (at + length src) mem"

definition dhcp_add_binary_option :: "dhcp_packet \<Rightarrow> u8 list \<Rightarrow> dhcp_packet option" where
  "dhcp_add_binary_option packet addopt =
     (case dhcp_end_option (pkt_options packet) of None \<Rightarrow> None
      | Some end \<Rightarrow>
        let len = 2 + unat (addopt ! 1) in
        if DHCP_OPTIONS_BUFSIZE \<le> end + len + 1 then Some packet
        else Some (packet\<lparr>pkt_options :=
          (memcpy end (take len addopt) (pkt_options packet))[end + len := DHCP_END]\<rparr>))"

definition dhcp_add_option_uint32 :: "bool \<Rightarrow> dhcp_packet \<Rightarrow> u8 \<Rightarrow> u32 \<Rightarrow> dhcp_packet option" where
  "dhcp_add_option_uint32 le packet code data =
     (if check_option code 4 = (OPTION_UNKNOWN, False) then Some packet
      else dhcp_add_binary_option packet ([code, 4] @ put_be32 le data))"

definition dhcp_add_option_uint16 :: "bool \<Rightarrow> dhcp_packet \<Rightarrow> u8 \<Rightarrow> u16 \<Rightarrow> dhcp_packet option" where
  "dhcp_add_option_uint16 le packet code data =
     (if check_option code 2 = (OPTION_UNKNOWN, False) then Some packet
      else dhcp_add_binary_option packet ([code, 2] @ put_be16 le data))"

definition dhcp_add_option_uint8 :: "dhcp_packet \<Rightarrow> u8 \<Rightarrow> u8 \<Rightarrow> dhcp_packet option" where
  "dhcp_add_option_uint8 packet code data =
     (if check_option code 1 = (OPTION_UNKNOWN, False) then Some packet
      else dhcp_add_binary_option packet [code, 1, data])"

definition dhcp_init_header :: "bool \<Rightarrow> u8 \<Rightarrow> dhcp_packet option" where
  "dhcp_init_header le type =
     dhcp_add_option_uint8
       (packet_zero\<lparr>pkt_op := (if type \<in> {DHCPOFFER, DHCPACK, DHCPNAK} then BOOTREPLY else BOOTREQUEST),
          pkt_htype := 1, pkt_hlen := 6, pkt_cookie := htonl le DHCP_MAGIC,
          pkt_options := (pkt_options packet_zero)[0 := DHCP_END]\<rparr>)
       DHCP_MESSAGE_TYPE type"

text \<open>
  The result of \<open>read\<close> is the bytes received, at most as many as the structure has, or an
  error number.
\<close>

definition dhcp_recv_l3_packet :: "bool \<Rightarrow> u8 list result \<Rightarrow> (dhcp_packet \<times> nat) result" where
  "dhcp_recv_l3_packet le r =
     (case r of Inl e \<Rightarrow> Inl e
      | Inr bs \<Rightarrow>
        let packet = packet_of_bytes le (take 628 (bs @ replicate 628 0)) in
        if pkt_cookie packet \<noteq> htonl le DHCP_MAGIC then Inl EPROTO
        else Inr (packet, min 628 (length bs)))"

text \<open>
  The Internet checksum: the sum of the 16-bit numbers of the host, then the fold. The sum is an
  \<open>int32_t\<close>; \<open>None\<close> says that it overflows, which is undefined.
\<close>

definition int32_add :: "nat \<Rightarrow> nat \<Rightarrow> nat option" where
  "int32_add a b = (if a + b < 2 ^ 31 then Some (a + b) else None)"

fun checksum_loop :: "bool \<Rightarrow> u8 list \<Rightarrow> nat \<Rightarrow> nat option" where
  "checksum_loop le (b # b' # bs) sm =
     Option.bind (int32_add sm (unat (get_unaligned_16 le [b, b']))) (checksum_loop le bs)"
| "checksum_loop le [b] sm = int32_add sm (unat (get_unaligned_16 le [b, 0]))"
| "checksum_loop le [] sm = Some sm"

function checksum_fold :: "nat \<Rightarrow> nat" where
  "checksum_fold sm = (if sm div 2 ^ 16 = 0 then sm else checksum_fold (sm mod 2 ^ 16 + sm div 2 ^ 16))"
  by pat_completeness auto
termination
proof (relation "measure id")
  fix sm :: nat assume "sm div 2 ^ 16 \<noteq> 0"
  then have "65536 \<le> sm" by (simp add: div_eq_0_iff)
  then have "sm mod 65536 + sm div 65536 < sm"
    using div_mult_mod_eq[of sm 65536] by linarith
  then show "(sm mod 2 ^ 16 + sm div 2 ^ 16, sm) \<in> measure id" by simp
qed simp

declare checksum_fold.simps [simp del]

definition dhcp_checksum :: "bool \<Rightarrow> u8 list \<Rightarrow> u16 option" where
  "dhcp_checksum le mem = map_option (\<lambda>sm. NOT (word_of_nat (checksum_fold sm))) (checksum_loop le mem 0)"

text \<open>
  The datagram \<open>dhcp_send_raw_packet\<close> hands to the kernel: an IPv4 header, a UDP header and
  the packet without the last 80 bytes. The UDP checksum is computed while the IP header
  holds only the protocol, the addresses and the UDP length.
\<close>

abbreviation "IP_UPD_DHCP_SIZE \<equiv> 576 :: u16"
abbreviation "UPD_DHCP_SIZE \<equiv> 556 :: u16"

definition iphdr :: "bool \<Rightarrow> u8 \<Rightarrow> u16 \<Rightarrow> u8 \<Rightarrow> u16 \<Rightarrow> u32 \<Rightarrow> u32 \<Rightarrow> u8 list" where
  "iphdr le version_ihl tot_len ttl check saddr daddr =
     [version_ihl, 0] @ u16_bytes le tot_len @ [0, 0, 0, 0, ttl, 17] @ u16_bytes le check @
     u32_bytes le saddr @ u32_bytes le daddr"

definition udphdr :: "bool \<Rightarrow> u16 \<Rightarrow> u16 \<Rightarrow> u16 \<Rightarrow> u8 list" where
  "udphdr le source_port dest_port check =
     u16_bytes le (htons le source_port) @ u16_bytes le (htons le dest_port) @
     u16_bytes le (htons le UPD_DHCP_SIZE) @ u16_bytes le check"

definition set_bcast :: "bool \<Rightarrow> bool \<Rightarrow> dhcp_packet \<Rightarrow> dhcp_packet" where
  "set_bcast le bcast dhcp_pkt =
     (if bcast then dhcp_pkt\<lparr>pkt_flags := pkt_flags dhcp_pkt OR htons le BROADCAST_FLAG\<rparr> else dhcp_pkt)"

definition raw_packet :: "bool \<Rightarrow> bool \<Rightarrow> dhcp_packet \<Rightarrow> u32 \<Rightarrow> u16 \<Rightarrow> u32 \<Rightarrow> u16 \<Rightarrow> u8 list option" where
  "raw_packet le bcast dhcp_pkt source_ip source_port dest_ip dest_port =
     (let data = take 548 (packet_bytes le (set_bcast le bcast dhcp_pkt)) in
      Option.bind (dhcp_checksum le (iphdr le 0 (htons le UPD_DHCP_SIZE) 0 0 source_ip dest_ip @
          udphdr le source_port dest_port 0 @ data)) (\<lambda>udp_check.
      Option.bind (dhcp_checksum le (iphdr le 0x45 (htons le IP_UPD_DHCP_SIZE) 64 0 source_ip dest_ip)) (\<lambda>ip_check.
      Some (iphdr le 0x45 (htons le IP_UPD_DHCP_SIZE) 64 ip_check source_ip dest_ip @
        udphdr le source_port dest_port udp_check @ data))))"

section \<open>DHCPv6 options\<close>

text \<open>
  \<open>mem\<close> is the memory from \<open>packet->options\<close> on. The result is the position found, the
  length stored (if any) and the count; \<open>None\<close> says that the walk reads outside \<open>mem\<close>.
\<close>

type_synonym dhcpv6_found = "nat option \<times> u16 option \<times> nat"

definition be16_at :: "u8 list \<Rightarrow> nat \<Rightarrow> u16 option" where
  "be16_at mem i = (if i + 1 < length mem then Some (push_bit 8 (ucast (mem ! i)) OR ucast (mem ! (i + 1))) else None)"

function dhcpv6_get_option_loop ::
  "u8 list \<Rightarrow> u16 \<Rightarrow> int \<Rightarrow> nat \<Rightarrow> dhcpv6_found \<Rightarrow> dhcpv6_found option"
where
  "dhcpv6_get_option_loop mem code rem optionptr (found, option_len, count) =
     (case (be16_at mem optionptr, be16_at mem (optionptr + 2)) of
        (Some opt_code, Some opt_len) \<Rightarrow>
          let len = opt_len + 4; rem' = rem - uint len;
              r = (if opt_code = code then (Some (optionptr + 4), Some opt_len, count + 1)
                   else (found, option_len, count)) in
          if len < 4 then Some (None, Some 0, 0)
          else if rem' < 0 then Some (found, option_len, count)
          else if rem' = 0 then Some r
          else dhcpv6_get_option_loop mem code rem' (optionptr + unat len) r
      | _ \<Rightarrow> None)"
  by pat_completeness auto
termination
  by (relation "measure (\<lambda>(mem, code, rem, optionptr, r). nat rem)")
    (auto simp: word_less_def uint_nonnegative not_less)

declare dhcpv6_get_option_loop.simps [simp del]

definition dhcpv6_get_option :: "u8 list \<Rightarrow> u16 \<Rightarrow> u16 \<Rightarrow> dhcpv6_found option" where
  "dhcpv6_get_option mem pkt_len code =
     (let rem = uint pkt_len - 4 in
      if rem \<le> 0 then Some (None, Some 0, 0)
      else dhcpv6_get_option_loop mem code rem 0 (None, None, 0))"

text \<open>The code, the length and the position of the data of a sub-option.\<close>

definition dhcpv6_get_sub_option :: "u8 list \<Rightarrow> u16 \<Rightarrow> (u16 \<times> u16 \<times> nat) option option" where
  "dhcpv6_get_sub_option mem max_len =
     (let rem = uint max_len - 4 in
      if rem \<le> 0 then Some None
      else (case (be16_at mem 0, be16_at mem 2) of
        (Some code, Some len) \<Rightarrow>
          if rem - uint len < 0 then Some None else Some (Some (code, len, 4))
      | _ \<Rightarrow> None))"

definition dhcpv6_add_binary_option :: "u8 list \<Rightarrow> u16 \<Rightarrow> u16 \<Rightarrow> u8 list \<Rightarrow> u8 list \<times> u16" where
  "dhcpv6_add_binary_option mem max_len pkt_len addopt =
     (let len = 4 + unat (the (be16_at addopt 2)) in
      if unat max_len \<le> unat pkt_len + len then (mem, pkt_len)
      else (memcpy (unat pkt_len) (take len addopt) mem, pkt_len + word_of_nat len))"

section \<open>Specification\<close>

text \<open>
  The options of a packet as a list of codes and data, their bytes, the position of the data
  of the first option with a code; the packets whose arrays have their sizes, those that
  hold a list of options, and what the walk reads of an option.
\<close>

definition encode_opts :: "(u8 \<times> u8 list) list \<Rightarrow> u8 list" where
  "encode_opts opts = concat (map (\<lambda>(c, d). c # word_of_nat (length d) # d) opts)"

definition opts_wf :: "(u8 \<times> u8 list) list \<Rightarrow> bool" where
  "opts_wf opts \<longleftrightarrow> list_all (\<lambda>(c, d). c \<noteq> DHCP_PADDING \<and> c \<noteq> DHCP_END \<and> c \<noteq> DHCP_OPTION_OVERLOAD \<and>
     length d < 256) opts"

fun opt_pos :: "(u8 \<times> u8 list) list \<Rightarrow> u8 \<Rightarrow> nat option" where
  "opt_pos [] code = None"
| "opt_pos ((c, d) # opts) code = (if c = code then Some 2 else map_option ((+) (2 + length d)) (opt_pos opts code))"

definition packet_wf :: "dhcp_packet \<Rightarrow> bool" where
  "packet_wf p \<longleftrightarrow> length (pkt_chaddr p) = 16 \<and> length (pkt_sname p) = 64 \<and> length (pkt_file p) = 128 \<and>
     length (pkt_options p) = 388"

definition packet_opts :: "dhcp_packet \<Rightarrow> (u8 \<times> u8 list) list \<Rightarrow> bool" where
  "packet_opts p opts \<longleftrightarrow> packet_wf p \<and> opts_wf opts \<and> take (length (encode_opts opts) + 1) (pkt_options p) = encode_opts opts @ [DHCP_END]"

definition option_data :: "bool \<Rightarrow> dhcp_packet \<Rightarrow> u16 \<Rightarrow> u8 \<Rightarrow> u8 list option" where
  "option_data le p packet_len code = (case dhcp_get_option le p packet_len (uint code) of
     Some (Opt_at i) \<Rightarrow> Some (take (unat (packet_bytes le p ! (i - 1))) (drop i (packet_bytes le p)))
   | _ \<Rightarrow> None)"

definition found_inside :: "int \<Rightarrow> dhcpv6_found \<Rightarrow> bool" where
  "found_inside R r = (case r of (None, _, _) \<Rightarrow> True
     | (Some q, olen, _) \<Rightarrow> 4 \<le> q \<and> (\<exists>l. olen = Some l \<and> int q + uint l \<le> R))"

section \<open>The walk over the options\<close>

text \<open>What it returns lies inside the packet received.\<close>

lemma rd_Some: "rd mem i = Some b \<longleftrightarrow> i < length mem \<and> mem ! i = b"
  by (auto simp: rd_def)

lemma dhcp_get_option_loop_inside:
  assumes "dhcp_get_option_loop mem e code rem p ov = Some r"
  shows "case r of Opt_at i \<Rightarrow> 2 \<le> i \<and> i \<le> length mem \<and> uint (mem ! (i - 2)) = code \<and>
     int (i + unat (mem ! (i - 1))) \<le> e | _ \<Rightarrow> True"
proof (rule dhcp_get_option_loop.raw_induct[where P = "\<lambda>mem e code rem p ov r. case r of
    Opt_at i \<Rightarrow> 2 \<le> i \<and> i \<le> length mem \<and> uint (mem ! (i - 2)) = code \<and> int (i + unat (mem ! (i - 1))) \<le> e
    | _ \<Rightarrow> True", OF _ assms], goal_cases)
  case (1 f mem e code rem p ov r)
  show ?case
    using 1(2)
    by (auto split: if_splits option.splits simp: rd_Some Let_def dest: 1(1))
qed

lemma opts_wf_simps [simp]:
  "opts_wf []"
  "opts_wf ((c, d) # opts) \<longleftrightarrow> c \<noteq> DHCP_PADDING \<and> c \<noteq> DHCP_END \<and> c \<noteq> DHCP_OPTION_OVERLOAD \<and>
     length d < 256 \<and> opts_wf opts"
  "opts_wf (xs @ ys) \<longleftrightarrow> opts_wf xs \<and> opts_wf ys"
  by (auto simp: opts_wf_def)

lemma encode_opts_simps [simp]:
  "encode_opts [] = []"
  "encode_opts ((c, d) # opts) = [c, word_of_nat (length d)] @ d @ encode_opts opts"
  "encode_opts (xs @ ys) = encode_opts xs @ encode_opts ys"
  by (simp_all add: encode_opts_def)

lemma unat_length_byte: "n < 256 \<Longrightarrow> unat (word_of_nat n :: u8) = n"
  by (simp add: unat_of_nat take_bit_nat_eq_self_iff take_bit_eq_mod)

lemma dhcp_get_option_loop_encoded:
  assumes "opts_wf opts" and "mem = pre @ encode_opts opts @ DHCP_END # rest" and "p = length pre"
    and "int (length (encode_opts opts)) \<le> rem" "int (length pre + length (encode_opts opts)) \<le> e"
  shows "dhcp_get_option_loop mem e (uint code) rem p 0 =
    Some (case opt_pos opts code of None \<Rightarrow> Opt_none | Some k \<Rightarrow> Opt_at (p + k))"
  using assms
proof (induction opts arbitrary: pre p rem)
  case Nil
  then show ?case by (subst dhcp_get_option_loop.simps) (simp add: rd_def nth_append)
next
  case (Cons x opts)
  obtain c d where x: "x = (c, d)" by fastforce
  let ?pre = "pre @ [c, word_of_nat (length d)] @ d"
  have IH: "dhcp_get_option_loop mem e (uint code) (rem - int (2 + length d)) (p + (2 + length d)) 0 =
      Some (case opt_pos opts code of None \<Rightarrow> Opt_none | Some k \<Rightarrow> Opt_at ((p + (2 + length d)) + k))"
    by (rule Cons.IH[of ?pre]) (use Cons.prems x in simp_all)
  show ?case
    using Cons.prems x IH
    by (subst dhcp_get_option_loop.simps) (auto simp: rd_def nth_append unat_length_byte Let_def word_uint_eq_iff[symmetric] add_ac split: option.split)
qed


text \<open>The arrays of the structure in memory.\<close>

lemma length_word_bytes [simp]: "length (u16_bytes le w) = 2" "length (u32_bytes le v) = 4"
  by (simp_all add: u16_bytes_def u32_bytes_def Let_def)

lemma length_packet_bytes: "packet_wf p \<Longrightarrow> length (packet_bytes le p) = 628"
  by (simp add: packet_wf_def packet_bytes_def)

lemma packet_bytes_options:
  assumes "packet_wf p"
  obtains pre where "packet_bytes le p = pre @ pkt_options p" "length pre = 240"
proof
  show "packet_bytes le p = take 240 (packet_bytes le p) @ pkt_options p"
    using assms by (simp add: packet_wf_def packet_bytes_def take_Cons')
  show "length (take 240 (packet_bytes le p)) = 240" using assms by (simp add: length_packet_bytes)
qed

lemma opt_pos_data:
  assumes "opts_wf opts" "opt_pos opts code = Some k"
  shows "2 \<le> k \<and> (\<exists>d. map_of opts code = Some d \<and> take (length d) (drop k (encode_opts opts)) = d \<and>
    unat (encode_opts opts ! (k - 1)) = length d \<and> k + length d \<le> length (encode_opts opts))"
  using assms
proof (induction opts arbitrary: k)
  case (Cons x opts)
  obtain c d where x: "x = (c, d)" by fastforce
  show ?case
  proof (cases "c = code")
    case True
    then show ?thesis using Cons.prems x by (simp add: unat_length_byte)
  next
    case False
    then obtain k' where k': "opt_pos opts code = Some k'" "k = 2 + length d + k'" using Cons.prems x by auto
    have w: "opts_wf opts" using Cons.prems x by simp
    from Cons.IH[OF w k'(1)] obtain d' where d':
      "2 \<le> k'" "map_of opts code = Some d'" "take (length d') (drop k' (encode_opts opts)) = d'"
      "unat (encode_opts opts ! (k' - 1)) = length d'" "k' + length d' \<le> length (encode_opts opts)"
      by blast
    obtain j where j: "k' = Suc j" using d'(1) by (cases k') auto
    have "encode_opts (x # opts) ! (k - 1) = encode_opts opts ! (k' - 1)"
      using x k'(2) j by (simp add: nth_append)
    then show ?thesis using d' k'(2) x False by simp
  qed
qed simp

lemma opt_pos_None: "opt_pos opts code = None \<longleftrightarrow> map_of opts code = None"
  by (induction opts) auto

lemma packet_opts_split:
  assumes "packet_opts p opts"
  obtains rest where "pkt_options p = encode_opts opts @ DHCP_END # rest"
    "length (encode_opts opts) + 1 + length rest = 388"
proof -
  define rest where "rest = drop (length (encode_opts opts) + 1) (pkt_options p)"
  have "take (length (encode_opts opts) + 1) (pkt_options p) = encode_opts opts @ [DHCP_END]"
    using assms unfolding packet_opts_def by blast
  then have "pkt_options p = (encode_opts opts @ [DHCP_END]) @ rest"
    using append_take_drop_id unfolding rest_def by metis
  moreover from this have "length (encode_opts opts) + 1 + length rest = 388"
    using assms by (simp add: packet_opts_def packet_wf_def)
  ultimately show ?thesis using that by simp
qed

lemma option_data_packet_opts:
  assumes "packet_opts p opts" "length (encode_opts opts) < 388" "240 + length (encode_opts opts) < unat packet_len"
  shows "dhcp_get_option le p packet_len (uint code) =
      Some (case opt_pos opts code of None \<Rightarrow> Opt_none | Some k \<Rightarrow> Opt_at (240 + k))"
    and "option_data le p packet_len code = map_of opts code"
proof -
  obtain pre where pre: "packet_bytes le p = pre @ pkt_options p" "length pre = 240"
    using assms(1) packet_bytes_options unfolding packet_opts_def by blast
  obtain rest where opts: "pkt_options p = encode_opts opts @ DHCP_END # rest"
    by (rule packet_opts_split[OF assms(1)])
  have wf: "opts_wf opts" using assms(1) by (simp add: packet_opts_def)
  show get: "dhcp_get_option le p packet_len (uint code) =
      Some (case opt_pos opts code of None \<Rightarrow> Opt_none | Some k \<Rightarrow> Opt_at (240 + k))"
    unfolding dhcp_get_option_def
  proof (rule dhcp_get_option_loop_encoded[OF wf])
    show "int (length pre + length (encode_opts opts)) \<le> int (unat packet_len) - 1"
      using assms(3) pre(2) by linarith
  qed (use pre opts assms(2) in simp_all)
  show "option_data le p packet_len code = map_of opts code"
  proof (cases "opt_pos opts code")
    case None
    then show ?thesis using get opt_pos_None[of opts code] by (simp add: option_data_def)
  next
    case (Some k)
    from opt_pos_data[OF wf Some] obtain d where d: "2 \<le> k" "map_of opts code = Some d"
      "take (length d) (drop k (encode_opts opts)) = d"
      "unat (encode_opts opts ! (k - 1)) = length d" "k + length d \<le> length (encode_opts opts)" by blast
    obtain j where j: "k = Suc j" "j < length (encode_opts opts)" using d(1,5) by (cases k) auto
    have "packet_bytes le p ! (240 + k - 1) = encode_opts opts ! (k - 1)"
      using j pre opts by (simp add: nth_append)
    then show ?thesis
      using d get Some pre opts by (simp add: option_data_def)
  qed
qed


text \<open>Appending an option.\<close>

lemma dhcp_end_option_loop_encoded:
  assumes "opts_wf opts" "mem = pre @ encode_opts opts @ DHCP_END # rest" "i = length pre"
  shows "dhcp_end_option_loop mem i = Some (length pre + length (encode_opts opts))"
  using assms
proof (induction opts arbitrary: pre i)
  case Nil
  then show ?case by (subst dhcp_end_option_loop.simps) (simp add: rd_def nth_append)
next
  case (Cons x opts)
  obtain c d where x: "x = (c, d)" by fastforce
  let ?pre = "pre @ [c, word_of_nat (length d)] @ d"
  have "dhcp_end_option_loop mem (i + length d + 2) = Some (length ?pre + length (encode_opts opts))"
    by (rule Cons.IH[of ?pre]) (use Cons.prems x in simp_all)
  then show ?case
    using Cons.prems x by (subst dhcp_end_option_loop.simps) (simp add: rd_def nth_append unat_length_byte)
qed

lemma dhcp_add_binary_option_opts:
  assumes "packet_opts p opts" "length (encode_opts opts) + length d + 3 < 308"
    and "opts_wf [(c, d)]"
  shows "\<exists>q. dhcp_add_binary_option p ([c, word_of_nat (length d)] @ d) = Some q \<and>
    packet_opts q (opts @ [(c, d)]) \<and> q\<lparr>pkt_options := pkt_options p\<rparr> = p"
proof -
  obtain rest where rest: "pkt_options p = encode_opts opts @ DHCP_END # rest"
    "length (encode_opts opts) + 1 + length rest = 388"
    by (rule packet_opts_split[OF assms(1)])
  have wf: "opts_wf opts" "packet_wf p" using assms(1) by (auto simp: packet_opts_def)
  have e: "dhcp_end_option (pkt_options p) = Some (length (encode_opts opts))"
    unfolding dhcp_end_option_def
    using dhcp_end_option_loop_encoded[OF wf(1), of "pkt_options p" "[]" rest 0] rest by simp
  let ?o = "encode_opts (opts @ [(c, d)])"
  let ?os = "(memcpy (length (encode_opts opts)) ([c, word_of_nat (length d)] @ d) (pkt_options p))
     [length (encode_opts opts) + (2 + length d) := DHCP_END]"
  have "drop (Suc (length d)) rest = rest ! Suc (length d) # drop (Suc (Suc (length d))) rest"
    by (rule Cons_nth_drop_Suc[symmetric]) (use rest(2) assms(2) in simp)
  then have os: "?os = ?o @ DHCP_END # drop (Suc (Suc (length d))) rest"
    using rest assms(2) by (simp add: memcpy_def list_update_append)
  show ?thesis
    using e assms(2,3) wf os rest(2)
    by (simp add: dhcp_add_binary_option_def Let_def unat_length_byte packet_opts_def packet_wf_def numeral_3_eq_3)
qed


text \<open>
  The walk restarts at \<open>packet->file\<close> at an end mark while the overload bit is set, and an
  overload option found there sets the bit again.
\<close>

lemma dhcp_get_option_loop_overload_diverges:
  assumes mem: "rd mem 108 = Some DHCP_OPTION_OVERLOAD" "rd mem 109 = Some 1" "rd mem 110 = Some 1"
      "rd mem 111 = Some DHCP_END"
    and e: "111 \<le> e" and code: "code \<noteq> uint DHCP_OPTION_OVERLOAD"
  shows "dhcp_get_option_loop mem e code 128 108 0 = None"
proof (rule ccontr)
  assume "dhcp_get_option_loop mem e code 128 108 0 \<noteq> None"
  then obtain r where r: "dhcp_get_option_loop mem e code 128 108 0 = Some r" by auto
  have "\<not> (mem = mem \<and> e = e \<and> code = code \<and>
      ((0::u8) = 0 \<and> (128::int) = 128 \<and> (108::nat) = 108 \<or> (0::u8) = 1 \<and> (128::int) = 125 \<and> (108::nat) = 111))"
  proof (rule dhcp_get_option_loop.raw_induct[where P = "\<lambda>m e' c rem p ov r. \<not> (m = mem \<and> e' = e \<and> c = code \<and>
      (ov = 0 \<and> rem = 128 \<and> p = 108 \<or> ov = 1 \<and> rem = 125 \<and> p = 111))", OF _ r], goal_cases)
    case (1 f m e' c rem p ov r)
    show ?case
      using 1(2) 1(1)[of mem e code 125 111 1 r] 1(1)[of mem e code 128 108 0 r] mem e code
      by (auto simp: Let_def)
  qed
  then show False by simp
qed

lemma dhcp_get_option_loop_short_undef:
  assumes mem: "rd mem p = Some c" "rd mem (p + 1) = Some l" and c: "c \<noteq> DHCP_PADDING" "c \<noteq> DHCP_END"
    and e: "int p + 1 \<le> e" and rem: "rem < int (2 + unat l)"
  shows "dhcp_get_option_loop mem e code rem p ov = Some Opt_undef"
  using rem
proof (induction "nat (rem + 2 ^ 31)" arbitrary: rem rule: less_induct)
  case less
  have "dhcp_get_option_loop mem e code (rem - int (2 + unat l)) p ov = Some Opt_undef"
    if "\<not> rem - int (2 + unat l) < INT_MIN"
    by (rule less(1)) (use that less(2) in linarith)+
  then show ?case
    using mem c e less(2)
    by (subst dhcp_get_option_loop.simps) (simp add: Let_def)
qed

section \<open>Byte order\<close>

lemma u16_split: "ucast (ucast w :: u8) OR push_bit 8 (ucast (ucast (drop_bit 8 w) :: u8)) = (w :: u16)"
  by (rule bit_word_eqI) (auto simp: bit_simps)

lemma u32_split: "ucast (ucast w :: u8) OR push_bit 8 (ucast (ucast (drop_bit 8 w) :: u8)) OR
    push_bit 16 (ucast (ucast (drop_bit 16 w) :: u8)) OR push_bit 24 (ucast (ucast (drop_bit 24 w) :: u8)) = (w :: u32)"
proof (rule bit_word_eqI)
  fix n assume "n < LENGTH(32)"
  then consider "n < 8" | "8 \<le> n" "n < 16" | "16 \<le> n" "n < 24" | "24 \<le> n" "n < 32" by fastforce
  then show "bit (ucast (ucast w :: u8) OR push_bit 8 (ucast (ucast (drop_bit 8 w) :: u8)) OR
    push_bit 16 (ucast (ucast (drop_bit 16 w) :: u8)) OR push_bit 24 (ucast (ucast (drop_bit 24 w) :: u8)) :: u32) n = bit w n"
    by cases (auto simp: bit_simps)
qed

lemma bswap_16_bytes:
  "ucast (bswap_16 w) = (ucast (drop_bit 8 w) :: u8)" "ucast (drop_bit 8 (bswap_16 w)) = (ucast w :: u8)"
proof -
  have m: "(0xff :: u16) = mask 8" by (simp add: mask_eq_exp_minus_1)
  show "ucast (bswap_16 w) = (ucast (drop_bit 8 w) :: u8)" "ucast (drop_bit 8 (bswap_16 w)) = (ucast w :: u8)"
    by (rule bit_word_eqI; auto simp: bswap_16_def m bit_simps)+
qed

lemma bswap_32_bytes:
  "ucast (bswap_32 w) = (ucast (drop_bit 24 w) :: u8)" "ucast (drop_bit 8 (bswap_32 w)) = (ucast (drop_bit 16 w) :: u8)"
  "ucast (drop_bit 16 (bswap_32 w)) = (ucast (drop_bit 8 w) :: u8)" "ucast (drop_bit 24 (bswap_32 w)) = (ucast w :: u8)"
  by (rule bit_word_eqI; auto simp: bswap_32_def u32_masks bit_simps)+

lemma get_u16_bytes [simp]: "get_unaligned_16 le (u16_bytes le w @ xs) = w"
  by (simp add: get_unaligned_16_def u16_bytes_def Let_def u16_split)

lemma get_u32_bytes [simp]: "get_unaligned_32 le (u32_bytes le w @ xs) = w"
  by (simp add: get_unaligned_32_def u32_bytes_def Let_def u32_split)

lemma u32_bytes_inj: "u32_bytes le v = u32_bytes le w \<longleftrightarrow> v = w"
  using get_u32_bytes[of le v "[]"] get_u32_bytes[of le w "[]"] by metis

lemma bswap_32_twice [simp]: "bswap_32 (bswap_32 w) = w"
  by (subst u32_bytes_inj[of True, symmetric]) (simp add: u32_bytes_def bswap_32_bytes)

lemma bswap_32_eq_iff [simp]: "bswap_32 v = bswap_32 w \<longleftrightarrow> v = w"
  by (metis bswap_32_twice)

lemma bswap_32_0 [simp]: "bswap_32 0 = 0" "bswap_32 w = 0 \<longleftrightarrow> w = 0"
proof -
  show "bswap_32 0 = 0" by (simp add: bswap_32_def)
  then show "bswap_32 w = 0 \<longleftrightarrow> w = 0" by (metis bswap_32_twice)
qed

lemma ntohl_htonl [simp]: "ntohl le (htonl le w) = w" "htonl le (ntohl le w) = w"
  by (simp_all add: ntohl_def htonl_def)

lemma htonl_eq_iff [simp]: "htonl le v = htonl le w \<longleftrightarrow> v = w" "htonl le w = 0 \<longleftrightarrow> w = 0" "htonl le 0 = 0"
  by (simp_all add: htonl_def)

text \<open>Big-endian bytes do not depend on the host.\<close>

lemma put_be32_bytes: "put_be32 le v = u32_bytes False v"
  by (simp add: put_be32_def u32_bytes_def Let_def bswap_32_bytes)

lemma get_be32_put_be32 [simp]: "get_be32 le (put_be32 le v @ xs) = v"
  by (simp add: get_be32_def put_be32_def)

lemma packet_of_packet_bytes:
  assumes "packet_wf p"
  shows "packet_of_bytes le (packet_bytes le p) = p"
  using assms by (cases p) (simp add: packet_of_bytes_def packet_bytes_def packet_wf_def drop_Cons' nth_append)

section \<open>The checksum\<close>

text \<open>The sum and the checksum on unbounded numbers, which the code computes as long as its sum does not overflow.\<close>

fun word_sum :: "bool \<Rightarrow> u8 list \<Rightarrow> nat \<Rightarrow> nat" where
  "word_sum le (b # b' # bs) sm = word_sum le bs (sm + unat (get_unaligned_16 le [b, b']))"
| "word_sum le [b] sm = sm + unat (get_unaligned_16 le [b, 0])"
| "word_sum le [] sm = sm"

definition internet_checksum :: "bool \<Rightarrow> u8 list \<Rightarrow> u16" where
  "internet_checksum le mem = NOT (word_of_nat (checksum_fold (word_sum le mem 0)))"

lemma word_sum_plus: "word_sum le bs (m + n) = m + word_sum le bs n"
  by (induction le bs n arbitrary: m rule: word_sum.induct) (simp_all add: add.assoc)

lemma word_sum_add: "word_sum le bs n = n + word_sum le bs 0"
  using word_sum_plus[of le bs n 0] by simp

lemma word_sum_append:
  "even (length xs) \<Longrightarrow> word_sum le (xs @ ys) n = word_sum le xs n + word_sum le ys 0"
  by (induction le xs n rule: word_sum.induct) (simp_all, metis word_sum_add)

lemma checksum_fold_range: "checksum_fold s < 65536 \<and> (checksum_fold s = 0 \<longleftrightarrow> s = 0) \<and>
    checksum_fold s mod 65535 = s mod 65535"
proof (induction s rule: checksum_fold.induct)
  case (1 s)
  show ?case
  proof (cases "s div 2 ^ 16 = 0")
    case True
    then show ?thesis by (subst (1 2 3) checksum_fold.simps) (simp add: div_eq_0_iff)
  next
    case False
    have "(s mod 2 ^ 16 + s div 2 ^ 16) mod 65535 = s mod 65535"
    proof -
      have "s mod 65535 = (s mod 65536 + s div 65536 + 65535 * (s div 65536)) mod 65535"
        using div_mult_mod_eq[of s 65536] by (intro arg_cong[of _ _ "\<lambda>x. x mod 65535"]) linarith
      also have "\<dots> = (s mod 65536 + s div 65536) mod 65535" by (rule mod_mult_self2)
      finally show ?thesis by simp
    qed
    then show ?thesis
      using 1[OF False] False by (subst (1 2 3) checksum_fold.simps) auto
  qed
qed


lemma unat_not_u16: "unat (NOT w) = 65535 - unat (w :: u16)"
proof -
  have "NOT w = - 1 - w" by (simp add: not_eq_complement)
  then have "unat (NOT w) = unat (- 1 :: u16) - unat w" by (simp only: unat_sub[OF word_n1_ge])
  then show ?thesis by (simp add: unsigned_minus_1_eq_mask mask_eq_exp_minus_1)
qed

lemma unat_internet_checksum: "unat (internet_checksum le bs) = 65535 - checksum_fold (word_sum le bs 0)"
  using checksum_fold_range[of "word_sum le bs 0"]
  by (simp add: internet_checksum_def unat_not_u16 unat_of_nat)

lemma unat_u16_le: "unat (w :: u16) \<le> 65535"
proof -
  have "unat w < 2 ^ LENGTH(16)" by (rule unsigned_less)
  then show ?thesis by simp
qed

lemma word_sum_bound: "word_sum le bs n \<le> n + 65535 * ((length bs + 1) div 2)"
proof (induction le bs n rule: word_sum.induct)
  case (1 le b b' bs sm)
  have "unat (get_unaligned_16 le [b, b']) \<le> 65535" by (rule unat_u16_le)
  with 1 show ?case by simp
next
  case (2 le b sm)
  have "unat (get_unaligned_16 le [b, 0]) \<le> 65535" by (rule unat_u16_le)
  then show ?case by simp
qed simp

lemma checksum_loop_sum: "word_sum le bs n < 2 ^ 31 \<Longrightarrow> checksum_loop le bs n = Some (word_sum le bs n)"
proof (induction le bs n rule: checksum_loop.induct)
  case (1 le b b' bs sm)
  have "sm + unat (get_unaligned_16 le [b, b']) < 2 ^ 31"
    using "1.prems" word_sum_add[of le bs "sm + unat (get_unaligned_16 le [b, b'])"] by simp
  then show ?case using 1 by (simp add: int32_add_def)
qed (simp_all add: int32_add_def)

text \<open>Up to 65536 bytes the sum does not overflow.\<close>

lemma dhcp_checksum_defined: "length bs \<le> 65536 \<Longrightarrow> dhcp_checksum le bs = Some (internet_checksum le bs)"
proof -
  assume "length bs \<le> 65536"
  then have "(length bs + 1) div 2 \<le> 32768" by simp
  then have "word_sum le bs 0 < 2 ^ 31" using word_sum_bound[of le bs 0] by simp
  then show ?thesis by (simp add: dhcp_checksum_def internet_checksum_def checksum_loop_sum)
qed

lemma internet_checksum_zero:
  "internet_checksum le bs = 0 \<longleftrightarrow> 0 < word_sum le bs 0 \<and> word_sum le bs 0 mod 65535 = 0"
proof -
  let ?s = "word_sum le bs 0"
  have "internet_checksum le bs = 0 \<longleftrightarrow> checksum_fold ?s = 65535"
    using checksum_fold_range[of ?s] unat_internet_checksum[of le bs] by (auto simp: unat_eq_0)
  then show ?thesis using checksum_fold_range[of ?s] by (cases "checksum_fold ?s = 65535") auto
qed


lemma word_sum_pair: "word_sum le (u16_bytes le w) 0 = unat w" "word_sum le [0, 0] 0 = 0"
  using get_u16_bytes[of le w "[]"] get_u16_bytes[of le 0 "[]"] 
  by (cases le; simp add: u16_bytes_def Let_def)+

lemma internet_checksum_verifies:
  assumes "even (length xs)"
  shows "internet_checksum le (xs @ u16_bytes le (internet_checksum le (xs @ [0, 0] @ ys)) @ ys) = 0"
proof -
  let ?c = "internet_checksum le (xs @ [0, 0] @ ys)"
  let ?s = "word_sum le xs 0 + word_sum le ys 0"
  have s: "word_sum le (xs @ [0, 0] @ ys) 0 = ?s"
    using assms word_sum_pair(2)[of le] by (simp add: word_sum_append[of "[0, 0]" le ys, simplified] word_sum_append)
  have "word_sum le (xs @ u16_bytes le ?c @ ys) 0 = ?s + unat ?c"
    using assms by (simp add: word_sum_append word_sum_pair)
  moreover have "unat ?c = 65535 - checksum_fold ?s" by (simp only: unat_internet_checksum s)
  moreover have "(?s + (65535 - checksum_fold ?s)) mod 65535 = 0 \<and> 0 < ?s + (65535 - checksum_fold ?s)"
  proof -
    let ?f = "checksum_fold ?s"
    have f: "?f \<le> 65535" "?f mod 65535 = ?s mod 65535" "?f = 0 \<longleftrightarrow> ?s = 0"
      using checksum_fold_range[of ?s] by auto
    have "(?s + (65535 - ?f)) mod 65535 = (?f + (65535 - ?f)) mod 65535" by (metis f(2) mod_add_left_eq)
    then show ?thesis using f by auto
  qed
  ultimately show ?thesis by (simp add: internet_checksum_zero)
qed

lemma get_unaligned_16_pair:
  "unat (get_unaligned_16 True [b, b']) = unat b + 256 * unat b'"
  "unat (get_unaligned_16 False [b, b']) = 256 * unat b + unat b'"
proof -
  have or: "unat (ucast x OR push_bit 8 (ucast y) :: u16) = unat x + 256 * unat y" for x y :: u8
  proof -
    have "unat x < 2 ^ LENGTH(8)" "unat y < 2 ^ LENGTH(8)" by (rule unsigned_less)+
    moreover have "ucast x OR push_bit 8 (ucast y) = (ucast x + push_bit 8 (ucast y) :: u16)"
      by (rule or_disjoint_add) (auto simp: bit_simps dest: bit_imp_le_length)
    ultimately show ?thesis
      by (simp add: unat_word_ariths unat_push_bit unsigned_ucast_eq take_bit_nat_eq_self)
  qed
  show "unat (get_unaligned_16 True [b, b']) = unat b + 256 * unat b'"
    "unat (get_unaligned_16 False [b, b']) = 256 * unat b + unat b'"
    by (simp_all add: get_unaligned_16_def or)
qed

lemma swap_mod: "(256 * a + b) mod 65535 = 256 * (a + 256 * b) mod 65535" for a b :: nat
proof -
  have "256 * (a + 256 * b) = 256 * a + b + 65535 * b" by simp
  then show ?thesis by (simp only: mod_mult_self2)
qed

lemma word_sum_Cons2:
  "word_sum le (b # b' # bs) 0 = unat (get_unaligned_16 le [b, b']) + word_sum le bs 0"
  by (simp, rule word_sum_add)

lemma word_sum_swap:
  "word_sum False bs 0 mod 65535 = 256 * word_sum True bs 0 mod 65535 \<and>
   (word_sum False bs 0 = 0 \<longleftrightarrow> word_sum True bs 0 = 0)"
proof (induction bs rule: induct_list012)
  case (2 b)
  show ?case using get_unaligned_16_pair[of b 0] by simp
next
  case (3 b b' bs)
  let ?f = "word_sum False bs 0" and ?t = "word_sum True bs 0"
  have l: "word_sum False (b # b' # bs) 0 = (256 * unat b + unat b') + ?f"
    "word_sum True (b # b' # bs) 0 = (unat b + 256 * unat b') + ?t"
    by (simp_all only: word_sum_Cons2 get_unaligned_16_pair)
  have "((256 * unat b + unat b') + ?f) mod 65535 = (256 * (unat b + 256 * unat b') + 256 * ?t) mod 65535"
    by (rule mod_add_cong[OF swap_mod 3(1)[THEN conjunct1]])
  then show ?case using 3(1) unfolding l by (simp add: distrib_left)
qed simp

lemma checksum_fold_swap:
  "checksum_fold (word_sum False bs 0) =
     256 * (checksum_fold (word_sum True bs 0) mod 256) + checksum_fold (word_sum True bs 0) div 256"
proof -
  let ?f = "checksum_fold (word_sum False bs 0)" and ?t = "checksum_fold (word_sum True bs 0)"
  let ?r = "256 * (?t mod 256) + ?t div 256"
  have t: "?t < 65536" "?t mod 65535 = word_sum True bs 0 mod 65535" "?t = 0 \<longleftrightarrow> word_sum True bs 0 = 0"
    and f: "?f < 65536" "?f mod 65535 = word_sum False bs 0 mod 65535" "?f = 0 \<longleftrightarrow> word_sum False bs 0 = 0"
    using checksum_fold_range by blast+
  have "?f mod 65535 = 256 * ?t mod 65535"
    using t(2) f(2) word_sum_swap[of bs] by (metis mod_mult_right_eq)
  also have "\<dots> = 256 * (?t mod 256 + 256 * (?t div 256)) mod 65535"
    by (simp only: mod_mult_div_eq)
  also have "\<dots> = ?r mod 65535" by (rule swap_mod[symmetric])
  finally have "?f mod 65535 = ?r mod 65535" .
  moreover have "?r = 0 \<longleftrightarrow> ?t = 0" by (metis add_is_0 div_mult_mod_eq mult_eq_0_iff zero_neq_numeral div_0 mod_0 mult_0_right)
  then have "?f = 0 \<longleftrightarrow> ?r = 0" using f(3) t(3) word_sum_swap[of bs] by simp
  moreover have "?t div 256 < 256" "?t mod 256 < 256" using t(1) by (simp_all add: less_mult_imp_div_less)
  then have "?r < 65536" by linarith
  ultimately show ?thesis using f(1)
    by (cases "?f = 65535"; cases "?r = 65535") (simp_all add: mod_less)
qed

section \<open>The interface of an area of options\<close>

text \<open>
  What the code that builds a reply relies on: a packet that holds some options returns
  the first with a code, and an option added, as long as there is room, is appended.
\<close>

locale option_area =
  fixes holds :: "'p \<Rightarrow> (u8 \<times> u8 list) list \<Rightarrow> bool"
    and lookup :: "'p \<Rightarrow> u8 \<Rightarrow> u8 list option"
    and add :: "'p \<Rightarrow> u8 \<Rightarrow> u8 list \<Rightarrow> 'p option"
    and room :: nat
  assumes lookup_holds: "holds p opts \<Longrightarrow> length (encode_opts opts) < room \<Longrightarrow> lookup p c = map_of opts c"
    and add_holds: "holds p opts \<Longrightarrow> opts_wf [(c, d)] \<Longrightarrow> length (encode_opts opts) + length d + 3 < room \<Longrightarrow>
      \<exists>q. add p c d = Some q \<and> holds q (opts @ [(c, d)])"
begin

lemma lookup_add:
  assumes "holds p opts" "opts_wf [(c, d)]" "length (encode_opts opts) + length d + 3 < room"
    and "map_of opts c = None"
  shows "\<exists>q. add p c d = Some q \<and> lookup q = (lookup p)(c \<mapsto> d)"
proof -
  obtain q where q: "add p c d = Some q" "holds q (opts @ [(c, d)])" using add_holds[OF assms(1-3)] by blast
  have "lookup q c' = ((lookup p)(c \<mapsto> d)) c'" for c'
    using lookup_holds[OF q(2), of c'] lookup_holds[OF assms(1), of c'] assms(3,4)
    by (simp add: map_add_def split: option.split)
  then show ?thesis using q(1) by blast
qed

lemma lookup_keeps:
  assumes "holds p opts" "opts_wf [(c, d)]" "length (encode_opts opts) + length d + 3 < room"
    and "map_of opts c' = Some d'"
  shows "\<exists>q. add p c d = Some q \<and> lookup q c' = Some d'"
proof -
  obtain q where q: "add p c d = Some q" "holds q (opts @ [(c, d)])" using add_holds[OF assms(1-3)] by blast
  then show ?thesis using lookup_holds[OF q(2), of c'] assms(3,4) by (simp add: map_add_def)
qed

end

interpretation packet_area: option_area packet_opts "\<lambda>p. option_data le p 548"
  "\<lambda>p c d. dhcp_add_binary_option p ([c, word_of_nat (length d)] @ d)" 308 for le
proof
  fix p opts c
  assume "packet_opts p opts" "length (encode_opts opts) < 308"
  then show "option_data le p 548 c = map_of opts c"
    using option_data_packet_opts(2)[of p opts 548 le c] by simp
next
  fix p opts c d
  assume "packet_opts p opts" "opts_wf [(c, d)]" "length (encode_opts opts) + length d + 3 < 308"
  then show "\<exists>q. dhcp_add_binary_option p ([c, word_of_nat (length d)] @ d) = Some q \<and> packet_opts q (opts @ [(c, d)])"
    using dhcp_add_binary_option_opts by blast
qed

section \<open>DHCPv6 options\<close>

lemma u16_plus_4: "\<not> l + 4 < (4 :: u16) \<Longrightarrow> uint (l + 4) = uint l + 4"
proof -
  assume ge: "\<not> l + 4 < (4 :: u16)"
  have "uint l < 2 ^ LENGTH(16)" by (rule unsigned_less)
  then have l: "uint l < 65536" by simp
  have e: "uint (l + 4) = (uint l + 4) mod 65536" by (simp add: uint_word_ariths)
  show ?thesis
  proof (cases "uint l + 4 < 65536")
    case True
    then show ?thesis unfolding e by (simp add: mod_pos_pos_trivial)
  next
    case False
    then have "(uint l + 4) mod 65536 = uint l + 4 - 65536" 
      using l minus_mod_self2[of "uint l + 4" 65536] mod_pos_pos_trivial[of "uint l + 4 - 65536" 65536] by linarith
    then show ?thesis using ge l unfolding word_less_def e by simp
  qed
qed

lemma dhcpv6_get_option_loop_inside:
  assumes "dhcpv6_get_option_loop mem code rem p r = Some r'"
    and "int p + rem \<le> R" "found_inside R r"
  shows "found_inside R r'"
  using assms
proof (induction mem code rem p r rule: dhcpv6_get_option_loop.induct)
  case (1 mem code rem p found olen n)
  note unfold = "1.prems"(1)[unfolded dhcpv6_get_option_loop.simps[of mem code rem p]]
  obtain oc ol where o: "be16_at mem p = Some oc" "be16_at mem (p + 2) = Some ol"
    using unfold by (auto split: option.splits)
  let ?len = "ol + 4" and ?r = "if oc = code then (Some (p + 4), Some ol, n + 1) else (found, olen, n)"
  show ?case
  proof (cases "?len < 4 \<or> rem - uint ?len < 0")
    case True
    then show ?thesis
      using unfold o "1.prems"(3) by (auto simp: Let_def found_inside_def split: if_splits)
  next
    case False
    then have len: "uint ?len = uint ol + 4" by (simp add: u16_plus_4)
    then have r: "found_inside R ?r"
      using False "1.prems"(2,3) by (simp add: found_inside_def)
    show ?thesis
    proof (cases "rem - uint ?len = 0")
      case True
      then show ?thesis using unfold o False r by (simp add: Let_def)
    next
      case ne: False
      have "dhcpv6_get_option_loop mem code (rem - uint ?len) (p + unat ?len) ?r = Some r'"
        using unfold o False ne by (simp add: Let_def)
      from "1.IH"[OF _ o(1) o(2) refl refl refl _ _ ne this] show ?thesis
        using False r "1.prems"(2) by simp
    qed
  qed
qed

section \<open>Headers and typed options\<close>

lemma check_option_codes:
  "check_option DHCP_MESSAGE_TYPE 1 = (OPTION_U8, False)" "check_option DHCP_SERVER_ID 4 = (OPTION_U32, False)"
  "check_option DHCP_LEASE_TIME 4 = (OPTION_U32, False)" "check_option DHCP_SUBNET 4 = (OPTION_IP, False)"
  "check_option DHCP_ROUTER 4 = (OPTION_IP, True)" "check_option DHCP_DNS_SERVER 4 = (OPTION_IP, True)"
  by (simp_all add: check_option_def dhcp_get_code_type_def client_options_def)

lemma dhcp_add_option_uint32_opts:
  assumes "packet_opts p opts" "length (encode_opts opts) + 7 < 308" "check_option c 4 \<noteq> (OPTION_UNKNOWN, False)"
    and "c \<noteq> DHCP_PADDING" "c \<noteq> DHCP_END" "c \<noteq> DHCP_OPTION_OVERLOAD"
  shows "\<exists>q. dhcp_add_option_uint32 le p c v = Some q \<and> packet_opts q (opts @ [(c, put_be32 le v)]) \<and>
    q\<lparr>pkt_options := pkt_options p\<rparr> = p"
  using dhcp_add_binary_option_opts[OF assms(1), of "put_be32 le v" c] assms
  by (simp add: dhcp_add_option_uint32_def put_be32_def)

lemma dhcp_init_header_opts:
  "\<exists>p. dhcp_init_header le type = Some p \<and> packet_opts p [(DHCP_MESSAGE_TYPE, [type])] \<and>
     pkt_op p = (if type \<in> {DHCPOFFER, DHCPACK, DHCPNAK} then BOOTREPLY else BOOTREQUEST) \<and> pkt_hlen p = 6 \<and>
     pkt_cookie p = htonl le DHCP_MAGIC \<and> pkt_ciaddr p = 0 \<and> pkt_yiaddr p = 0"
proof -
  let ?p = "packet_zero\<lparr>pkt_op := (if type \<in> {DHCPOFFER, DHCPACK, DHCPNAK} then BOOTREPLY else BOOTREQUEST),
          pkt_htype := 1, pkt_hlen := 6, pkt_cookie := htonl le DHCP_MAGIC,
          pkt_options := (pkt_options packet_zero)[0 := DHCP_END]\<rparr>"
  have "replicate 388 (0 :: u8) = 0 # replicate 387 0" using replicate_Suc[of 387 "0 :: u8"] by simp
  then have "packet_opts ?p []"
    by (simp add: packet_opts_def packet_wf_def packet_zero_def)
  from dhcp_add_binary_option_opts[OF this, of "[type]" DHCP_MESSAGE_TYPE] obtain q where
    q: "dhcp_add_binary_option ?p ([DHCP_MESSAGE_TYPE, 1] @ [type]) = Some q" "packet_opts q [(DHCP_MESSAGE_TYPE, [type])]"
      "q\<lparr>pkt_options := pkt_options ?p\<rparr> = ?p" by auto
  have f: "f q = f ?p" if "\<And>r. f (r\<lparr>pkt_options := pkt_options ?p\<rparr>) = f r" for f :: "dhcp_packet \<Rightarrow> 'a"
    using q(3) that by metis
  have "dhcp_init_header le type = Some q"
    using q(1) check_option_codes(1) by (simp add: dhcp_init_header_def dhcp_add_option_uint8_def)
  moreover have "pkt_op q = (if type \<in> {DHCPOFFER, DHCPACK, DHCPNAK} then BOOTREPLY else BOOTREQUEST)"
    "pkt_hlen q = 6" "pkt_cookie q = htonl le DHCP_MAGIC" "pkt_ciaddr q = 0" "pkt_yiaddr q = 0"
    using f[of pkt_op] f[of pkt_hlen] f[of pkt_cookie] f[of pkt_ciaddr] f[of pkt_yiaddr]
    by (simp_all add: packet_zero_def)
  ultimately show ?thesis using q(2) by blast
qed

text \<open>Options with another code are passed over.\<close>

lemma dhcp_get_option_loop_skip:
  assumes "opts_wf opts" "map_of opts code = None" and "mem = pre @ encode_opts opts @ rest" and "p = length pre"
    and "int (length (encode_opts opts)) \<le> rem" "int (length pre + length (encode_opts opts)) \<le> e"
  shows "dhcp_get_option_loop mem e (uint code) rem p 0 =
    dhcp_get_option_loop mem e (uint code) (rem - int (length (encode_opts opts))) (p + length (encode_opts opts)) 0"
  using assms
proof (induction opts arbitrary: pre p rem)
  case (Cons x opts)
  obtain c d where x: "x = (c, d)" by fastforce
  let ?pre = "pre @ [c, word_of_nat (length d)] @ d"
  have m: "map_of opts code = None" "c \<noteq> code" using Cons.prems(2) x by (auto split: if_splits)
  have IH: "dhcp_get_option_loop mem e (uint code) (rem - int (2 + length d)) (p + (2 + length d)) 0 =
      dhcp_get_option_loop mem e (uint code) (rem - int (2 + length d) - int (length (encode_opts opts)))
        (p + (2 + length d) + length (encode_opts opts)) 0"
    by (rule Cons.IH[of ?pre]) (use Cons.prems x m in simp_all)
  have "dhcp_get_option_loop mem e (uint code) rem p 0 =
      dhcp_get_option_loop mem e (uint code) (rem - int (2 + length d)) (p + (2 + length d)) 0"
    using Cons.prems x m(2)
    by (subst dhcp_get_option_loop.simps)
      (simp add: rd_def nth_append unat_length_byte Let_def word_uint_eq_iff[symmetric])
  also note IH
  finally show ?case using x by (simp add: algebra_simps)
qed simp

section \<open>Properties\<close>

lemma internet_checksum_swap: "u16_bytes True (internet_checksum True bs) = u16_bytes False (internet_checksum False bs)"
proof -
  let ?t = "checksum_fold (word_sum True bs 0)" and ?f = "checksum_fold (word_sum False bs 0)"
  have t: "?t < 65536" using checksum_fold_range by blast
  then have tf: "?t mod 256 < 256" "?t div 256 < 256" "?t = 256 * (?t div 256) + ?t mod 256"
    by (simp_all add: less_mult_imp_div_less)
  have f: "?f = 256 * (?t mod 256) + ?t div 256" by (rule checksum_fold_swap)
  define l h where "l = 255 - ?t mod 256" and "h = 255 - ?t div 256"
  have lh: "l < 256" "h < 256" by (simp_all add: l_def h_def)
  have c: "unat (internet_checksum True bs) = h * 256 + l" "unat (internet_checksum False bs) = l * 256 + h"
    unfolding unat_internet_checksum f l_def h_def using tf by linarith+
  have b: "u16_bytes False w = [word_of_nat (unat w div 256), word_of_nat (unat w)]" 
    "u16_bytes True w = [word_of_nat (unat w), word_of_nat (unat w div 256)]" for w
    by (simp_all add: u16_bytes_def Let_def unat_inj_word unat_of_nat unat_drop_bit unsigned_ucast_eq take_bit_eq_mod)
  have w: "word_of_nat (x * 256 + y) = (word_of_nat y :: u8)" for x y
    by (simp add: unat_inj_word unat_of_nat del: of_nat_add of_nat_mult)
  show ?thesis
    unfolding b c w byte_div_mod(1)[OF lh(1)] byte_div_mod(1)[OF lh(2)] by simp
qed

lemma rd_packet_bytes:
  assumes "packet_wf p"
  shows "rd (packet_bytes le p) (240 + i) = rd (pkt_options p) i"
    and "i < 128 \<Longrightarrow> rd (packet_bytes le p) (108 + i) = rd (pkt_file p) i"
  using assms by (simp_all add: rd_def packet_wf_def packet_bytes_def nth_append nth_Cons')

lemma rd_take: "take n xs = ys \<Longrightarrow> i < length ys \<Longrightarrow> rd xs i = Some (ys ! i)"
  by (auto simp: rd_def)

text \<open>
  C6. An option added to a packet that holds the options \<open>opts\<close>, none with its code, can be
  read back, and no other option changes.
\<close>

theorem dhcp_option_roundtrip:
  assumes "packet_opts p opts" "opts_wf [(c, d)]" "length (encode_opts opts) + length d + 3 < 308"
    and "map_of opts c = None"
  shows "\<exists>q. dhcp_add_binary_option p ([c, word_of_nat (length d)] @ d) = Some q \<and>
    option_data le q 548 = (option_data le p 548)(c \<mapsto> d)"
  by (rule packet_area.lookup_add[OF assms])

theorem dhcp_option_roundtrip_witness:
  "\<exists>p q. dhcp_init_header True DHCPOFFER = Some p \<and> dhcp_add_binary_option p [0x0c, 2, 7, 9] = Some q \<and>
    option_data True q 548 = (option_data True p 548)(0x0c \<mapsto> [7, 9])"
proof -
  obtain p where p: "dhcp_init_header True DHCPOFFER = Some p" "packet_opts p [(DHCP_MESSAGE_TYPE, [DHCPOFFER])]"
    using dhcp_init_header_opts by blast
  show ?thesis using p(1) dhcp_option_roundtrip[OF p(2), of "0x0c" "[7, 9]" True] by auto
qed

text \<open>
  C7. An option returned has the code asked for, and its data lie inside the bytes received.
\<close>

theorem dhcp_get_option_inside:
  assumes "dhcp_get_option le p packet_len code = Some (Opt_at i)" "packet_wf p"
  shows "2 \<le> i \<and> i \<le> 628 \<and> uint (packet_bytes le p ! (i - 2)) = code \<and>
    i + unat (packet_bytes le p ! (i - 1)) < unat packet_len"
  using dhcp_get_option_loop_inside[OF assms(1)[unfolded dhcp_get_option_def]] length_packet_bytes[OF assms(2)]
  by (simp del: of_nat_unat flip: of_nat_add)

text \<open>
  C8. The walk does not return for a packet whose options and whose file field both start
  with an overload option naming the file field, followed by the end mark.
\<close>

theorem dhcp_get_option_overload_diverges:
  assumes "packet_wf p" "take 4 (pkt_options p) = [DHCP_OPTION_OVERLOAD, 1, 1, DHCP_END]"
    and "take 4 (pkt_file p) = [DHCP_OPTION_OVERLOAD, 1, 1, DHCP_END]"
    and "244 \<le> unat packet_len" "code \<noteq> uint DHCP_OPTION_OVERLOAD"
  shows "dhcp_get_option le p packet_len code = None"
proof -
  note o = rd_take[OF assms(2)] and f = rd_take[OF assms(3)]
  let ?m = "packet_bytes le p" and ?e = "int (unat packet_len) - 1"
  have m: "rd ?m 240 = Some DHCP_OPTION_OVERLOAD" "rd ?m 241 = Some 1" "rd ?m 242 = Some 1" "rd ?m 243 = Some DHCP_END"
    using rd_packet_bytes(1)[OF assms(1), of le 0] rd_packet_bytes(1)[OF assms(1), of le 1]
      rd_packet_bytes(1)[OF assms(1), of le 2] rd_packet_bytes(1)[OF assms(1), of le 3] o[of 0] o[of 1] o[of 2] o[of 3]
    by simp_all
  have n: "rd ?m 108 = Some DHCP_OPTION_OVERLOAD" "rd ?m 109 = Some 1" "rd ?m 110 = Some 1" "rd ?m 111 = Some DHCP_END"
    using rd_packet_bytes(2)[OF assms(1), of 0 le] rd_packet_bytes(2)[OF assms(1), of 1 le]
      rd_packet_bytes(2)[OF assms(1), of 2 le] rd_packet_bytes(2)[OF assms(1), of 3 le] f[of 0] f[of 1] f[of 2] f[of 3]
    by simp_all
  have e: "243 \<le> ?e" using assms(4) by linarith
  have "dhcp_get_option_loop ?m ?e code 388 240 0 = dhcp_get_option_loop ?m ?e code 385 243 1"
    using m e assms(5) by (subst dhcp_get_option_loop.simps) (simp add: Let_def del: of_nat_unat)
  also have "\<dots> = dhcp_get_option_loop ?m ?e code 128 108 0"
    using m(4) e by (subst dhcp_get_option_loop.simps) (simp add: Let_def del: of_nat_unat)
  also have "\<dots> = None"
    by (rule dhcp_get_option_loop_overload_diverges[OF n]) (use e assms(5) in auto)
  finally show ?thesis unfolding dhcp_get_option_def .
qed

theorem dhcp_get_option_overload_diverges_witness:
  "\<exists>p. packet_wf p \<and> dhcp_get_option True p 628 (uint DHCP_MESSAGE_TYPE) = None"
proof -
  let ?x = "[DHCP_OPTION_OVERLOAD, 1, 1, DHCP_END]"
  let ?p = "packet_zero\<lparr>pkt_file := ?x @ replicate 124 0, pkt_options := ?x @ replicate 384 0\<rparr>"
  have "packet_wf ?p" by (simp add: packet_wf_def packet_zero_def)
  then show ?thesis
    using dhcp_get_option_overload_diverges[of ?p 628 "uint DHCP_MESSAGE_TYPE" True]
    by (intro exI[of _ ?p]) simp
qed

text \<open>
  C9. An option whose length runs past the options array ends the walk in a signed
  overflow: it subtracts the length again and again without moving on.
\<close>

theorem dhcp_get_option_short_undef:
  assumes "packet_wf p" "opts_wf opts" "map_of opts code = None"
    and "pkt_options p = encode_opts opts @ c # l # rest" "c \<noteq> DHCP_PADDING" "c \<noteq> DHCP_END"
    and "388 < length (encode_opts opts) + 2 + unat l" "241 + length (encode_opts opts) < unat packet_len"
  shows "dhcp_get_option le p packet_len (uint code) = Some Opt_undef"
proof -
  let ?m = "packet_bytes le p" and ?e = "int (unat packet_len) - 1" and ?n = "length (encode_opts opts)"
  obtain pre where pre: "?m = pre @ pkt_options p" "length pre = 240" by (rule packet_bytes_options[OF assms(1)])
  have len: "?n + 2 + length rest = 388" using assms(1,4) by (simp add: packet_wf_def)
  have "dhcp_get_option_loop ?m ?e (uint code) 388 240 0 =
      dhcp_get_option_loop ?m ?e (uint code) (388 - int ?n) (240 + ?n) 0"
    by (rule dhcp_get_option_loop_skip[OF assms(2,3)])
      (use pre assms(4,8) len in \<open>simp_all del: of_nat_unat, linarith?\<close>)
  also have "\<dots> = Some Opt_undef"
  proof (rule dhcp_get_option_loop_short_undef)
    show "rd ?m (240 + ?n) = Some c" "rd ?m (240 + ?n + 1) = Some l"
      using rd_packet_bytes(1)[OF assms(1), of le ?n] rd_packet_bytes(1)[OF assms(1), of le "?n + 1"] assms(4)
      by (simp_all add: rd_def nth_append)
    show "int (240 + ?n) + 1 \<le> ?e" using assms(8) by linarith
    show "388 - int ?n < int (2 + unat l)" using assms(7) by linarith
  qed (use assms in auto)
  finally show ?thesis unfolding dhcp_get_option_def .
qed

theorem dhcp_get_option_short_undef_witness:
  "\<exists>p. packet_wf p \<and> dhcp_get_option True p 628 (uint DHCP_SERVER_ID) = Some Opt_undef"
proof -
  let ?p = "packet_zero\<lparr>pkt_options := [0x0c, 200] @ replicate 200 1 @ [0x0c, 255] @ replicate 184 1\<rparr>"
  have "packet_wf ?p" by (simp add: packet_wf_def packet_zero_def)
  then show ?thesis
    using dhcp_get_option_short_undef[of ?p "[(0x0c, replicate 200 1)]" DHCP_SERVER_ID "0x0c" 255 "replicate 184 1" 628 True]
    by (intro exI[of _ ?p]) simp
qed

theorem dhcp_get_option_inside_witness:
  "\<exists>p. dhcp_init_header True DHCPOFFER = Some p \<and> dhcp_get_option True p 548 (uint DHCP_MESSAGE_TYPE) = Some (Opt_at 242) \<and>
     uint (packet_bytes True p ! 240) = uint DHCP_MESSAGE_TYPE"
proof -
  obtain p where p: "dhcp_init_header True DHCPOFFER = Some p" "packet_opts p [(DHCP_MESSAGE_TYPE, [DHCPOFFER])]"
    using dhcp_init_header_opts by blast
  have "dhcp_get_option True p 548 (uint DHCP_MESSAGE_TYPE) = Some (Opt_at 242)"
    using option_data_packet_opts(1)[OF p(2), of 548 True DHCP_MESSAGE_TYPE] by simp
  then show ?thesis
    using dhcp_get_option_inside[of True p 548 "uint DHCP_MESSAGE_TYPE" 242] p by (auto simp: packet_opts_def)
qed

lemma u16_bytes_0: "u16_bytes le 0 = [0, 0]"
  by (simp add: u16_bytes_def Let_def)

text \<open>
  C37. The datagram sent carries checksums that verify: over the IP header, and over the
  pseudo header (protocol, addresses, UDP length), the UDP header and the data.
\<close>

theorem raw_packet_checksums:
  assumes "packet_wf p"
  shows "\<exists>raw. raw_packet le bcast p source_ip source_port dest_ip dest_port = Some raw \<and>
    length raw = 576 \<and> dhcp_checksum le (take 20 raw) = Some 0 \<and>
    dhcp_checksum le (iphdr le 0 (htons le UPD_DHCP_SIZE) 0 0 source_ip dest_ip @ drop 20 raw) = Some 0"
proof -
  let ?data = "take 548 (packet_bytes le (set_bcast le bcast p))"
  have "packet_wf (set_bcast le bcast p)" using assms by (simp add: set_bcast_def packet_wf_def)
  note data = length_packet_bytes[OF this]
  let ?pseudo = "iphdr le 0 (htons le UPD_DHCP_SIZE) 0 0 source_ip dest_ip"
  let ?udp = "u16_bytes le (htons le source_port) @ u16_bytes le (htons le dest_port) @ u16_bytes le (htons le UPD_DHCP_SIZE)"
  let ?ip = "[0x45, 0] @ u16_bytes le (htons le IP_UPD_DHCP_SIZE) @ [0, 0, 0, 0, 64, 17]"
  let ?ips = "u32_bytes le source_ip @ u32_bytes le dest_ip"
  let ?ic = "internet_checksum le (?ip @ [0, 0] @ ?ips)" and ?uc = "internet_checksum le ((?pseudo @ ?udp) @ [0, 0] @ ?data)"
  let ?raw = "(?ip @ u16_bytes le ?ic @ ?ips) @ (?udp @ u16_bytes le ?uc @ ?data)"
  have len: "length ?pseudo = 20" by (simp add: iphdr_def)
  have raw: "raw_packet le bcast p source_ip source_port dest_ip dest_port = Some ?raw"
    by (simp add: raw_packet_def Let_def iphdr_def udphdr_def u16_bytes_0 dhcp_checksum_defined data)
  have "internet_checksum le (?ip @ u16_bytes le ?ic @ ?ips) = 0"
    by (rule internet_checksum_verifies) simp
  moreover have "internet_checksum le ((?pseudo @ ?udp) @ u16_bytes le ?uc @ ?data) = 0"
    by (rule internet_checksum_verifies) (simp add: len)
  ultimately show ?thesis
    unfolding raw by (intro exI[of _ ?raw]) (simp add: data len take_Cons' drop_Cons' dhcp_checksum_defined)
qed

theorem raw_packet_checksums_witness:
  "\<exists>raw. raw_packet True False packet_zero 0x0100a8c0 67 0xffffffff 68 = Some raw \<and> dhcp_checksum True (take 20 raw) = Some 0"
  using raw_packet_checksums[of packet_zero True False "0x0100a8c0" 67 "0xffffffff" 68]
  by (auto simp: packet_wf_def packet_zero_def)

text \<open>
  Up to 65536 bytes, more than any datagram has, the checksum is defined and its bytes do not
  depend on the byte order of the host, with an odd number of bytes too.
\<close>

lemma dhcp_checksum_byte_order:
  assumes "length bs \<le> 65536"
  shows "\<exists>c d. dhcp_checksum True bs = Some c \<and> dhcp_checksum False bs = Some d \<and> u16_bytes True c = u16_bytes False d"
  using dhcp_checksum_defined[OF assms] internet_checksum_swap by simp

lemma dhcp_checksum_byte_order_example:
  "\<exists>c d. dhcp_checksum True [1, 2, 3] = Some c \<and> dhcp_checksum False [1, 2, 3] = Some d \<and> u16_bytes True c = u16_bytes False d"
  using dhcp_checksum_byte_order[of "[1, 2, 3]"] by simp

text \<open>
  C39. A DHCPv6 option returned lies inside the packet.
\<close>

theorem dhcpv6_get_option_inside:
  assumes "dhcpv6_get_option mem pkt_len code = Some (Some q, option_len, n)"
  shows "\<exists>l. option_len = Some l \<and> 4 \<le> q \<and> q + unat l + 4 \<le> unat pkt_len"
proof -
  let ?R = "int (unat pkt_len) - 4"
  have "dhcpv6_get_option_loop mem code ?R 0 (None, None, 0) = Some (Some q, option_len, n)"
    using assms by (auto simp: dhcpv6_get_option_def Let_def split: if_splits)
  from dhcpv6_get_option_loop_inside[OF this, of ?R] obtain l where
    "option_len = Some l" "4 \<le> q" "int q + int (unat l) \<le> ?R" by (auto simp: found_inside_def)
  then show ?thesis by (intro exI[of _ l] conjI) linarith+
qed

theorem dhcpv6_get_option_inside_witness:
  "dhcpv6_get_option [0, 1, 0, 2, 7, 8, 0, 3, 0, 0] 14 1 = Some (Some 4, Some 2, 1) \<and> 4 + unat (2 :: u16) + 4 \<le> (14 :: nat)"
proof -
  have "dhcpv6_get_option [0, 1, 0, 2, 7, 8, 0, 3, 0, 0] 14 1 = Some (Some 4, Some 2, 1)"
    by (simp add: dhcpv6_get_option_def dhcpv6_get_option_loop.simps be16_at_def Let_def)
  with dhcpv6_get_option_inside[OF this] show ?thesis by simp
qed

end
