(* ===== verification/DhcpServer.thy ===== *)
theory DhcpServer
  imports DhcpPacket "HOL-Library.Monad_Syntax"
begin

text \<open>
  The DHCP server, \<open>src/gdhcp/server.c\<close>: the table of leases, the answers to the messages of
  clients and the interface of the server. A lease is a structure on a heap, reached from the
  sorted list and from the hash table by its address, as in the code. What the server takes
  from outside is a record \<open>env\<close>: the byte order of the host, the time, \<open>inet_aton\<close> (its
  result in host order), the outcome of an allocation, and two functions of the container
  library: the sorted insertion into a list and the order in which a hash table is
  traversed. What the server does to the outside is a list of outputs. \<open>None\<close> as a result
  says that a call does not return or is undefined.
\<close>

unbundle bit_operations_syntax

section \<open>State\<close>

record dhcp_lease =
  expire :: int
  lease_nip :: u32
  lease_mac :: "u8 list"

record dhcp_server =
  ref_count :: int
  started :: bool
  ifindex :: int
  start_ip :: u32
  end_ip :: u32
  server_nip :: u32
  lease_seconds :: u32
  listener_watch :: bool
  lease_list :: "ptr list"
  nip_lease_hash :: "u32 \<rightharpoonup> ptr"
  option_hash :: "u8 \<rightharpoonup> string"
  save_lease_func :: bool
  lease_added_cb :: bool
  leases :: "ptr \<rightharpoonup> dhcp_lease"
  next_lease :: ptr

record env =
  little_endian :: bool
  now :: int
  inet_aton :: "string \<Rightarrow> u32 option"
  mem_ok :: bool
  insert_sorted :: "ptr list \<Rightarrow> ptr \<Rightarrow> (ptr \<Rightarrow> ptr \<Rightarrow> int) \<Rightarrow> ptr list"
  hash_order :: "(u8 \<rightharpoonup> string) \<Rightarrow> u8 list"

datatype dhcp_out =
    Send_packet dhcp_packet u32 "u8 list"
  | Lease_added "u8 list" u32
  | Save_lease "u8 list" u32 int

abbreviation "OFFER_TIME \<equiv> 300 :: u32"
abbreviation "DEFAULT_DHCP_LEASE_SEC \<equiv> 28800 :: u32"
abbreviation "INADDR_BROADCAST \<equiv> 0xffffffff :: u32"

section \<open>The table of leases\<close>

definition find_lease_by_mac :: "dhcp_server \<Rightarrow> u8 list \<Rightarrow> ptr option" where
  "find_lease_by_mac s mac =
     find (\<lambda>p. map_option lease_mac (leases s p) = Some (take ETH_ALEN mac)) (lease_list s)"

definition find_lease_by_nip :: "dhcp_server \<Rightarrow> u32 \<Rightarrow> ptr option" where
  "find_lease_by_nip s nip = nip_lease_hash s nip"

definition nip_of :: "dhcp_server \<Rightarrow> ptr \<Rightarrow> u32" where
  "nip_of s p = (case leases s p of None \<Rightarrow> 0 | Some l \<Rightarrow> lease_nip l)"

definition expire_of :: "dhcp_server \<Rightarrow> ptr \<Rightarrow> int" where
  "expire_of s p = (case leases s p of None \<Rightarrow> 0 | Some l \<Rightarrow> expire l)"

text \<open>The lease taken out of the list and of the hash table.\<close>

definition unlink_lease :: "u32 \<Rightarrow> ptr \<Rightarrow> dhcp_server \<Rightarrow> dhcp_server" where
  "unlink_lease nip p s = s\<lparr>lease_list := remove1 p (lease_list s), nip_lease_hash := (nip_lease_hash s)(nip := None)\<rparr>"

definition remove_lease :: "ptr \<Rightarrow> dhcp_server \<Rightarrow> dhcp_server" where
  "remove_lease p s = (let s1 = unlink_lease (nip_of s p) p s in s1\<lparr>leases := (leases s1)(p := None)\<rparr>)"

definition get_lease :: "env \<Rightarrow> u32 \<Rightarrow> u8 list \<Rightarrow> dhcp_server \<Rightarrow> dhcp_server \<times> ptr result" where
  "get_lease env yiaddr mac s =
     (let nip = ntohl (little_endian env) yiaddr in
      if yiaddr = 0 then (s, Inl ENXIO)
      else if nip < start_ip s then (s, Inl ENXIO)
      else if end_ip s < nip then (s, Inl ENXIO)
      else if take ETH_ALEN mac = MAC_BCAST_ADDR then (s, Inl ENXIO)
      else if take ETH_ALEN mac = MAC_ANY_ADDR then (s, Inl ENXIO)
      else (case (nip_lease_hash s nip, find_lease_by_mac s mac) of
          (Some p, None) \<Rightarrow> (unlink_lease nip p s, Inr p)
        | (Some p, Some q) \<Rightarrow>
            if p \<noteq> q then (remove_lease q (unlink_lease nip p s), Inr p)
            else (unlink_lease nip p s, Inr p)
        | (None, Some q) \<Rightarrow> (unlink_lease (nip_of s q) q s, Inr q)
        | (None, None) \<Rightarrow>
            if \<not> mem_ok env then (s, Inl ENOMEM)
            else (s\<lparr>next_lease := next_lease s + 1\<rparr>, Inr (next_lease s))))"

text \<open>The difference of two times, cut to the width of an int.\<close>

definition compare_expire :: "dhcp_server \<Rightarrow> ptr \<Rightarrow> ptr \<Rightarrow> int" where
  "compare_expire s a b = sint (word_of_int (expire_of s b - expire_of s a) :: 32 word)"

definition link_lease :: "env \<Rightarrow> ptr \<Rightarrow> dhcp_lease \<Rightarrow> dhcp_server \<Rightarrow> dhcp_server" where
  "link_lease env p l s =
     (let s1 = s\<lparr>leases := (leases s)(p \<mapsto> l)\<rparr> in
      s1\<lparr>lease_list := insert_sorted env (lease_list s1) p (compare_expire s1),
        nip_lease_hash := (nip_lease_hash s1)(lease_nip l \<mapsto> p)\<rparr>)"

definition add_lease :: "env \<Rightarrow> u32 \<Rightarrow> u8 list \<Rightarrow> u32 \<Rightarrow> dhcp_server \<Rightarrow> dhcp_server \<times> ptr option" where
  "add_lease env exp chaddr yiaddr s =
     (case get_lease env yiaddr chaddr s of
        (s1, Inl _) \<Rightarrow> (s1, None)
      | (s1, Inr p) \<Rightarrow>
          (link_lease env p \<lparr>expire = (if exp = 0 then now env + uint (lease_seconds s1) else uint exp),
             lease_nip = ntohl (little_endian env) yiaddr, lease_mac = take ETH_ALEN chaddr\<rparr> s1, Some p))"

definition arp_check :: "u32 \<Rightarrow> u8 list \<Rightarrow> bool" where
  "arp_check nip safe_mac = True"

definition is_expired_lease :: "env \<Rightarrow> dhcp_server \<Rightarrow> ptr \<Rightarrow> bool" where
  "is_expired_lease env s p = (expire_of s p < now env)"

text \<open>
  The loop over the addresses: the address it returns, or \<open>Some None\<close> after the last one.
\<close>

partial_function (option) find_free_nip :: "env \<Rightarrow> dhcp_server \<Rightarrow> u8 list \<Rightarrow> u32 \<Rightarrow> u32 option option" where
  "find_free_nip env s safe_mac ip_addr =
     (if ip_addr \<le> end_ip s then
        (if ip_addr AND 0xff = 0 then find_free_nip env s safe_mac (ip_addr + 1)
         else if ip_addr AND 0xff = 0xff then find_free_nip env s safe_mac (ip_addr + 1)
         else if find_lease_by_nip s ip_addr \<noteq> None then find_free_nip env s safe_mac (ip_addr + 1)
         else if arp_check (htonl (little_endian env) ip_addr) safe_mac then Some (Some ip_addr)
         else find_free_nip env s safe_mac (ip_addr + 1))
      else Some None)"

definition find_free_or_expired_nip :: "env \<Rightarrow> dhcp_server \<Rightarrow> u8 list \<Rightarrow> u32 option" where
  "find_free_or_expired_nip env s safe_mac =
     (case find_free_nip env s safe_mac (start_ip s) of None \<Rightarrow> None
      | Some (Some ip_addr) \<Rightarrow> Some ip_addr
      | Some None \<Rightarrow>
          Some (if lease_list s = [] then 0
            else let lease = last (lease_list s) in
              if \<not> is_expired_lease env s lease then 0
              else if \<not> arp_check (nip_of s lease) safe_mac then 0
              else nip_of s lease))"

definition lease_set_expire :: "env \<Rightarrow> ptr \<Rightarrow> u32 \<Rightarrow> dhcp_server \<Rightarrow> dhcp_server" where
  "lease_set_expire env p exp s =
     (let s1 = s\<lparr>lease_list := remove1 p (lease_list s),
          leases := (leases s)(p := map_option (\<lambda>l. l\<lparr>expire := uint exp\<rparr>) (leases s p))\<rparr> in
      s1\<lparr>lease_list := insert_sorted env (lease_list s1) p (compare_expire s1)\<rparr>)"

definition destroy_lease_table :: "dhcp_server \<Rightarrow> dhcp_server" where
  "destroy_lease_table s = s\<lparr>nip_lease_hash := Map.empty,
     leases := (leases s) |` (- set (lease_list s)), lease_list := []\<rparr>"

section \<open>Answers\<close>

definition init_packet :: "env \<Rightarrow> dhcp_server \<Rightarrow> dhcp_packet \<Rightarrow> u8 \<Rightarrow> dhcp_packet option" where
  "init_packet env s client_packet type = do {
     packet \<leftarrow> dhcp_init_header (little_endian env) type;
     dhcp_add_option_uint32 (little_endian env)
       (packet\<lparr>pkt_xid := pkt_xid client_packet, pkt_chaddr := pkt_chaddr client_packet,
          pkt_flags := pkt_flags client_packet, pkt_gateway_nip := pkt_gateway_nip client_packet,
          pkt_ciaddr := pkt_ciaddr client_packet\<rparr>)
       DHCP_SERVER_ID (ntohl (little_endian env) (server_nip s))
   }"

definition add_option :: "env \<Rightarrow> u8 \<Rightarrow> string \<Rightarrow> dhcp_packet \<Rightarrow> dhcp_packet option" where
  "add_option env option_code option_value packet =
     (if option_code \<in> {DHCP_SUBNET, DHCP_ROUTER, DHCP_DNS_SERVER} then
        (case inet_aton env option_value of None \<Rightarrow> Some packet
         | Some nip \<Rightarrow> dhcp_add_option_uint32 (little_endian env) packet option_code nip)
      else Some packet)"

fun add_options :: "env \<Rightarrow> (u8 \<rightharpoonup> string) \<Rightarrow> u8 list \<Rightarrow> dhcp_packet \<Rightarrow> dhcp_packet option" where
  "add_options env h [] packet = Some packet"
| "add_options env h (c # cs) packet =
     (case h c of None \<Rightarrow> add_options env h cs packet
      | Some v \<Rightarrow> add_option env c v packet \<bind> add_options env h cs)"

definition add_server_options :: "env \<Rightarrow> dhcp_server \<Rightarrow> dhcp_packet \<Rightarrow> dhcp_packet option" where
  "add_server_options env s packet = add_options env (option_hash s) (hash_order env (option_hash s)) packet"

definition check_requested_nip :: "env \<Rightarrow> dhcp_server \<Rightarrow> u32 \<Rightarrow> bool" where
  "check_requested_nip env s requested_nip =
     (if requested_nip = 0 then False
      else if requested_nip < start_ip s then False
      else if end_ip s < requested_nip then False
      else (case find_lease_by_nip s requested_nip of None \<Rightarrow> True
        | Some lease \<Rightarrow> is_expired_lease env s lease))"

definition send_packet_to_client :: "env \<Rightarrow> dhcp_packet \<Rightarrow> dhcp_out" where
  "send_packet_to_client env dhcp_pkt =
     (if pkt_flags dhcp_pkt AND htons (little_endian env) BROADCAST_FLAG \<noteq> 0 \<or> pkt_ciaddr dhcp_pkt = 0
      then Send_packet dhcp_pkt INADDR_BROADCAST MAC_BCAST_ADDR
      else Send_packet dhcp_pkt (pkt_ciaddr dhcp_pkt) (pkt_chaddr dhcp_pkt))"

definition offer_nip :: "env \<Rightarrow> dhcp_server \<Rightarrow> dhcp_packet \<Rightarrow> ptr option \<Rightarrow> u32 \<Rightarrow> u32 option" where
  "offer_nip env s client_packet lease requested_nip =
     (case lease of Some p \<Rightarrow> Some (nip_of s p)
      | None \<Rightarrow> if check_requested_nip env s requested_nip then Some requested_nip
          else find_free_or_expired_nip env s (pkt_chaddr client_packet))"

definition send_offer :: "env \<Rightarrow> dhcp_packet \<Rightarrow> ptr option \<Rightarrow> u32 \<Rightarrow> dhcp_server \<Rightarrow> (dhcp_server \<times> dhcp_out list) option"
where
  "send_offer env client_packet lease requested_nip s = do {
     packet \<leftarrow> init_packet env s client_packet DHCPOFFER;
     nip \<leftarrow> offer_nip env s client_packet lease requested_nip;
     let packet = packet\<lparr>pkt_yiaddr := htonl (little_endian env) nip\<rparr>;
     if pkt_yiaddr packet = 0 then Some (s, [])
     else case add_lease env OFFER_TIME (pkt_chaddr packet) (pkt_yiaddr packet) s of
         (s1, None) \<Rightarrow> Some (s1, [])
       | (s1, Some _) \<Rightarrow> do {
           packet \<leftarrow> dhcp_add_option_uint32 (little_endian env) packet DHCP_LEASE_TIME (lease_seconds s1);
           packet \<leftarrow> add_server_options env s1 packet;
           Some (s1, [send_packet_to_client env packet])
         }
   }"

definition save_lease :: "dhcp_server \<Rightarrow> dhcp_out list" where
  "save_lease s = (if \<not> save_lease_func s then []
     else List.map_filter (\<lambda>p. map_option (\<lambda>l. Save_lease (lease_mac l) (lease_nip l) (expire l)) (leases s p)) (lease_list s))"

definition send_ACK :: "env \<Rightarrow> dhcp_packet \<Rightarrow> u32 \<Rightarrow> dhcp_server \<Rightarrow> (dhcp_server \<times> dhcp_out list) option" where
  "send_ACK env client_packet dest s = do {
     packet \<leftarrow> init_packet env s client_packet DHCPACK;
     let packet = packet\<lparr>pkt_yiaddr := htonl (little_endian env) dest\<rparr>;
     packet \<leftarrow> dhcp_add_option_uint32 (little_endian env) packet DHCP_LEASE_TIME (lease_seconds s);
     packet \<leftarrow> add_server_options env s packet;
     let s1 = fst (add_lease env 0 (pkt_chaddr packet) (pkt_yiaddr packet) s);
     Some (s1, send_packet_to_client env packet #
       (if lease_added_cb s1 then [Lease_added (pkt_chaddr packet) (pkt_yiaddr packet)] else []))
   }"

definition send_NAK :: "env \<Rightarrow> dhcp_packet \<Rightarrow> dhcp_server \<Rightarrow> dhcp_out list option" where
  "send_NAK env client_packet s = do {
     packet \<leftarrow> init_packet env s client_packet DHCPNAK;
     Some [Send_packet packet INADDR_BROADCAST MAC_BCAST_ADDR]
   }"

definition send_inform :: "env \<Rightarrow> dhcp_packet \<Rightarrow> dhcp_server \<Rightarrow> dhcp_out list option" where
  "send_inform env client_packet s = do {
     packet \<leftarrow> init_packet env s client_packet DHCPACK;
     packet \<leftarrow> add_server_options env s packet;
     Some [send_packet_to_client env packet]
   }"

section \<open>The listener\<close>

text \<open>A walk over the options that returns: the position of the data, if found.\<close>

definition walk :: "env \<Rightarrow> dhcp_packet \<Rightarrow> u16 \<Rightarrow> u8 \<Rightarrow> nat option option" where
  "walk env packet packet_len code =
     (case dhcp_get_option (little_endian env) packet packet_len (uint code) of
        Some Opt_none \<Rightarrow> Some None
      | Some (Opt_at i) \<Rightarrow> Some (Some i)
      | _ \<Rightarrow> None)"

text \<open>The four bytes at a position of the packet, if they are inside the structure.\<close>

definition four_at :: "env \<Rightarrow> dhcp_packet \<Rightarrow> nat \<Rightarrow> u8 list option" where
  "four_at env packet i = (let mem = packet_bytes (little_endian env) packet in
     if i + 4 \<le> length mem then Some (take 4 (drop i mem)) else None)"

definition check_packet_type :: "env \<Rightarrow> dhcp_packet \<Rightarrow> u16 \<Rightarrow> u8 option" where
  "check_packet_type env packet packet_len =
     (if pkt_hlen packet \<noteq> 6 then Some 0
      else if pkt_op packet \<noteq> BOOTREQUEST then Some 0
      else (case walk env packet packet_len DHCP_MESSAGE_TYPE of None \<Rightarrow> None
        | Some None \<Rightarrow> Some 0
        | Some (Some i) \<Rightarrow> let type = packet_bytes (little_endian env) packet ! i in
            if type < DHCP_MINTYPE then Some 0 else if DHCP_MAXTYPE < type then Some 0 else Some type))"

text \<open>
  The switch of \<open>listener_event\<close> over the type of the message, given whether the packet has
  the server id and the requested address, and the requested address.
\<close>

definition handle_message :: "env \<Rightarrow> dhcp_packet \<Rightarrow> u8 \<Rightarrow> bool \<Rightarrow> bool \<Rightarrow> u32 \<Rightarrow> dhcp_server \<Rightarrow>
    (dhcp_server \<times> dhcp_out list) option"
where
  "handle_message env packet type server_id_option request_ip_option requested_nip s =
     (let lease = find_lease_by_mac s (pkt_chaddr packet) in
      if type = DHCPDISCOVER then send_offer env packet lease requested_nip s
      else if type = DHCPREQUEST then
        (let requested_nip = (if requested_nip = 0 then ntohl (little_endian env) (pkt_ciaddr packet) else requested_nip) in
         if requested_nip = 0 then Some (s, [])
         else if lease \<noteq> None \<and> requested_nip = nip_of s (the lease) then
           send_ACK env packet (nip_of s (the lease)) s
         else if server_id_option \<or> lease = None then map_option (Pair s) (send_NAK env packet s)
         else Some (s, []))
      else if type = DHCPDECLINE then
        (if \<not> server_id_option then Some (s, [])
         else if \<not> request_ip_option then Some (s, [])
         else (case lease of None \<Rightarrow> Some (s, [])
           | Some p \<Rightarrow> if requested_nip = nip_of s p then Some (remove_lease p s, []) else Some (s, [])))
      else if type = DHCPRELEASE then
        (if \<not> server_id_option then Some (s, [])
         else (case lease of None \<Rightarrow> Some (s, [])
           | Some p \<Rightarrow> if pkt_ciaddr packet = nip_of s p then Some (lease_set_expire env p (word_of_int (now env)) s, [])
               else Some (s, [])))
      else if type = DHCPINFORM then map_option (Pair s) (send_inform env packet s)
      else Some (s, []))"

datatype listener_input = Io_error | Io_in "u8 list result"

definition listener_event :: "env \<Rightarrow> listener_input \<Rightarrow> dhcp_server \<Rightarrow> (dhcp_server \<times> dhcp_out list \<times> bool) option" where
  "listener_event env input s =
     (case input of
        Io_error \<Rightarrow> Some (s\<lparr>listener_watch := False\<rparr>, [], False)
      | Io_in r \<Rightarrow> (case dhcp_recv_l3_packet (little_endian env) r of
            Inl _ \<Rightarrow> Some (s, [], True)
          | Inr (packet, re) \<Rightarrow> do {
              let packet_len = word_of_nat re;
              type \<leftarrow> check_packet_type env packet packet_len;
              if type = 0 then Some (s, [], True)
              else do {
                server_id_option \<leftarrow> walk env packet packet_len DHCP_SERVER_ID;
                foreign \<leftarrow> (case server_id_option of None \<Rightarrow> Some False
                  | Some i \<Rightarrow> map_option (\<lambda>b. get_unaligned_32 (little_endian env) b \<noteq> server_nip s) (four_at env packet i));
                if foreign then Some (s, [], True)
                else do {
                  request_ip_option \<leftarrow> walk env packet packet_len DHCP_REQUESTED_IP;
                  requested_nip \<leftarrow> (case request_ip_option of None \<Rightarrow> Some 0
                    | Some i \<Rightarrow> map_option (get_be32 (little_endian env)) (four_at env packet i));
                  (s1, outs) \<leftarrow> handle_message env packet type (server_id_option \<noteq> None) (request_ip_option \<noteq> None)
                    requested_nip s;
                  Some (s1, outs, True)
                }
              }
            }))"

section \<open>The interface of the server\<close>

datatype server_error =
    G_DHCP_SERVER_ERROR_NONE | G_DHCP_SERVER_ERROR_INTERFACE_UNAVAILABLE | G_DHCP_SERVER_ERROR_INTERFACE_IN_USE
  | G_DHCP_SERVER_ERROR_INTERFACE_DOWN | G_DHCP_SERVER_ERROR_NOMEM | G_DHCP_SERVER_ERROR_INVALID_INDEX
  | G_DHCP_SERVER_ERROR_INVALID_OPTION | G_DHCP_SERVER_ERROR_IP_ADDRESS_INVALID

text \<open>The interface queries are arguments: whether it has a name, is up, and its address.\<close>

definition g_dhcp_server_new :: "env \<Rightarrow> int \<Rightarrow> bool \<Rightarrow> bool \<Rightarrow> u32 \<Rightarrow> server_error + dhcp_server" where
  "g_dhcp_server_new env index has_name up address =
     (if index < 0 then Inl G_DHCP_SERVER_ERROR_INVALID_INDEX
      else if \<not> mem_ok env then Inl G_DHCP_SERVER_ERROR_NOMEM
      else if \<not> has_name then Inl G_DHCP_SERVER_ERROR_INTERFACE_UNAVAILABLE
      else if \<not> up then Inl G_DHCP_SERVER_ERROR_INTERFACE_DOWN
      else if address = 0 then Inl G_DHCP_SERVER_ERROR_IP_ADDRESS_INVALID
      else Inr \<lparr>ref_count = 1, started = False, ifindex = index, start_ip = 0, end_ip = 0, server_nip = address,
        lease_seconds = DEFAULT_DHCP_LEASE_SEC, listener_watch = False, lease_list = [], nip_lease_hash = Map.empty,
        option_hash = Map.empty, save_lease_func = False, lease_added_cb = False, leases = Map.empty, next_lease = 1\<rparr>)"

definition g_dhcp_server_start :: "bool \<Rightarrow> bool \<Rightarrow> dhcp_server \<Rightarrow> dhcp_server \<times> unit result" where
  "g_dhcp_server_start socket_ok channel_ok s =
     (if started s then (s, Inr ())
      else if \<not> socket_ok then (s, Inl EIO)
      else if \<not> channel_ok then (s, Inl EIO)
      else (s\<lparr>listener_watch := True, started := True\<rparr>, Inr ()))"

definition g_dhcp_server_set_option :: "env \<Rightarrow> u8 \<Rightarrow> string option \<Rightarrow> dhcp_server \<Rightarrow> dhcp_server \<times> unit result" where
  "g_dhcp_server_set_option env option_code option_value s =
     (case option_value of None \<Rightarrow> (s, Inl EINVAL)
      | Some v \<Rightarrow>
        if option_code \<in> {DHCP_SUBNET, DHCP_ROUTER, DHCP_DNS_SERVER} then
          (if inet_aton env v = None then (s, Inl ENXIO)
           else (s\<lparr>option_hash := (option_hash s)(option_code \<mapsto> v)\<rparr>, Inr ()))
        else (s, Inl EINVAL))"

definition g_dhcp_server_set_save_lease :: "bool \<Rightarrow> dhcp_server \<Rightarrow> dhcp_server" where
  "g_dhcp_server_set_save_lease func s = s\<lparr>save_lease_func := func\<rparr>"

definition g_dhcp_server_set_lease_added_cb :: "bool \<Rightarrow> dhcp_server \<Rightarrow> dhcp_server" where
  "g_dhcp_server_set_lease_added_cb cb s = s\<lparr>lease_added_cb := cb\<rparr>"

definition g_dhcp_server_ref :: "dhcp_server \<Rightarrow> dhcp_server" where
  "g_dhcp_server_ref s = s\<lparr>ref_count := ref_count s + 1\<rparr>"

definition g_dhcp_server_stop :: "dhcp_server \<Rightarrow> dhcp_server \<times> dhcp_out list" where
  "g_dhcp_server_stop s = (s\<lparr>listener_watch := False, started := False\<rparr>, save_lease s)"

text \<open>The last reference gone, the server is stopped, its table destroyed and itself freed.\<close>

definition g_dhcp_server_unref :: "dhcp_server \<Rightarrow> dhcp_server option \<times> dhcp_out list" where
  "g_dhcp_server_unref s =
     (if ref_count s \<noteq> 1 then (Some (s\<lparr>ref_count := ref_count s - 1\<rparr>), [])
      else (None, snd (g_dhcp_server_stop s)))"

definition g_dhcp_server_set_ip_range :: "env \<Rightarrow> string \<Rightarrow> string \<Rightarrow> dhcp_server \<Rightarrow> dhcp_server \<times> unit result" where
  "g_dhcp_server_set_ip_range env start end s =
     (case inet_aton env start of None \<Rightarrow> (s, Inl ENXIO)
      | Some a \<Rightarrow>
        let s1 = s\<lparr>start_ip := a\<rparr> in
        (case inet_aton env end of None \<Rightarrow> (s1, Inl ENXIO)
         | Some b \<Rightarrow> (s1\<lparr>end_ip := b\<rparr>, Inr ())))"

definition g_dhcp_server_set_lease_time :: "u32 \<Rightarrow> dhcp_server \<Rightarrow> dhcp_server" where
  "g_dhcp_server_set_lease_time lease_time s = s\<lparr>lease_seconds := lease_time\<rparr>"

end
