(* ===== verification/GLibList.thy ===== *)
theory GLibList
  imports Prelude "HOL-Library.List_Lexorder" "HOL-Library.Multiset"
begin

text \<open>
  The contracts of the list functions of the container library that the program hands a
  comparison to, \<open>g_list_insert_sorted\<close> with \<open>g_slist_insert_sorted\<close> and \<open>g_list_sort\<close>: what the
  components rely on are the assumptions of two locales, and reference functions show that
  they can be met. A comparison that sorts by a key is the comparison \<open>cmp3\<close> of the keys.
\<close>

section \<open>Comparisons\<close>

definition cmp3 :: "'a :: linorder \<Rightarrow> 'a \<Rightarrow> int" where
  "cmp3 x y = (if x < y then -1 else if y < x then 1 else 0)"

lemma cmp3_Cons: "cmp3 (x # xs) (y # ys) = (if cmp3 x y \<noteq> 0 then cmp3 x y else cmp3 xs ys)"
  by (auto simp: cmp3_def)

lemma cmp3_int: "cmp3 (x :: int) y = sgn (x - y)"
  by (auto simp: cmp3_def sgn_if)

section \<open>Sorted insertion\<close>

locale sorted_insertion =
  fixes ins :: "'a list \<Rightarrow> 'a \<Rightarrow> ('a \<Rightarrow> 'a \<Rightarrow> int) \<Rightarrow> 'a list"
  assumes mset_ins: "mset (ins xs p cmp) = add_mset p (mset xs)"
    and sorted_ins: "(\<And>a b c. cmp a b \<le> 0 \<Longrightarrow> cmp b c \<le> 0 \<Longrightarrow> cmp a c \<le> 0) \<Longrightarrow> (\<And>a b. cmp a b \<le> 0 \<or> cmp b a \<le> 0) \<Longrightarrow>
      sorted_wrt (\<lambda>a b. cmp a b \<le> 0) xs \<Longrightarrow> sorted_wrt (\<lambda>a b. cmp a b \<le> 0) (ins xs p cmp)"
begin

lemma set_ins: "set (ins xs p cmp) = insert p (set xs)"
  by (metis mset_ins set_mset_mset set_mset_add_mset_insert)

lemma distinct_ins: "distinct (ins xs p cmp) \<longleftrightarrow> p \<notin> set xs \<and> distinct xs"
  by (metis distinct.simps(2) mset.simps(2) mset_eq_imp_distinct_iff mset_ins)

end

text \<open>Taking an element out keeps the order.\<close>

lemma sorted_wrt_remove1: "sorted_wrt P xs \<Longrightarrow> sorted_wrt P (remove1 n xs)"
proof (induction xs)
  case (Cons x xs)
  then show ?case using set_remove1_subset[of n xs] by auto
qed simp

text \<open>An insertion that meets the contract: before the first element that is not smaller.\<close>

fun insert_by :: "('a \<Rightarrow> 'a \<Rightarrow> int) \<Rightarrow> 'a \<Rightarrow> 'a list \<Rightarrow> 'a list" where
  "insert_by cmp p [] = [p]"
| "insert_by cmp p (q # qs) = (if cmp p q \<le> 0 then p # q # qs else q # insert_by cmp p qs)"

lemma mset_insert_by: "mset (insert_by cmp p qs) = add_mset p (mset qs)"
  by (induction qs) auto

lemma sorted_insert_by:
  assumes "\<And>a b c. cmp a b \<le> 0 \<Longrightarrow> cmp b c \<le> 0 \<Longrightarrow> cmp a c \<le> 0" "\<And>a b. cmp a b \<le> 0 \<or> cmp b a \<le> (0::int)"
    and "sorted_wrt (\<lambda>a b. cmp a b \<le> 0) qs"
  shows "sorted_wrt (\<lambda>a b. cmp a b \<le> 0) (insert_by cmp p qs)"
  using assms(3)
proof (induction qs)
  case (Cons q qs)
  have "set (insert_by cmp p qs) = insert p (set qs)" by (metis mset_insert_by set_mset_add_mset_insert set_mset_mset)
  then show ?case using Cons assms(1)[of p q] assms(2)[of p q] by auto
qed simp

interpretation ref_insertion: sorted_insertion "\<lambda>xs p cmp. insert_by cmp p xs"
proof
  fix cmp :: "'a \<Rightarrow> 'a \<Rightarrow> int" and xs p
  assume "\<And>a b c. cmp a b \<le> 0 \<Longrightarrow> cmp b c \<le> 0 \<Longrightarrow> cmp a c \<le> 0" "\<And>a b. cmp a b \<le> 0 \<or> cmp b a \<le> 0"
    "sorted_wrt (\<lambda>a b. cmp a b \<le> 0) xs"
  then show "sorted_wrt (\<lambda>a b. cmp a b \<le> 0) (insert_by cmp p xs)" by (rule sorted_insert_by)
qed (simp add: mset_insert_by)

section \<open>Sorting\<close>

text \<open>The contract of the sorting function: a permutation, in order when the comparison is one.\<close>

locale list_sorting =
  fixes sort_list :: "('a \<Rightarrow> 'a \<Rightarrow> int option) \<Rightarrow> 'a list \<Rightarrow> 'a list option"
  assumes sorts: "\<And>cmp xs. (\<And>a b. a \<in> set xs \<Longrightarrow> b \<in> set xs \<Longrightarrow> \<exists>r. cmp a b = Some r) \<Longrightarrow>
    (\<And>a b c. the (cmp a b) \<le> 0 \<Longrightarrow> the (cmp b c) \<le> 0 \<Longrightarrow> a \<in> set xs \<Longrightarrow> b \<in> set xs \<Longrightarrow> c \<in> set xs \<Longrightarrow> the (cmp a c) \<le> 0) \<Longrightarrow>
    (\<And>a b. a \<in> set xs \<Longrightarrow> b \<in> set xs \<Longrightarrow> sgn (the (cmp a b)) = - sgn (the (cmp b a))) \<Longrightarrow>
    \<exists>ys. sort_list cmp xs = Some ys \<and> mset ys = mset xs \<and> sorted_wrt (\<lambda>a b. the (cmp a b) \<le> 0) ys"
begin

text \<open>Sorting by a comparison that has the sign of a comparison of keys sorts by the key.\<close>

lemma sorts_by_key:
  fixes key :: "'a \<Rightarrow> 'k :: linorder"
  assumes "\<And>a b. a \<in> set xs \<Longrightarrow> b \<in> set xs \<Longrightarrow> \<exists>r. cmp a b = Some r \<and> sgn r = cmp3 (key a) (key b)"
  shows "\<exists>ys. sort_list cmp xs = Some ys \<and> mset ys = mset xs \<and> sorted (map key ys)"
proof -
  have s: "sgn (the (cmp a b)) = cmp3 (key a) (key b)" if "a \<in> set xs" "b \<in> set xs" for a b
    using assms[OF that] by auto
  have le: "the (cmp a b) \<le> 0 \<longleftrightarrow> key a \<le> key b" if "a \<in> set xs" "b \<in> set xs" for a b
    using s[OF that] by (auto simp: cmp3_def sgn_if split: if_splits)
  have 1: "\<exists>r. cmp a b = Some r" if "a \<in> set xs" "b \<in> set xs" for a b using assms[OF that] by blast
  have 2: "the (cmp a c) \<le> 0" if "the (cmp a b) \<le> 0" "the (cmp b c) \<le> 0" "a \<in> set xs" "b \<in> set xs" "c \<in> set xs" for a b c
    using that le[of a b] le[of b c] le[of a c] order.trans[of "key a" "key b" "key c"] by simp
  have 3: "sgn (the (cmp a b)) = - sgn (the (cmp b a))" if "a \<in> set xs" "b \<in> set xs" for a b
    using s[OF that] s[OF that(2,1)] by (auto simp: cmp3_def)
  have "\<exists>ys. sort_list cmp xs = Some ys \<and> mset ys = mset xs \<and> sorted_wrt (\<lambda>a b. the (cmp a b) \<le> 0) ys"
    by (rule sorts) (rule 1, assumption+, rule 2, assumption+, rule 3, assumption+)
  then obtain ys where ys: "sort_list cmp xs = Some ys" "mset ys = mset xs" "sorted_wrt (\<lambda>a b. the (cmp a b) \<le> 0) ys"
    by blast
  have "set ys = set xs" using ys(2) by (metis set_mset_mset)
  then have "sorted_wrt (\<lambda>a b. key a \<le> key b) ys"
    using ys(3) le by (auto intro: sorted_wrt_mono_rel[rotated])
  then show ?thesis using ys(1,2) by (simp add: sorted_map)
qed

end

text \<open>A sorting function that meets the contract.\<close>

primrec insert_cmp :: "('a \<Rightarrow> 'a \<Rightarrow> int option) \<Rightarrow> 'a \<Rightarrow> 'a list \<Rightarrow> 'a list" where
  "insert_cmp cmp x [] = [x]"
| "insert_cmp cmp x (y # ys) = (if the (cmp x y) \<le> 0 then x # y # ys else y # insert_cmp cmp x ys)"

definition ref_sort :: "('a \<Rightarrow> 'a \<Rightarrow> int option) \<Rightarrow> 'a list \<Rightarrow> 'a list option" where
  "ref_sort cmp xs = Some (foldr (insert_cmp cmp) xs [])"

lemma mset_insert_cmp [simp]: "mset (insert_cmp cmp x ys) = add_mset x (mset ys)"
  by (induction ys) auto

lemma set_insert_cmp [simp]: "set (insert_cmp cmp x ys) = insert x (set ys)"
  by (metis mset_insert_cmp set_mset_add_mset_insert set_mset_mset)

lemma sorted_insert_cmp:
  assumes "\<And>a b c. the (cmp a b) \<le> 0 \<Longrightarrow> the (cmp b c) \<le> 0 \<Longrightarrow> a \<in> S \<Longrightarrow> b \<in> S \<Longrightarrow> c \<in> S \<Longrightarrow> the (cmp a c) \<le> 0"
    and "\<And>a b. a \<in> S \<Longrightarrow> b \<in> S \<Longrightarrow> sgn (the (cmp a b)) = - sgn (the (cmp b a))"
    and "x \<in> S" "set ys \<subseteq> S" "sorted_wrt (\<lambda>a b. the (cmp a b) \<le> 0) ys"
  shows "sorted_wrt (\<lambda>a b. the (cmp a b) \<le> 0) (insert_cmp cmp x ys)"
  using assms(4,5)
proof (induction ys)
  case (Cons y ys)
  have "the (cmp y x) \<le> 0" if "\<not> the (cmp x y) \<le> 0"
    using that assms(2)[of x y] assms(3) Cons.prems(1) by (auto simp: sgn_if split: if_splits)
  then show ?case using Cons assms(1)[of x y] assms(3) by auto
qed simp

lemma ref_sort_sorted:
  assumes "\<And>a b c. the (cmp a b) \<le> 0 \<Longrightarrow> the (cmp b c) \<le> 0 \<Longrightarrow> a \<in> S \<Longrightarrow> b \<in> S \<Longrightarrow> c \<in> S \<Longrightarrow> the (cmp a c) \<le> 0"
    and "\<And>a b. a \<in> S \<Longrightarrow> b \<in> S \<Longrightarrow> sgn (the (cmp a b)) = - sgn (the (cmp b a))"
  shows "set xs \<subseteq> S \<Longrightarrow> mset (foldr (insert_cmp cmp) xs []) = mset xs \<and> sorted_wrt (\<lambda>a b. the (cmp a b) \<le> 0) (foldr (insert_cmp cmp) xs [])"
proof (induction xs)
  case (Cons x xs)
  then have m: "mset (foldr (insert_cmp cmp) xs []) = mset xs" "sorted_wrt (\<lambda>a b. the (cmp a b) \<le> 0) (foldr (insert_cmp cmp) xs [])" by auto
  have "set (foldr (insert_cmp cmp) xs []) = set xs" using m(1) by (metis set_mset_mset)
  then have "sorted_wrt (\<lambda>a b. the (cmp a b) \<le> 0) (insert_cmp cmp x (foldr (insert_cmp cmp) xs []))"
    using Cons.prems m(2) by (intro sorted_insert_cmp[where S = S]) (rule assms(1), assumption+, rule assms(2), assumption+, simp_all)
  then show ?case using m(1) by simp
qed simp

interpretation ref_sorting: list_sorting ref_sort
proof
  fix cmp :: "'a \<Rightarrow> 'a \<Rightarrow> int option" and xs
  assume tr: "\<And>a b c. the (cmp a b) \<le> 0 \<Longrightarrow> the (cmp b c) \<le> 0 \<Longrightarrow> a \<in> set xs \<Longrightarrow> b \<in> set xs \<Longrightarrow> c \<in> set xs \<Longrightarrow> the (cmp a c) \<le> 0"
    and sy: "\<And>a b. a \<in> set xs \<Longrightarrow> b \<in> set xs \<Longrightarrow> sgn (the (cmp a b)) = - sgn (the (cmp b a))"
  have "mset (foldr (insert_cmp cmp) xs []) = mset xs \<and> sorted_wrt (\<lambda>a b. the (cmp a b) \<le> 0) (foldr (insert_cmp cmp) xs [])"
    by (intro ref_sort_sorted[where S = "set xs"]) (rule tr, assumption+, rule sy, assumption+, rule subset_refl)
  then show "\<exists>ys. ref_sort cmp xs = Some ys \<and> mset ys = mset xs \<and> sorted_wrt (\<lambda>a b. the (cmp a b) \<le> 0) ys"
    by (simp add: ref_sort_def)
qed

end
