(* ===== verification/DhcpLeases.thy ===== *)
theory DhcpLeases
  imports DhcpServer GLibList
begin

text \<open>
  The table of leases of the DHCP server: its view as a map from addresses to clients, the
  invariant that list and hash table agree and that no address and no client occurs twice,
  and the order of the list by expiry. What the server relies on of the sorted insertion is
  the locale \<open>sorted_insertion\<close>; the lemmas about the operations are proved in
  \<open>lease_env\<close>, an environment whose insertion meets it.
\<close>

section \<open>Specification\<close>

text \<open>
  The table as a map from addresses to clients and times, and the invariant: the list and
  the hash table hold the same leases, each once, and no client has two.
\<close>

definition table :: "dhcp_server \<Rightarrow> u32 \<rightharpoonup> u8 list \<times> int" where
  "table s n = (case nip_lease_hash s n of None \<Rightarrow> None
     | Some p \<Rightarrow> map_option (\<lambda>l. (lease_mac l, expire l)) (leases s p))"

definition forget_mac :: "u8 list \<Rightarrow> (u32 \<rightharpoonup> u8 list \<times> int) \<Rightarrow> u32 \<rightharpoonup> u8 list \<times> int" where
  "forget_mac m T = (\<lambda>n. case T n of None \<Rightarrow> None | Some (m', e) \<Rightarrow> if m' = m then None else Some (m', e))"

definition lease_inv :: "dhcp_server \<Rightarrow> bool" where
  "lease_inv s \<longleftrightarrow> distinct (lease_list s) \<and>
     (\<forall>p \<in> set (lease_list s). p < next_lease s \<and>
        (\<exists>l. leases s p = Some l \<and> nip_lease_hash s (lease_nip l) = Some p)) \<and>
     (\<forall>n p. nip_lease_hash s n = Some p \<longrightarrow> p \<in> set (lease_list s) \<and> nip_of s p = n) \<and>
     (\<forall>p \<in> set (lease_list s). \<forall>q \<in> set (lease_list s).
        map_option lease_mac (leases s p) = map_option lease_mac (leases s q) \<longrightarrow> p = q)"

section \<open>Leases taken out and put in\<close>

lemma lease_invD:
  assumes "lease_inv s"
  shows "distinct (lease_list s)"
    and "p \<in> set (lease_list s) \<Longrightarrow> p < next_lease s"
    and "p \<in> set (lease_list s) \<Longrightarrow> \<exists>l. leases s p = Some l \<and> nip_lease_hash s (lease_nip l) = Some p"
    and "nip_lease_hash s n = Some p \<Longrightarrow> p \<in> set (lease_list s)"
    and "nip_lease_hash s n = Some p \<Longrightarrow> nip_of s p = n"
    and "p \<in> set (lease_list s) \<Longrightarrow> q \<in> set (lease_list s) \<Longrightarrow>
      map_option lease_mac (leases s p) = map_option lease_mac (leases s q) \<Longrightarrow> p = q"
  using assms unfolding lease_inv_def by blast+

lemma lease_inv_hash:
  assumes "lease_inv s" "p \<in> set (lease_list s)"
  shows "nip_lease_hash s (nip_of s p) = Some p" and "leases s p \<noteq> None"
  using lease_invD(3)[OF assms] by (auto simp: nip_of_def)

lemma unlink_lease_simps [simp]:
  "lease_list (unlink_lease n p s) = remove1 p (lease_list s)"
  "nip_lease_hash (unlink_lease n p s) = (nip_lease_hash s)(n := None)"
  "leases (unlink_lease n p s) = leases s" "next_lease (unlink_lease n p s) = next_lease s"
  "nip_of (unlink_lease n p s) = nip_of s" "lease_seconds (unlink_lease n p s) = lease_seconds s"
  by (auto simp: unlink_lease_def nip_of_def)

lemma unlink_lease_inv:
  assumes inv: "lease_inv s" and p: "p \<in> set (lease_list s)" and n: "n = nip_of s p"
  shows "lease_inv (unlink_lease n p s)" and "p \<notin> set (lease_list (unlink_lease n p s))"
    and "table (unlink_lease n p s) = (table s)(n := None)"
proof -
  have set: "set (remove1 p (lease_list s)) = set (lease_list s) - {p}"
    using lease_invD(1)[OF inv] by (rule set_remove1_eq)
  have other: "nip_of s q \<noteq> n" if "q \<in> set (lease_list s)" "q \<noteq> p" for q
    using lease_inv_hash(1)[OF inv that(1)] lease_inv_hash(1)[OF inv p] n that(2) by auto
  show "p \<notin> set (lease_list (unlink_lease n p s))" by (simp add: set)
  show "table (unlink_lease n p s) = (table s)(n := None)" by (rule ext) (simp add: table_def split: option.split)
  show "lease_inv (unlink_lease n p s)"
    unfolding lease_inv_def unlink_lease_simps set
  proof (intro conjI ballI allI impI)
    fix q assume q: "q \<in> set (lease_list s) - {p}"
    then obtain l where l: "leases s q = Some l" "nip_lease_hash s (lease_nip l) = Some q"
      using lease_invD(3)[OF inv, of q] by blast
    then have "lease_nip l \<noteq> n" using other[of q] q by (simp add: nip_of_def)
    then show "\<exists>l. leases s q = Some l \<and> ((nip_lease_hash s)(n := None)) (lease_nip l) = Some q"
      using l by simp
  next
    fix m q assume "((nip_lease_hash s)(n := None)) m = Some q"
    then show "q \<in> set (lease_list s) - {p}" "nip_of s q = m"
      using lease_invD(4,5)[OF inv, of m q] n by (auto split: if_splits)
  qed (use lease_invD[OF inv] in \<open>auto intro: distinct_remove1\<close>)
qed

lemma lease_inv_leases:
  assumes "lease_inv s" "p \<notin> set (lease_list s)"
  shows "lease_inv (s\<lparr>leases := (leases s)(p := x)\<rparr>)" and "table (s\<lparr>leases := (leases s)(p := x)\<rparr>) = table s"
proof -
  have ne: "q \<noteq> p" if "q \<in> set (lease_list s)" for q using that assms(2) by blast
  have nip: "nip_of (s\<lparr>leases := (leases s)(p := x)\<rparr>) q = nip_of s q" if "q \<in> set (lease_list s)" for q
    using ne[OF that] by (simp add: nip_of_def)
  show "lease_inv (s\<lparr>leases := (leases s)(p := x)\<rparr>)"
    using assms ne nip unfolding lease_inv_def by auto
  show "table (s\<lparr>leases := (leases s)(p := x)\<rparr>) = table s"
    using lease_invD(4)[OF assms(1)] ne by (intro ext) (fastforce simp: table_def split: option.split)
qed

lemma remove_lease_inv:
  assumes "lease_inv s" "p \<in> set (lease_list s)"
  shows "lease_inv (remove_lease p s)" and "table (remove_lease p s) = (table s)(nip_of s p := None)"
    and "set (lease_list (remove_lease p s)) = set (lease_list s) - {p}"
    and "next_lease (remove_lease p s) = next_lease s"
  using lease_inv_leases[OF unlink_lease_inv(1,2)[OF assms refl], of None] unlink_lease_inv(3)[OF assms refl]
    set_remove1_eq[OF lease_invD(1)[OF assms(1)], of p]
  by (simp_all add: remove_lease_def Let_def)

lemma find_lease_by_mac_Some:
  assumes "find_lease_by_mac s mac = Some p"
  shows "p \<in> set (lease_list s)" and "\<exists>l. leases s p = Some l \<and> lease_mac l = take 6 mac"
  using find_Some_mem[OF assms[unfolded find_lease_by_mac_def]] by auto

lemma table_eq_Some:
  assumes "lease_inv s"
  shows "table s n = Some (m, e) \<longleftrightarrow>
    (\<exists>p l. p \<in> set (lease_list s) \<and> leases s p = Some l \<and> l = \<lparr>expire = e, lease_nip = n, lease_mac = m\<rparr>)"
proof
  assume "table s n = Some (m, e)"
  then obtain p l where pl: "nip_lease_hash s n = Some p" "leases s p = Some l" "lease_mac l = m" "expire l = e"
    by (auto simp: table_def split: option.splits)
  moreover have "lease_nip l = n" using lease_invD(5)[OF assms pl(1)] pl(2) by (simp add: nip_of_def)
  ultimately show "\<exists>p l. p \<in> set (lease_list s) \<and> leases s p = Some l \<and> l = \<lparr>expire = e, lease_nip = n, lease_mac = m\<rparr>"
    using lease_invD(4)[OF assms pl(1)] by (intro exI[of _ p] exI[of _ l]) auto
next
  assume "\<exists>p l. p \<in> set (lease_list s) \<and> leases s p = Some l \<and> l = \<lparr>expire = e, lease_nip = n, lease_mac = m\<rparr>"
  then obtain p where p: "p \<in> set (lease_list s)" "leases s p = Some \<lparr>expire = e, lease_nip = n, lease_mac = m\<rparr>" by blast
  then show "table s n = Some (m, e)" using lease_invD(3)[OF assms p(1)] by (auto simp: table_def)
qed

lemma find_lease_by_mac_None:
  assumes "lease_inv s" "find_lease_by_mac s mac = None"
  shows "forget_mac (take 6 mac) (table s) = table s"
proof
  fix n
  show "forget_mac (take 6 mac) (table s) n = table s n"
  proof (cases "table s n")
    case (Some x)
    obtain m e where x: "x = (m, e)" by fastforce
    then obtain p l where "p \<in> set (lease_list s)" "leases s p = Some l" "lease_mac l = m"
      using Some table_eq_Some[OF assms(1)] by auto
    then have "m \<noteq> take 6 mac" using assms(2) by (auto simp: find_lease_by_mac_def find_None_iff)
    then show ?thesis using Some x by (simp add: forget_mac_def)
  qed (simp add: forget_mac_def)
qed

lemma find_lease_by_mac_table:
  assumes inv: "lease_inv s" and f: "find_lease_by_mac s mac = Some q"
  shows "forget_mac (take 6 mac) (table s) = (table s)(nip_of s q := None)"
proof
  fix n
  obtain l where q: "q \<in> set (lease_list s)" "leases s q = Some l" "lease_mac l = take 6 mac"
    using find_lease_by_mac_Some[OF f] by blast
  show "forget_mac (take 6 mac) (table s) n = ((table s)(nip_of s q := None)) n"
  proof (cases "nip_lease_hash s n")
    case None
    then show ?thesis by (simp add: forget_mac_def table_def)
  next
    case (Some p)
    note p = lease_invD(4,5)[OF inv Some]
    obtain l' where l': "leases s p = Some l'" using lease_inv_hash(2)[OF inv p(1)] by auto
    have "lease_mac l' = take 6 mac \<longleftrightarrow> p = q"
      using lease_invD(6)[OF inv p(1) q(1)] l' q by auto
    moreover have "p = q \<longleftrightarrow> n = nip_of s q" using p(2) Some lease_inv_hash(1)[OF inv q(1)] by (metis option.inject)
    ultimately show ?thesis using Some l' by (simp add: forget_mac_def table_def)
  qed
qed

lemma lease_inv_next:
  "lease_inv s \<Longrightarrow> lease_inv (s\<lparr>next_lease := next_lease s + 1\<rparr>)"
  "table (s\<lparr>next_lease := k\<rparr>) = table s"
  by (auto simp: lease_inv_def nip_of_def table_def fun_eq_iff less_Suc_eq split: option.split)

lemma forget_mac_upd: "forget_mac m (T(n := None)) = (forget_mac m T)(n := None)"
  by (auto simp: forget_mac_def)

text \<open>What \<open>get_lease\<close> leaves: neither the address nor the client has a lease.\<close>

lemma get_lease_inv:
  assumes inv: "lease_inv s" and get: "get_lease env yiaddr mac s = (s1, Inr p)"
  shows "lease_inv s1" "p \<notin> set (lease_list s1)" "p < next_lease s1"
    "table s1 = (forget_mac (take 6 mac) (table s))(ntohl (little_endian env) yiaddr := None)"
    "start_ip s \<le> ntohl (little_endian env) yiaddr" "ntohl (little_endian env) yiaddr \<le> end_ip s"
proof -
  let ?n = "ntohl (little_endian env) yiaddr"
  have ok: "yiaddr \<noteq> 0" "\<not> ?n < start_ip s" "\<not> end_ip s < ?n" "take 6 mac \<noteq> MAC_BCAST_ADDR" "take 6 mac \<noteq> MAC_ANY_ADDR"
    using get by (auto simp: get_lease_def Let_def split: if_splits)
  then show "start_ip s \<le> ?n" "?n \<le> end_ip s" by simp_all
  note g = get[unfolded get_lease_def Let_def, simplified ok if_False]
  have "lease_inv s1 \<and> p \<notin> set (lease_list s1) \<and> p < next_lease s1 \<and>
    table s1 = (forget_mac (take 6 mac) (table s))(?n := None)"
  proof (cases "nip_lease_hash s ?n")
    case None
    show ?thesis
    proof (cases "find_lease_by_mac s mac")
      case fN: None
      then have s1: "s1 = s\<lparr>next_lease := next_lease s + 1\<rparr>" "p = next_lease s"
        using g None by (auto split: if_splits)
      have "p \<notin> set (lease_list s1)" using lease_invD(2)[OF inv, of p] s1 by auto
      moreover have "table s ?n = None" using None by (simp add: table_def)
      then have "table s1 = (forget_mac (take 6 mac) (table s))(?n := None)"
        unfolding s1 lease_inv_next find_lease_by_mac_None[OF inv fN] by (simp add: fun_eq_iff)
      ultimately show ?thesis using lease_inv_next(1)[OF inv] s1 by simp
    next
      case (Some q)
      then have s1: "s1 = unlink_lease (nip_of s q) q s" "p = q" using g None by auto
      note q = find_lease_by_mac_Some(1)[OF Some]
      have "table s1 = (forget_mac (take 6 mac) (table s))(?n := None)"
        using unlink_lease_inv(3)[OF inv q refl] find_lease_by_mac_table[OF inv Some] None s1
        by (auto simp: fun_eq_iff table_def)
      then show ?thesis using unlink_lease_inv(1,2)[OF inv q refl] lease_invD(2)[OF inv q] s1 by simp
    qed
  next
    case (Some r)
    note r = lease_invD(4)[OF inv Some] lease_invD(5)[OF inv Some]
    note u = unlink_lease_inv[OF inv r(1) r(2)[symmetric]]
    show ?thesis
    proof (cases "find_lease_by_mac s mac")
      case None
      then have "s1 = unlink_lease ?n r s" "p = r" using g Some by auto
      then show ?thesis using u lease_invD(2)[OF inv r(1)] find_lease_by_mac_None[OF inv None] by simp
    next
      case fq: (Some q)
      note q = find_lease_by_mac_Some(1)[OF fq]
      show ?thesis
      proof (cases "r = q")
        case True
        then have "s1 = unlink_lease ?n r s" "p = r" using g Some fq by auto
        then show ?thesis using u lease_invD(2)[OF inv r(1)] find_lease_by_mac_table[OF inv fq] True r(2) by simp
      next
        case False
        then have s1: "s1 = remove_lease q (unlink_lease ?n r s)" "p = r" using g Some fq by auto
        have q': "q \<in> set (lease_list (unlink_lease ?n r s))" using q False by (simp add: in_set_remove1)
        note m = remove_lease_inv[OF u(1) q']
        show ?thesis
          using m u(2,3) s1 lease_invD(2)[OF inv r(1)] find_lease_by_mac_table[OF inv fq]
          by (simp add: fun_upd_twist[of ?n] fun_eq_iff)
      qed
    qed
  qed
  then show "lease_inv s1" "p \<notin> set (lease_list s1)" "p < next_lease s1"
    "table s1 = (forget_mac (take 6 mac) (table s))(?n := None)" by blast+
qed

locale lease_env =
  fixes env :: env
  assumes insertion: "sorted_insertion (insert_sorted env)"

sublocale lease_env \<subseteq> sorted_insertion "insert_sorted env"
  by (rule insertion)

context lease_env
begin

lemma link_lease_inv:
  assumes inv: "lease_inv s" and p: "p \<notin> set (lease_list s)" "p < next_lease s"
    and nip: "table s (lease_nip l) = None" and mac: "\<And>n e. table s n \<noteq> Some (lease_mac l, e)"
  shows "lease_inv (link_lease env p l s)" and "table (link_lease env p l s) = (table s)(lease_nip l \<mapsto> (lease_mac l, expire l))"
    and "set (lease_list (link_lease env p l s)) = insert p (set (lease_list s))" and "leases (link_lease env p l s) p = Some l"
proof -
  let ?s = "link_lease env p l s"
  have s: "set (lease_list ?s) = insert p (set (lease_list s))" "distinct (lease_list ?s)"
    "nip_lease_hash ?s = (nip_lease_hash s)(lease_nip l \<mapsto> p)" "leases ?s = (leases s)(p \<mapsto> l)" "next_lease ?s = next_lease s"
    using p lease_invD(1)[OF inv] by (simp_all add: link_lease_def Let_def set_ins distinct_ins)
  have ne: "q \<noteq> p" if "q \<in> set (lease_list s)" for q using that p by blast
  have h: "nip_lease_hash s (lease_nip l) = None"
    using nip lease_invD(4)[OF inv] lease_inv_hash(2)[OF inv] by (fastforce simp: table_def split: option.splits)
  have m: "map_option lease_mac (leases s q) \<noteq> Some (lease_mac l)" if q: "q \<in> set (lease_list s)" for q
  proof
    assume "map_option lease_mac (leases s q) = Some (lease_mac l)"
    then obtain l' where l': "leases s q = Some l'" "lease_mac l' = lease_mac l" by auto
    then have "table s (lease_nip l') = Some (lease_mac l, expire l')"
      using table_eq_Some[OF inv] q by (metis (full_types) dhcp_lease.surjective old.unit.exhaust)
    then show False using mac by blast
  qed
  have nip_of: "nip_of ?s q = nip_of s q" if "q \<in> set (lease_list s)" for q
    using ne[OF that] by (simp add: nip_of_def s)
  show "lease_inv ?s"
    unfolding lease_inv_def s
  proof (intro conjI ballI allI impI)
    show "distinct (lease_list ?s)" by (rule s(2))
  next
    fix q assume q: "q \<in> insert p (set (lease_list s))"
    then show "q < next_lease s" using p lease_invD(2)[OF inv] by blast
    show "\<exists>la. ((leases s)(p \<mapsto> l)) q = Some la \<and> ((nip_lease_hash s)(lease_nip l \<mapsto> p)) (lease_nip la) = Some q"
    proof (cases "q = p")
      case False
      then obtain la where la: "leases s q = Some la" "nip_lease_hash s (lease_nip la) = Some q"
        using q lease_invD(3)[OF inv, of q] by blast
      then have "lease_nip la \<noteq> lease_nip l" using h by auto
      then show ?thesis using False la by simp
    qed simp
  next
    fix n q assume "((nip_lease_hash s)(lease_nip l \<mapsto> p)) n = Some q"
    then consider "n = lease_nip l" "q = p" | "nip_lease_hash s n = Some q"
      by (metis fun_upd_apply option.inject)
    then have "q \<in> insert p (set (lease_list s)) \<and> nip_of ?s q = n"
    proof cases
      case 1
      then show ?thesis by (simp add: nip_of_def s)
    next
      case 2
      then show ?thesis using lease_invD(4,5)[OF inv, of n q] nip_of[of q] by simp
    qed
    then show "q \<in> insert p (set (lease_list s))" "nip_of ?s q = n" by blast+
  next
    fix q r assume q: "q \<in> insert p (set (lease_list s))" "r \<in> insert p (set (lease_list s))"
      and e: "map_option lease_mac (((leases s)(p \<mapsto> l)) q) = map_option lease_mac (((leases s)(p \<mapsto> l)) r)"
    show "q = r"
    proof (cases "q = p \<or> r = p")
      case True
      then show ?thesis using q e m[of q] m[of r] by (metis fun_upd_apply insertE option.map(2))
    next
      case False
      then show ?thesis using q e lease_invD(6)[OF inv, of q r] by simp
    qed
  qed
  show "table ?s = (table s)(lease_nip l \<mapsto> (lease_mac l, expire l))"
  proof
    fix n
    show "table ?s n = ((table s)(lease_nip l \<mapsto> (lease_mac l, expire l))) n"
      using lease_invD(4)[OF inv, of n] ne by (auto simp: table_def s split: option.splits)
  qed
  show "set (lease_list ?s) = insert p (set (lease_list s))" "leases ?s p = Some l" using s by simp_all
qed

lemma add_lease_spec:
  assumes inv: "lease_inv s" and add: "add_lease env exp chaddr yiaddr s = (s', Some p)"
  defines "n \<equiv> ntohl (little_endian env) yiaddr" and "m \<equiv> take 6 chaddr"
    and "e \<equiv> (if exp = 0 then now env + uint (lease_seconds s) else uint exp)"
  shows "lease_inv s'" "table s' = (forget_mac m (table s))(n \<mapsto> (m, e))" "start_ip s \<le> n" "n \<le> end_ip s"
    "p \<in> set (lease_list s')" "leases s' p = Some \<lparr>expire = e, lease_nip = n, lease_mac = m\<rparr>"
proof -
  obtain s1 where g: "get_lease env yiaddr chaddr s = (s1, Inr p)"
    and s': "s' = link_lease env p \<lparr>expire = (if exp = 0 then now env + uint (lease_seconds s1) else uint exp),
      lease_nip = n, lease_mac = m\<rparr> s1"
    using add unfolding add_lease_def n_def m_def by (auto split: prod.splits sum.splits)
  have ls: "lease_seconds s1 = lease_seconds s"
    using g unfolding get_lease_def
    by (auto simp: Let_def remove_lease_def split: if_splits option.splits)
  let ?l = "\<lparr>expire = e, lease_nip = n, lease_mac = m\<rparr>"
  note gi = get_lease_inv[OF inv g, folded n_def m_def]
  have s'': "s' = link_lease env p ?l s1" unfolding s' e_def ls ..
  have "table s1 (lease_nip ?l) = None" "\<And>k x. table s1 k \<noteq> Some (lease_mac ?l, x)"
    unfolding gi(4) by (auto simp: forget_mac_def split: option.split)
  note li = link_lease_inv[OF gi(1-3) this]
  show "lease_inv s'" "p \<in> set (lease_list s')" "leases s' p = Some ?l" using li s'' by simp_all
  show "table s' = (forget_mac m (table s))(n \<mapsto> (m, e))" using li(2) s'' gi(4) by simp
  show "start_ip s \<le> n" "n \<le> end_ip s" using gi by simp_all
qed

lemma add_lease_inv:
  assumes "lease_inv s"
  shows "lease_inv (fst (add_lease env exp chaddr yiaddr s))"
proof (cases "add_lease env exp chaddr yiaddr s")
  case (Pair s' r)
  show ?thesis
  proof (cases r)
    case None
    then have "s' = s"
      using Pair unfolding add_lease_def get_lease_def
      by (auto simp: Let_def split: prod.splits sum.splits if_splits option.splits)
    then show ?thesis using Pair assms by simp
  next
    case (Some p)
    then show ?thesis using add_lease_spec(1)[OF assms] Pair by simp
  qed
qed

end

text \<open>The ways a message changes the table.\<close>

lemma send_offer_state:
  assumes "send_offer env packet lease nip s = Some (s', outs)"
  shows "s' = s \<or> (\<exists>c y. s' = fst (add_lease env OFFER_TIME c y s))"
  using assms unfolding send_offer_def Let_def
  by (auto simp: bind_eq_Some_conv split: if_splits prod.splits option.splits) (metis fst_conv)+

lemma send_ACK_state:
  assumes "send_ACK env packet d s = Some (s', outs)"
  shows "\<exists>c y. s' = fst (add_lease env 0 c y s)"
  using assms unfolding send_ACK_def Let_def by (auto simp: bind_eq_Some_conv)

lemma handle_message_cases:
  assumes "handle_message env packet type sid rip nip s = Some (s', outs)"
  obtains (same) "s' = s"
    | (add) exp c y where "exp \<in> {0, OFFER_TIME}" "s' = fst (add_lease env exp c y s)"
    | (remove) p where "p \<in> set (lease_list s)" "s' = remove_lease p s"
    | (expire) p where "p \<in> set (lease_list s)" "s' = lease_set_expire env p (word_of_int (now env)) s"
proof -
  have "s' = s \<or> (\<exists>exp c y. exp \<in> {0, OFFER_TIME} \<and> s' = fst (add_lease env exp c y s)) \<or>
    (\<exists>p \<in> set (lease_list s). s' = remove_lease p s \<or> s' = lease_set_expire env p (word_of_int (now env)) s)"
    using assms unfolding handle_message_def Let_def
    by (auto split: if_splits option.splits dest!: find_lease_by_mac_Some(1) send_offer_state send_ACK_state)
  then show ?thesis using that by blast
qed

lemma listener_event_cases:
  assumes "listener_event env input s = Some (s', outs, b)"
  obtains (same) "s' = s" | (watch) "s' = s\<lparr>listener_watch := False\<rparr>"
    | (handled) packet type sid rip nip where "handle_message env packet type sid rip nip s = Some (s', outs)"
proof -
  have "s' = s \<or> s' = s\<lparr>listener_watch := False\<rparr> \<or>
    (\<exists>packet type sid rip nip. handle_message env packet type sid rip nip s = Some (s', outs))"
    using assms unfolding listener_event_def Let_def
    by (auto simp: bind_eq_Some_conv split: listener_input.splits sum.splits if_splits)
  then show ?thesis using that by blast
qed

lemma lease_inv_cong:
  assumes "lease_list s' = lease_list s" "leases s' = leases s" "nip_lease_hash s' = nip_lease_hash s"
    "next_lease s' = next_lease s"
  shows "lease_inv s' \<longleftrightarrow> lease_inv s"
  by (simp add: lease_inv_def nip_of_def assms)

context lease_env
begin

lemma lease_set_expire_inv:
  assumes inv: "lease_inv s" and p: "p \<in> set (lease_list s)"
  shows "lease_inv (lease_set_expire env p e s)"
    and "set (lease_list (lease_set_expire env p e s)) = set (lease_list s)"
proof -
  let ?s = "lease_set_expire env p e s"
  have s: "set (lease_list ?s) = set (lease_list s)" "distinct (lease_list ?s)"
    "nip_lease_hash ?s = nip_lease_hash s" "next_lease ?s = next_lease s"
    "leases ?s = (leases s)(p := map_option (\<lambda>l. l\<lparr>expire := uint e\<rparr>) (leases s p))"
    using p lease_invD(1)[OF inv] by (auto simp: lease_set_expire_def Let_def set_ins distinct_ins)
  have l: "map_option lease_mac (leases ?s q) = map_option lease_mac (leases s q)" "nip_of ?s q = nip_of s q" for q
    by (auto simp: s nip_of_def option.map_comp comp_def split: option.split)
  have n: "\<exists>l. leases ?s q = Some l \<and> nip_lease_hash s (lease_nip l) = Some q" if q: "q \<in> set (lease_list s)" for q
    using lease_invD(3)[OF inv q] by (auto simp: s)
  show "lease_inv ?s"
    unfolding lease_inv_def s(1,3,4) l using s(2) n lease_invD[OF inv] by blast
  show "set (lease_list ?s) = set (lease_list s)" by (rule s)
qed

lemma handle_message_inv:
  assumes inv: "lease_inv s" and h: "handle_message env packet type sid rip nip s = Some (s', outs)"
  shows "lease_inv s'"
  using handle_message_cases[OF h]
  by cases (simp_all add: inv add_lease_inv[OF inv] remove_lease_inv(1)[OF inv] lease_set_expire_inv(1)[OF inv])

lemma listener_event_inv:
  assumes inv: "lease_inv s" and e: "listener_event env input s = Some (s', outs, b)"
  shows "lease_inv s'"
  using e
proof (cases rule: listener_event_cases)
  case watch
  then show ?thesis using inv lease_inv_cong[of s' s] by simp
next
  case (handled packet type sid rip nip)
  then show ?thesis by (rule handle_message_inv[OF inv])
qed (simp add: inv)

end

section \<open>Reachable servers\<close>

text \<open>
  The servers that calls of the interface and messages reach, when every message is handled
  in an environment that is \<open>ok\<close> for the server.
\<close>

inductive server_reach :: "(env \<Rightarrow> dhcp_server \<Rightarrow> bool) \<Rightarrow> dhcp_server \<Rightarrow> bool" for ok where
  reach_new: "g_dhcp_server_new env index name up address = Inr s \<Longrightarrow> server_reach ok s"
| reach_event: "server_reach ok s \<Longrightarrow> ok env s \<Longrightarrow> listener_event env input s = Some (s', outs, b) \<Longrightarrow> server_reach ok s'"
| reach_start: "server_reach ok s \<Longrightarrow> server_reach ok (fst (g_dhcp_server_start sock chan s))"
| reach_set_option: "server_reach ok s \<Longrightarrow> server_reach ok (fst (g_dhcp_server_set_option env code val s))"
| reach_set_save: "server_reach ok s \<Longrightarrow> server_reach ok (g_dhcp_server_set_save_lease f s)"
| reach_set_cb: "server_reach ok s \<Longrightarrow> server_reach ok (g_dhcp_server_set_lease_added_cb f s)"
| reach_ref: "server_reach ok s \<Longrightarrow> server_reach ok (g_dhcp_server_ref s)"
| reach_unref: "server_reach ok s \<Longrightarrow> g_dhcp_server_unref s = (Some s', outs) \<Longrightarrow> server_reach ok s'"
| reach_stop: "server_reach ok s \<Longrightarrow> server_reach ok (fst (g_dhcp_server_stop s))"
| reach_range: "server_reach ok s \<Longrightarrow> server_reach ok (fst (g_dhcp_server_set_ip_range env a b s))"
| reach_lease_time: "server_reach ok s \<Longrightarrow> server_reach ok (g_dhcp_server_set_lease_time t s)"

text \<open>The calls of the interface leave the table alone.\<close>

definition same_table :: "dhcp_server \<Rightarrow> dhcp_server \<Rightarrow> bool" where
  "same_table s s' \<longleftrightarrow> lease_list s' = lease_list s \<and> leases s' = leases s \<and>
     nip_lease_hash s' = nip_lease_hash s \<and> next_lease s' = next_lease s"

lemma same_table_calls:
  "same_table s (fst (g_dhcp_server_start sock chan s))"
  "same_table s (fst (g_dhcp_server_set_option env code val s))"
  "same_table s (g_dhcp_server_set_save_lease f s)"
  "same_table s (g_dhcp_server_set_lease_added_cb f s)"
  "same_table s (g_dhcp_server_ref s)"
  "g_dhcp_server_unref s = (Some s', outs) \<Longrightarrow> same_table s s'"
  "same_table s (fst (g_dhcp_server_stop s))"
  "same_table s (fst (g_dhcp_server_set_ip_range env a b s))"
  "same_table s (g_dhcp_server_set_lease_time t s)"
  by (auto simp: same_table_def g_dhcp_server_start_def g_dhcp_server_set_option_def g_dhcp_server_set_save_lease_def
    g_dhcp_server_set_lease_added_cb_def g_dhcp_server_ref_def g_dhcp_server_unref_def g_dhcp_server_stop_def
    g_dhcp_server_set_ip_range_def g_dhcp_server_set_lease_time_def Let_def split: option.split if_splits)

lemma server_reach_inv:
  assumes ok: "\<And>env s. ok env s \<Longrightarrow> lease_env env" and r: "server_reach ok s"
  shows "lease_inv s"
proof -
  have t: "lease_inv s'" if "same_table s s'" "lease_inv s" for s s'
    using lease_inv_cong that unfolding same_table_def by blast
  show ?thesis
    using r
  proof induction
    case (reach_new env index name up address s)
    then show ?case by (auto simp: g_dhcp_server_new_def lease_inv_def split: if_splits)
  next
    case (reach_event s env input s' outs b)
    then show ?case using lease_env.listener_event_inv[OF ok] by blast
  qed (blast intro: same_table_calls[THEN t])+
qed

section \<open>The order of the list\<close>

text \<open>
  The list is sorted with the latest expiry first, as long as the times fit into 31 bits, so
  that the difference of two times does.
\<close>

definition lease_sorted :: "dhcp_server \<Rightarrow> bool" where
  "lease_sorted s \<longleftrightarrow> (\<forall>p l. leases s p = Some l \<longrightarrow> 0 \<le> expire l \<and> expire l < 2 ^ 31) \<and>
     sorted_wrt (\<lambda>a b. expire_of s b \<le> expire_of s a) (lease_list s)"

lemma lease_sorted_times: "lease_sorted s \<Longrightarrow> 0 \<le> expire_of s p \<and> expire_of s p < 2 ^ 31"
  by (auto simp: lease_sorted_def expire_of_def split: option.split)

lemma sint_small: "- (2 ^ 31) \<le> k \<Longrightarrow> k < 2 ^ 31 \<Longrightarrow> sint (word_of_int k :: 32 word) = k"
  by (simp add: signed_of_int signed_take_bit_int_eq_self)

lemma compare_expire_exact:
  assumes "\<And>p. 0 \<le> expire_of s p \<and> expire_of s p < 2 ^ 31"
  shows "compare_expire s a b = expire_of s b - expire_of s a"
proof -
  have "- (2 ^ 31) \<le> expire_of s b - expire_of s a" "expire_of s b - expire_of s a < 2 ^ 31"
    using assms[of a] assms[of b] by linarith+
  then show ?thesis unfolding compare_expire_def by (rule sint_small)
qed

lemma sorted_wrt_cong_set:
  "sorted_wrt P xs \<Longrightarrow> (\<And>a b. a \<in> set xs \<Longrightarrow> b \<in> set xs \<Longrightarrow> P a b \<Longrightarrow> Q a b) \<Longrightarrow> sorted_wrt Q xs"
  by (induction xs) auto

lemma lease_sorted_unlink: "lease_sorted s \<Longrightarrow> lease_sorted (unlink_lease n p s)"
  by (auto simp: lease_sorted_def expire_of_def unlink_lease_def intro: sorted_wrt_remove1)

lemma lease_sorted_next: "lease_sorted s \<Longrightarrow> lease_sorted (s\<lparr>next_lease := k\<rparr>)"
  by (simp add: lease_sorted_def expire_of_def)

lemma lease_sorted_remove:
  assumes "lease_sorted s" "distinct (lease_list s)"
  shows "lease_sorted (remove_lease p s)"
proof -
  have "p \<notin> set (remove1 p (lease_list s))" using assms(2) by simp
  moreover have "sorted_wrt (\<lambda>a b. expire_of s b \<le> expire_of s a) (remove1 p (lease_list s))"
    using assms(1) by (auto simp: lease_sorted_def intro: sorted_wrt_remove1)
  ultimately have "sorted_wrt (\<lambda>a b. expire_of (remove_lease p s) b \<le> expire_of (remove_lease p s) a) (remove1 p (lease_list s))"
    by (elim sorted_wrt_cong_set) (auto simp: expire_of_def remove_lease_def Let_def)
  then show ?thesis
    using assms(1) by (auto simp: lease_sorted_def remove_lease_def Let_def split: if_splits)
qed

lemma get_lease_sorted:
  assumes "lease_sorted s" "lease_inv s" "get_lease env y m s = (s1, r)"
  shows "lease_sorted s1"
  using assms lease_invD(1)[OF assms(2)] unfolding get_lease_def Let_def
  by (auto split: if_splits option.splits intro!: lease_sorted_unlink lease_sorted_next lease_sorted_remove distinct_remove1)

context lease_env
begin

text \<open>Insertion of a lease that is not in the list.\<close>

lemma insert_lease_sorted:
  assumes t: "\<And>p l. leases s p = Some l \<Longrightarrow> 0 \<le> expire l \<and> expire l < 2 ^ 31"
    and s: "sorted_wrt (\<lambda>a b. expire_of s b \<le> expire_of s a) (lease_list s)"
  shows "lease_sorted (s\<lparr>lease_list := insert_sorted env (lease_list s) p (compare_expire s)\<rparr>)"
proof -
  have e: "compare_expire s a b = expire_of s b - expire_of s a" for a b
    by (rule compare_expire_exact) (use t in \<open>auto simp: expire_of_def split: option.split\<close>)
  have "sorted_wrt (\<lambda>a b. compare_expire s a b \<le> 0) (insert_sorted env (lease_list s) p (compare_expire s))"
    by (rule sorted_ins) (use s in \<open>auto simp: e\<close>)
  then have "sorted_wrt (\<lambda>a b. expire_of s b \<le> expire_of s a) (insert_sorted env (lease_list s) p (compare_expire s))"
    by (simp add: e)
  then show ?thesis using t by (simp add: lease_sorted_def expire_of_def)
qed

lemma link_lease_sorted:
  assumes "lease_sorted s" "p \<notin> set (lease_list s)" "0 \<le> expire l" "expire l < 2 ^ 31"
  shows "lease_sorted (link_lease env p l s)"
proof -
  let ?s = "s\<lparr>leases := (leases s)(p \<mapsto> l)\<rparr>"
  have "sorted_wrt (\<lambda>a b. expire_of s b \<le> expire_of s a) (lease_list s)" using assms(1) by (simp add: lease_sorted_def)
  then have "sorted_wrt (\<lambda>a b. expire_of ?s b \<le> expire_of ?s a) (lease_list ?s)"
    using assms(2) by simp (elim sorted_wrt_cong_set, auto simp: expire_of_def)
  moreover have "0 \<le> expire l' \<and> expire l' < 2 ^ 31" if "leases ?s q = Some l'" for q l'
    using that assms by (auto simp: lease_sorted_def split: if_splits)
  ultimately have "lease_sorted (?s\<lparr>lease_list := insert_sorted env (lease_list ?s) p (compare_expire ?s)\<rparr>)"
    by (intro insert_lease_sorted) auto
  then show ?thesis by (simp add: link_lease_def Let_def lease_sorted_def expire_of_def)
qed

lemma lease_set_expire_sorted:
  assumes "lease_sorted s" "distinct (lease_list s)" "uint e < 2 ^ 31"
  shows "lease_sorted (lease_set_expire env p e s)"
proof -
  let ?s = "s\<lparr>lease_list := remove1 p (lease_list s), leases := (leases s)(p := map_option (\<lambda>l. l\<lparr>expire := uint e\<rparr>) (leases s p))\<rparr>"
  have "sorted_wrt (\<lambda>a b. expire_of s b \<le> expire_of s a) (remove1 p (lease_list s))"
    using assms(1) by (auto simp: lease_sorted_def intro: sorted_wrt_remove1)
  then have "sorted_wrt (\<lambda>a b. expire_of ?s b \<le> expire_of ?s a) (lease_list ?s)"
    using assms(2) by simp (elim sorted_wrt_cong_set, auto simp: expire_of_def)
  moreover have "0 \<le> expire l' \<and> expire l' < 2 ^ 31" if "leases ?s q = Some l'" for q l'
    using that assms by (auto simp: lease_sorted_def split: if_splits)
  ultimately have "lease_sorted (?s\<lparr>lease_list := insert_sorted env (lease_list ?s) p (compare_expire ?s)\<rparr>)"
    by (intro insert_lease_sorted) auto
  then show ?thesis by (simp add: lease_set_expire_def Let_def)
qed

lemma add_lease_sorted:
  assumes "lease_sorted s" "lease_inv s" "exp \<noteq> 0 \<Longrightarrow> uint exp < 2 ^ 31"
    and "0 \<le> now env" "now env + uint (lease_seconds s) < 2 ^ 31"
  shows "lease_sorted (fst (add_lease env exp c y s))"
proof (cases "get_lease env y c s")
  case (Pair s1 r)
  note g = get_lease_sorted[OF assms(1,2) Pair]
  show ?thesis
  proof (cases r)
    case (Inl e)
    then show ?thesis using Pair g by (simp add: add_lease_def)
  next
    case (Inr p)
    have "lease_seconds s1 = lease_seconds s"
      using Pair unfolding get_lease_def
      by (auto simp: Let_def remove_lease_def split: if_splits option.splits)
    then show ?thesis
      using Pair Inr g get_lease_inv(2)[OF assms(2) Pair[unfolded Inr]] assms(3-5)
      by (auto simp: add_lease_def intro!: link_lease_sorted)
  qed
qed

end

section \<open>Sortedness of reachable servers\<close>

lemma lease_sorted_cong:
  "lease_list s' = lease_list s \<Longrightarrow> leases s' = leases s \<Longrightarrow> lease_sorted s' \<longleftrightarrow> lease_sorted s"
  by (simp add: lease_sorted_def expire_of_def)

context lease_env
begin

lemma listener_event_sorted:
  assumes s: "lease_sorted s" and inv: "lease_inv s" and e: "listener_event env input s = Some (s', outs, b)"
    and t: "0 \<le> now env" "now env + uint (lease_seconds s) < 2 ^ 31"
  shows "lease_sorted s'"
  using e
proof (cases rule: listener_event_cases)
  case watch
  then show ?thesis using s lease_sorted_cong[of s' s] by simp
next
  case (handled packet type sid rip nip)
  have now: "now env < 2 ^ 31" using t by (metis add.commute le_add_same_cancel2 order_le_less_trans uint_nonnegative)
  note d = lease_invD(1)[OF inv]
  from handled show ?thesis
  proof (cases rule: handle_message_cases)
    case (add exp c y)
    then show ?thesis using add_lease_sorted[OF s inv _ t, of exp c y] by auto
  next
    case (remove p)
    then show ?thesis using lease_sorted_remove[OF s d] by simp
  next
    case (expire p)
    then show ?thesis using lease_set_expire_sorted[OF s d, of "word_of_int (now env)" p] t(1) now by (simp add: uint_word_of_int)
  qed (simp add: s)
qed (simp add: s)

end

definition env_times_ok :: "env \<Rightarrow> dhcp_server \<Rightarrow> bool" where
  "env_times_ok env s \<longleftrightarrow> lease_env env \<and> 0 \<le> now env \<and> now env + uint (lease_seconds s) < 2 ^ 31"

lemma server_reach_sorted:
  assumes "server_reach env_times_ok s"
  shows "lease_inv s \<and> lease_sorted s"
proof -
  have t: "lease_sorted s'" if "same_table s s'" "lease_sorted s" for s s'
    using lease_sorted_cong that unfolding same_table_def by blast
  have "lease_sorted s"
    using assms
  proof induction
    case (reach_new env index name up address s)
    then show ?case by (auto simp: g_dhcp_server_new_def lease_sorted_def split: if_splits)
  next
    case (reach_event s env input s' outs b)
    then show ?case
      using lease_env.listener_event_sorted[of env s] server_reach_inv[of env_times_ok s] unfolding env_times_ok_def by blast
  qed (blast intro: same_table_calls[THEN t])+
  then show ?thesis using server_reach_inv[OF _ assms] unfolding env_times_ok_def by blast
qed

end
