(* ===== verification/DhcpExchange.thy ===== *)
theory DhcpExchange
  imports DhcpLeases
begin

text \<open>
  The exchanges between the DHCP server and its clients: the search for an address, the
  packets of the replies, and the properties of offers, requests and releases.
\<close>

section \<open>The search for an address\<close>

definition free_nip :: "dhcp_server \<Rightarrow> u32 \<Rightarrow> bool" where
  "free_nip s n \<longleftrightarrow> n AND 0xff \<noteq> 0 \<and> n AND 0xff \<noteq> 0xff \<and> nip_lease_hash s n = None"

lemma find_free_nip_unfold:
  "find_free_nip env s m ip = (if end_ip s < ip then Some None else if free_nip s ip then Some (Some ip)
     else find_free_nip env s m (ip + 1))"
  by (subst find_free_nip.simps) (auto simp: free_nip_def find_lease_by_nip_def arp_check_def)

lemma find_free_nip_result:
  assumes "end_ip s < 0xffffffff"
  shows "\<exists>r. find_free_nip env s m ip = Some r \<and>
    (case r of None \<Rightarrow> \<forall>b. ip \<le> b \<and> b \<le> end_ip s \<longrightarrow> \<not> free_nip s b
     | Some a \<Rightarrow> ip \<le> a \<and> a \<le> end_ip s \<and> free_nip s a \<and> (\<forall>b. ip \<le> b \<and> b < a \<longrightarrow> \<not> free_nip s b))"
proof (induction "unat (end_ip s) + 1 - unat ip" arbitrary: ip)
  case 0
  then have "end_ip s < ip" by (simp add: word_less_nat_alt)
  then show ?case by (subst find_free_nip_unfold) auto
next
  case (Suc k)
  show ?case
  proof (cases "end_ip s < ip \<or> free_nip s ip")
    case True
    then show ?thesis by (subst find_free_nip_unfold) (auto simp: not_less)
  next
    case False
    then have ip: "ip \<le> end_ip s" "\<not> free_nip s ip" by auto
    have "unat ip < 2 ^ 32 - 1" using ip(1) assms by (simp add: word_le_nat_alt word_less_nat_alt)
    then have u: "unat (ip + 1) = unat ip + 1" by (simp add: unat_word_ariths)
    then have "k = unat (end_ip s) + 1 - unat (ip + 1)" using Suc(2) by linarith
    from Suc(1)[OF this] obtain r where r: "find_free_nip env s m (ip + 1) = Some r"
      "case r of None \<Rightarrow> \<forall>b. ip + 1 \<le> b \<and> b \<le> end_ip s \<longrightarrow> \<not> free_nip s b
       | Some a \<Rightarrow> ip + 1 \<le> a \<and> a \<le> end_ip s \<and> free_nip s a \<and> (\<forall>b. ip + 1 \<le> b \<and> b < a \<longrightarrow> \<not> free_nip s b)"
      by blast
    have le: "ip \<le> b \<longleftrightarrow> b = ip \<or> ip + 1 \<le> b" for b
      using u by (auto simp: word_le_nat_alt unat_inj_word)
    have "find_free_nip env s m ip = Some r" using False r(1) by (subst find_free_nip_unfold) simp
    then show ?thesis using r(2) ip le by (intro exI[of _ r]) (auto split: option.splits)
  qed
qed

section \<open>Replies\<close>

text \<open>Adding a typed option always returns; the options before stay where they are.\<close>

lemma dhcp_add_option_uint32_total:
  assumes "packet_opts p opts" "c \<in> {DHCP_SUBNET, DHCP_ROUTER, DHCP_DNS_SERVER, DHCP_LEASE_TIME, DHCP_SERVER_ID}"
  shows "\<exists>q ys. dhcp_add_option_uint32 le p c v = Some q \<and> packet_opts q (opts @ ys) \<and> q\<lparr>pkt_options := pkt_options p\<rparr> = p"
proof (cases "length (encode_opts opts) + 7 < 308")
  case True
  have "check_option c 4 \<noteq> (OPTION_UNKNOWN, False)" "c \<noteq> DHCP_PADDING" "c \<noteq> DHCP_END" "c \<noteq> DHCP_OPTION_OVERLOAD"
    using assms(2) check_option_codes by auto
  from dhcp_add_option_uint32_opts[OF assms(1) True this] show ?thesis by blast
next
  case False
  obtain rest where rest: "pkt_options p = encode_opts opts @ DHCP_END # rest" by (rule packet_opts_split[OF assms(1)])
  have "dhcp_end_option (pkt_options p) = Some (length (encode_opts opts))"
    using dhcp_end_option_loop_encoded[of opts "pkt_options p" "[]" rest 0] assms(1) rest
    by (simp add: dhcp_end_option_def packet_opts_def)
  then have "dhcp_add_option_uint32 le p c v = Some p"
    using False by (simp add: dhcp_add_option_uint32_def dhcp_add_binary_option_def Let_def)
  then show ?thesis using assms(1) by (intro exI[of _ p] exI[of _ "[]"]) simp
qed

lemma pkt_fields_keep:
  assumes "q\<lparr>pkt_options := pkt_options p\<rparr> = p"
  shows "pkt_op q = pkt_op p" "pkt_xid q = pkt_xid p" "pkt_flags q = pkt_flags p" "pkt_ciaddr q = pkt_ciaddr p"
    "pkt_yiaddr q = pkt_yiaddr p" "pkt_chaddr q = pkt_chaddr p"
  using arg_cong[OF assms, of pkt_op] arg_cong[OF assms, of pkt_xid] arg_cong[OF assms, of pkt_flags]
    arg_cong[OF assms, of pkt_ciaddr] arg_cong[OF assms, of pkt_yiaddr] arg_cong[OF assms, of pkt_chaddr] by simp_all

lemma add_options_total:
  assumes "packet_opts p opts"
  shows "\<exists>q ys. add_options env h cs p = Some q \<and> packet_opts q (opts @ ys) \<and> q\<lparr>pkt_options := pkt_options p\<rparr> = p"
  using assms
proof (induction cs arbitrary: p opts)
  case Nil
  then show ?case by (intro exI[of _ p] exI[of _ "[]"]) simp
next
  case (Cons c cs)
  have "\<exists>q ys. add_option env c v p = Some q \<and> packet_opts q (opts @ ys) \<and> q\<lparr>pkt_options := pkt_options p\<rparr> = p" for v
    using dhcp_add_option_uint32_total[OF Cons.prems, of c] Cons.prems
    by (auto simp: add_option_def split: option.split intro!: exI[of _ "[]"])
  then obtain q ys where q: "(case h c of None \<Rightarrow> Some p | Some v \<Rightarrow> add_option env c v p) = Some q"
    "packet_opts q (opts @ ys)" "q\<lparr>pkt_options := pkt_options p\<rparr> = p"
    using Cons.prems by (cases "h c") (force intro: exI[of _ "[]"])+
  from Cons.IH[OF q(2)] obtain r zs where r: "add_options env h cs q = Some r" "packet_opts r ((opts @ ys) @ zs)"
    "r\<lparr>pkt_options := pkt_options q\<rparr> = q" by blast
  have "r\<lparr>pkt_options := pkt_options p\<rparr> = r\<lparr>pkt_options := pkt_options q\<rparr>\<lparr>pkt_options := pkt_options p\<rparr>" by simp
  also have "\<dots> = p" unfolding r(3) by (rule q(3))
  finally have "r\<lparr>pkt_options := pkt_options p\<rparr> = p" .
  then show ?case using q(1) r by (cases "h c") (auto intro!: exI[of _ r])
qed

lemma packet_opts_fields:
  assumes "packet_opts p opts" "length ch = 16"
  shows "packet_opts (p\<lparr>pkt_xid := x, pkt_chaddr := ch, pkt_flags := f, pkt_gateway_nip := g, pkt_ciaddr := c\<rparr>) opts"
    and "packet_opts (p\<lparr>pkt_yiaddr := y\<rparr>) opts"
  using assms by (simp_all add: packet_opts_def packet_wf_def)

lemma init_packet_total:
  assumes "packet_wf c"
  shows "\<exists>p. init_packet env s c type = Some p \<and>
    packet_opts p [(DHCP_MESSAGE_TYPE, [type]), (DHCP_SERVER_ID, put_be32 (little_endian env) (ntohl (little_endian env) (server_nip s)))] \<and>
    pkt_chaddr p = pkt_chaddr c \<and> pkt_xid p = pkt_xid c \<and> pkt_ciaddr p = pkt_ciaddr c \<and> pkt_flags p = pkt_flags c"
proof -
  let ?le = "little_endian env"
  obtain h where h: "dhcp_init_header ?le type = Some h" "packet_opts h [(DHCP_MESSAGE_TYPE, [type])]"
    using dhcp_init_header_opts by blast
  let ?h = "h\<lparr>pkt_xid := pkt_xid c, pkt_chaddr := pkt_chaddr c, pkt_flags := pkt_flags c,
    pkt_gateway_nip := pkt_gateway_nip c, pkt_ciaddr := pkt_ciaddr c\<rparr>"
  have "packet_opts ?h [(DHCP_MESSAGE_TYPE, [type])]"
    by (rule packet_opts_fields[OF h(2)]) (use assms in \<open>simp add: packet_wf_def\<close>)
  from dhcp_add_option_uint32_opts[OF this, of DHCP_SERVER_ID ?le] check_option_codes(2) obtain p where
    p: "dhcp_add_option_uint32 ?le ?h DHCP_SERVER_ID (ntohl ?le (server_nip s)) = Some p"
      "packet_opts p [(DHCP_MESSAGE_TYPE, [type]), (DHCP_SERVER_ID, put_be32 ?le (ntohl ?le (server_nip s)))]"
      "p\<lparr>pkt_options := pkt_options ?h\<rparr> = ?h" by auto
  from pkt_fields_keep[OF p(3)] p h(1) show ?thesis
    by (intro exI[of _ p]) (simp add: init_packet_def)
qed

text \<open>A reply with an address: type, server and lease time, in this order, and the address.\<close>

definition reply_ok :: "env \<Rightarrow> dhcp_server \<Rightarrow> dhcp_packet \<Rightarrow> u8 \<Rightarrow> u32 \<Rightarrow> dhcp_packet \<Rightarrow> bool" where
  "reply_ok env s c type nip p \<longleftrightarrow> (\<exists>ys. packet_opts p ([(DHCP_MESSAGE_TYPE, [type]),
     (DHCP_SERVER_ID, put_be32 (little_endian env) (ntohl (little_endian env) (server_nip s))),
     (DHCP_LEASE_TIME, put_be32 (little_endian env) (lease_seconds s))] @ ys)) \<and>
   pkt_chaddr p = pkt_chaddr c \<and> pkt_xid p = pkt_xid c \<and> pkt_yiaddr p = htonl (little_endian env) nip"

lemma reply_total:
  assumes "packet_wf c"
  shows "\<exists>i p q. init_packet env s c type = Some i \<and> pkt_chaddr i = pkt_chaddr c \<and>
    dhcp_add_option_uint32 (little_endian env) (i\<lparr>pkt_yiaddr := htonl (little_endian env) nip\<rparr>) DHCP_LEASE_TIME (lease_seconds s) = Some p \<and>
    add_options env h cs p = Some q \<and> reply_ok env s c type nip q"
proof -
  let ?le = "little_endian env"
  obtain i where i: "init_packet env s c type = Some i" "pkt_chaddr i = pkt_chaddr c" "pkt_xid i = pkt_xid c"
    "packet_opts i [(DHCP_MESSAGE_TYPE, [type]), (DHCP_SERVER_ID, put_be32 ?le (ntohl ?le (server_nip s)))]"
    using init_packet_total[OF assms] by blast
  let ?i = "i\<lparr>pkt_yiaddr := htonl ?le nip\<rparr>"
  let ?o = "[(DHCP_MESSAGE_TYPE, [type]), (DHCP_SERVER_ID, put_be32 ?le (ntohl ?le (server_nip s)))]"
  have "packet_opts ?i ?o" using i(4) by (simp add: packet_opts_def packet_wf_def)
  from dhcp_add_option_uint32_opts[OF this, of DHCP_LEASE_TIME ?le "lease_seconds s"] check_option_codes(3)
  obtain p where p: "dhcp_add_option_uint32 ?le ?i DHCP_LEASE_TIME (lease_seconds s) = Some p"
    "packet_opts p (?o @ [(DHCP_LEASE_TIME, put_be32 ?le (lease_seconds s))])" "p\<lparr>pkt_options := pkt_options ?i\<rparr> = ?i"
    by (auto simp: put_be32_def)
  from add_options_total[OF p(2), of env h cs] obtain q ys where
    q: "add_options env h cs p = Some q" "packet_opts q ((?o @ [(DHCP_LEASE_TIME, put_be32 ?le (lease_seconds s))]) @ ys)"
      "q\<lparr>pkt_options := pkt_options p\<rparr> = p" by blast
  have "reply_ok env s c type nip q"
    using q(2) pkt_fields_keep[OF p(3)] pkt_fields_keep[OF q(3)] i by (auto simp: reply_ok_def)
  then show ?thesis using i p q by blast
qed

lemma send_packet_to_client_packet: "\<exists>d m. send_packet_to_client env p = Send_packet p d m"
  by (simp add: send_packet_to_client_def)

lemma send_ACK_result:
  assumes "packet_wf c"
  shows "\<exists>a d m outs. send_ACK env c n s =
      Some (fst (add_lease env 0 (pkt_chaddr c) (htonl (little_endian env) n) s), Send_packet a d m # outs) \<and>
    reply_ok env s c DHCPACK n a"
proof -
  obtain i p q where r: "init_packet env s c DHCPACK = Some i"
    "dhcp_add_option_uint32 (little_endian env) (i\<lparr>pkt_yiaddr := htonl (little_endian env) n\<rparr>) DHCP_LEASE_TIME (lease_seconds s) = Some p"
    "add_server_options env s p = Some q" "reply_ok env s c DHCPACK n q"
    using reply_total[OF assms, of env s DHCPACK n "option_hash s" "hash_order env (option_hash s)"]
    unfolding add_server_options_def by blast
  obtain d m where "send_packet_to_client env q = Send_packet q d m" using send_packet_to_client_packet by blast
  moreover have "pkt_chaddr q = pkt_chaddr c" "pkt_yiaddr q = htonl (little_endian env) n" using r(4) by (simp_all add: reply_ok_def)
  ultimately show ?thesis
    using r unfolding send_ACK_def by (intro exI[of _ q] exI[of _ d] exI[of _ m]) (simp add: Let_def)
qed

lemma add_lease_fields:
  "add_lease env exp c y s = (s', r) \<Longrightarrow> lease_seconds s' = lease_seconds s \<and> option_hash s' = option_hash s \<and>
     server_nip s' = server_nip s \<and> start_ip s' = start_ip s \<and> end_ip s' = end_ip s \<and> lease_added_cb s' = lease_added_cb s"
  unfolding add_lease_def get_lease_def
  by (auto simp: Let_def link_lease_def remove_lease_def unlink_lease_def split: prod.splits sum.splits if_splits option.splits)

lemma send_offer_result:
  assumes "packet_wf c" "offer_nip env s c lease rn = Some n" "n \<noteq> 0"
    and "add_lease env OFFER_TIME (pkt_chaddr c) (htonl (little_endian env) n) s = (s1, Some l)"
  shows "\<exists>a d m. send_offer env c lease rn s = Some (s1, [Send_packet a d m]) \<and> reply_ok env s c DHCPOFFER n a"
proof -
  note f = add_lease_fields[OF assms(4)]
  obtain i p q where r: "init_packet env s c DHCPOFFER = Some i" "pkt_chaddr i = pkt_chaddr c"
    "dhcp_add_option_uint32 (little_endian env) (i\<lparr>pkt_yiaddr := htonl (little_endian env) n\<rparr>) DHCP_LEASE_TIME (lease_seconds s) = Some p"
    "add_server_options env s1 p = Some q" "reply_ok env s c DHCPOFFER n q"
    using reply_total[OF assms(1), of env s DHCPOFFER n "option_hash s1" "hash_order env (option_hash s1)"]
    unfolding add_server_options_def by blast
  obtain d m where "send_packet_to_client env q = Send_packet q d m" using send_packet_to_client_packet by blast
  then show ?thesis
    using r assms(2-4) f unfolding send_offer_def by (intro exI[of _ q] exI[of _ d] exI[of _ m]) (simp add: Let_def)
qed

lemma table_find_lease:
  assumes inv: "lease_inv s" and t: "table s n = Some (take 6 mac, e)"
  shows "\<exists>p. find_lease_by_mac s mac = Some p \<and> nip_of s p = n"
proof -
  obtain p l where p: "p \<in> set (lease_list s)" "leases s p = Some l" "lease_nip l = n" "lease_mac l = take 6 mac"
    using t table_eq_Some[OF inv] by auto
  obtain q where q: "find_lease_by_mac s mac = Some q"
    using p by (cases "find_lease_by_mac s mac") (auto simp: find_lease_by_mac_def find_None_iff)
  have "q = p"
    using lease_invD(6)[OF inv] find_lease_by_mac_Some[OF q] p by fastforce
  then show ?thesis using q p by (simp add: nip_of_def)
qed

section \<open>An environment\<close>

text \<open>An insertion that meets the contract, an environment with it, a server and two clients.\<close>

definition demo_env :: "int \<Rightarrow> env" where
  "demo_env t = \<lparr>little_endian = True, now = t, inet_aton = (\<lambda>a. if a = ''192.168.0.1'' then Some 0xc0a80001
     else if a = ''192.168.0.9'' then Some 0xc0a80009 else None), mem_ok = True,
     insert_sorted = (\<lambda>xs p cmp. insert_by cmp p xs), hash_order = (\<lambda>_. [])\<rparr>"

definition demo_server :: dhcp_server where
  "demo_server = (case g_dhcp_server_new (demo_env 0) 3 True True 0x0101a8c0 of
     Inr s \<Rightarrow> fst (g_dhcp_server_set_ip_range (demo_env 0) ''192.168.0.1'' ''192.168.0.9'' s))"

definition demo_client :: "u8 \<Rightarrow> dhcp_packet" where
  "demo_client x = packet_zero\<lparr>pkt_chaddr := [2, 0, 0, 0, 0, x] @ replicate 10 0\<rparr>"

lemma demo_env_fields: "now (demo_env t) = t" "little_endian (demo_env t) = True"
  by (simp_all add: demo_env_def)

interpretation demo: lease_env "demo_env t" for t
  by (rule lease_env.intro) (simp add: demo_env_def ref_insertion.sorted_insertion_axioms)

lemma demo_server_eval: "demo_server = \<lparr>ref_count = 1, started = False, ifindex = 3, start_ip = 0xc0a80001, end_ip = 0xc0a80009,
    server_nip = 0x0101a8c0, lease_seconds = DEFAULT_DHCP_LEASE_SEC, listener_watch = False, lease_list = [],
    nip_lease_hash = Map.empty, option_hash = Map.empty, save_lease_func = False, lease_added_cb = False,
    leases = Map.empty, next_lease = 1\<rparr>"
  by (simp add: demo_server_def g_dhcp_server_new_def g_dhcp_server_set_ip_range_def demo_env_def)

lemma demo_server_reach: "server_reach ok demo_server"
  unfolding demo_server_def
  by (simp add: g_dhcp_server_new_def demo_env_def, rule reach_range, rule reach_new[of "demo_env 0" 3 True True "0x0101a8c0"])
    (simp add: g_dhcp_server_new_def demo_env_def)

section \<open>Exchanges\<close>

lemma get_lease_known:
  assumes "nip_lease_hash s n \<noteq> None" "n \<noteq> 0" "start_ip s \<le> n" "n \<le> end_ip s"
    "take 6 mac \<noteq> MAC_BCAST_ADDR" "take 6 mac \<noteq> MAC_ANY_ADDR"
  shows "\<exists>s1 p. get_lease env (htonl (little_endian env) n) mac s = (s1, Inr p)"
  using assms unfolding get_lease_def
  by (auto simp: Let_def not_less split: option.split)

lemma add_lease_known:
  assumes "table s n \<noteq> None" "n \<noteq> 0" "start_ip s \<le> n" "n \<le> end_ip s"
    "take 6 mac \<noteq> MAC_BCAST_ADDR" "take 6 mac \<noteq> MAC_ANY_ADDR"
  shows "\<exists>s1 p. add_lease env exp mac (htonl (little_endian env) n) s = (s1, Some p)"
proof -
  have "nip_lease_hash s n \<noteq> None" using assms(1) by (auto simp: table_def split: option.splits)
  from get_lease_known[OF this assms(2-6)] obtain s1 p where
    "get_lease env (htonl (little_endian env) n) mac s = (s1, Inr p)" by blast
  then show ?thesis by (simp add: add_lease_def)
qed

lemma add_lease_Some_mac:
  assumes "add_lease env exp mac y s = (s1, Some p)"
  shows "y \<noteq> 0" "take 6 mac \<noteq> MAC_BCAST_ADDR" "take 6 mac \<noteq> MAC_ANY_ADDR"
  using assms unfolding add_lease_def get_lease_def by (auto simp: Let_def split: prod.splits sum.splits if_splits)

lemma send_offer_sent:
  assumes c: "packet_wf c" and o: "send_offer env c lease rn s = Some (s1, [out])"
  shows "\<exists>n a d m l. out = Send_packet a d m \<and> reply_ok env s c DHCPOFFER n a \<and> n \<noteq> 0 \<and>
    offer_nip env s c lease rn = Some n \<and>
    add_lease env OFFER_TIME (pkt_chaddr c) (htonl (little_endian env) n) s = (s1, Some l)"
proof -
  obtain i where i: "init_packet env s c DHCPOFFER = Some i" "pkt_chaddr i = pkt_chaddr c"
    using init_packet_total[OF c] by blast
  obtain n where n: "offer_nip env s c lease rn = Some n"
    using o i by (cases "offer_nip env s c lease rn") (simp_all add: send_offer_def)
  have n0: "n \<noteq> 0" using o i n by (auto simp: send_offer_def Let_def)
  obtain s1' r where a: "add_lease env OFFER_TIME (pkt_chaddr c) (htonl (little_endian env) n) s = (s1', r)" by fastforce
  have "r \<noteq> None" using o i n n0 a by (cases r) (simp_all add: send_offer_def Let_def)
  then obtain l where l: "r = Some l" by blast
  from send_offer_result[OF c n n0 a[unfolded l]] o show ?thesis using n n0 a l by auto
qed


section \<open>A concrete exchange\<close>

text \<open>A message that carries only its type, received as bytes.\<close>

lemma listener_event_plain:
  assumes p: "packet_opts p [(DHCP_MESSAGE_TYPE, [type])]" "pkt_hlen p = 6" "pkt_op p = BOOTREQUEST"
    "pkt_cookie p = htonl (little_endian env) DHCP_MAGIC" "DHCP_MINTYPE \<le> type" "type \<le> DHCP_MAXTYPE"
    and h: "handle_message env p type False False 0 s = Some (s', outs)"
  shows "listener_event env (Io_in (Inr (packet_bytes (little_endian env) p))) s = Some (s', outs, True)"
proof -
  let ?le = "little_endian env"
  have wf: "packet_wf p" using p(1) by (simp add: packet_opts_def)
  note get = option_data_packet_opts(1)[OF p(1), of 628 ?le, simplified]
  have w: "walk env p 628 DHCP_MESSAGE_TYPE = Some (Some 242)" "walk env p 628 DHCP_SERVER_ID = Some None"
    "walk env p 628 DHCP_REQUESTED_IP = Some None"
    using get[of DHCP_MESSAGE_TYPE] get[of DHCP_SERVER_ID] get[of DHCP_REQUESTED_IP] by (simp_all add: walk_def)
  obtain pre where pre: "packet_bytes ?le p = pre @ pkt_options p" "length pre = 240" by (rule packet_bytes_options[OF wf])
  obtain rest where "pkt_options p = encode_opts [(DHCP_MESSAGE_TYPE, [type])] @ DHCP_END # rest" by (rule packet_opts_split[OF p(1)])
  then have b: "packet_bytes ?le p ! 242 = type" using pre by (simp add: nth_append)
  have "type \<noteq> 0" using p(5) by auto
  moreover have "check_packet_type env p 628 = Some type"
    using p(2,3,5,6) w(1) b by (simp add: check_packet_type_def Let_def not_less[symmetric])
  moreover have "dhcp_recv_l3_packet ?le (Inr (packet_bytes ?le p)) = Inr (p, 628)"
    using packet_of_packet_bytes[OF wf, of ?le] length_packet_bytes[OF wf, of ?le] p(4)
    by (simp add: dhcp_recv_l3_packet_def Let_def)
  ultimately show ?thesis using w h by (simp add: listener_event_def Let_def)
qed

definition demo_n :: u32 where
  "demo_n = 0xc0a80001"

definition demo_leased :: dhcp_server where
  "demo_leased = fst (add_lease (demo_env 5000) OFFER_TIME (pkt_chaddr (demo_client 1)) (htonl True demo_n) demo_server)"

lemma demo_client_wf: "packet_wf (demo_client x)"
  by (simp add: demo_client_def packet_wf_def packet_zero_def)

lemma replicate_6: "replicate 6 a = [a, a, a, a, a, a]"
  by (simp add: numeral_eq_Suc)

lemma demo_mac:
  "take 6 (pkt_chaddr (demo_client x)) = [2, 0, 0, 0, 0, x]"
  "[2, 0, 0, 0, 0, x] \<noteq> MAC_BCAST_ADDR" "[2, 0, 0, 0, 0, x] \<noteq> MAC_ANY_ADDR"
  by (simp_all add: demo_client_def MAC_BCAST_ADDR_def MAC_ANY_ADDR_def replicate_6)

lemma demo_add: "add_lease (demo_env 5000) OFFER_TIME (pkt_chaddr (demo_client 1)) (htonl True demo_n) demo_server =
    (demo_leased, Some 1)"
  unfolding demo_leased_def
  by (simp add: add_lease_def get_lease_def demo_server_eval demo_env_def find_lease_by_mac_def demo_mac
    demo_n_def Let_def)

lemma demo_offer: "offer_nip (demo_env 5000) demo_server c None 0 = Some demo_n"
  by (simp add: offer_nip_def check_requested_nip_def find_free_or_expired_nip_def demo_server_eval
    find_free_nip_unfold free_nip_def demo_n_def)

lemma demo_server_inv: "lease_inv demo_server"
  by (rule server_reach_inv[OF _ demo_server_reach]) (simp add: demo.lease_env_axioms)

lemma demo_leased_facts:
  "lease_inv demo_leased" "1 \<in> set (lease_list demo_leased)" "table demo_leased demo_n = Some ([2, 0, 0, 0, 0, 1], 300)"
  "leases demo_leased 1 = Some \<lparr>expire = 300, lease_nip = demo_n, lease_mac = [2, 0, 0, 0, 0, 1]\<rparr>"
  "start_ip demo_leased = 0xc0a80001" "end_ip demo_leased = 0xc0a80009"
proof -
  note sp = demo.add_lease_spec[OF demo_server_inv demo_add]
  have le: "little_endian (demo_env 5000) = True" by (simp add: demo_env_def)
  show "lease_inv demo_leased" "1 \<in> set (lease_list demo_leased)" using sp by simp_all
  show "table demo_leased demo_n = Some ([2, 0, 0, 0, 0, 1], 300)" using sp(2) by (simp add: demo_mac le)
  show "leases demo_leased 1 = Some \<lparr>expire = 300, lease_nip = demo_n, lease_mac = [2, 0, 0, 0, 0, 1]\<rparr>"
    using sp(6) by (simp add: demo_mac le)
  show "start_ip demo_leased = 0xc0a80001" "end_ip demo_leased = 0xc0a80009"
    using add_lease_fields[OF demo_add] by (simp_all add: demo_server_eval)
qed

lemma demo_discover:
  assumes "packet_wf c" "pkt_chaddr c = pkt_chaddr (demo_client 1)"
  shows "\<exists>a d m. handle_message (demo_env 5000) c DHCPDISCOVER sid rip 0 demo_server = Some (demo_leased, [Send_packet a d m])"
proof -
  have "little_endian (demo_env 5000) = True" by (simp add: demo_env_def)
  then have "\<exists>a d m. send_offer (demo_env 5000) c None 0 demo_server = Some (demo_leased, [Send_packet a d m])"
    using send_offer_result[OF assms(1) demo_offer, of demo_leased 1] demo_add assms(2) by (auto simp: demo_n_def)
  moreover have "find_lease_by_mac demo_server (pkt_chaddr c) = None"
    by (simp add: find_lease_by_mac_def demo_server_eval)
  ultimately show ?thesis by (simp add: handle_message_def)
qed

lemma demo_leased_reach:
  assumes "ok (demo_env 5000) demo_server"
  shows "server_reach ok demo_leased"
proof -
  obtain h where h: "dhcp_init_header True DHCPDISCOVER = Some h" "packet_opts h [(DHCP_MESSAGE_TYPE, [DHCPDISCOVER])]"
    "pkt_op h = BOOTREQUEST" "pkt_hlen h = 6" "pkt_cookie h = htonl True DHCP_MAGIC"
    using dhcp_init_header_opts[of True DHCPDISCOVER] by auto
  let ?p = "h\<lparr>pkt_chaddr := pkt_chaddr (demo_client 1)\<rparr>"
  have p: "packet_opts ?p [(DHCP_MESSAGE_TYPE, [DHCPDISCOVER])]"
    using h(2) by (simp add: packet_opts_def packet_wf_def demo_client_def)
  then have wf: "packet_wf ?p" by (simp add: packet_opts_def)
  obtain a d m where "handle_message (demo_env 5000) ?p DHCPDISCOVER False False 0 demo_server = Some (demo_leased, [Send_packet a d m])"
    using demo_discover[OF wf, of False False] by auto
  from listener_event_plain[OF p _ _ _ _ _ this] h
  have "listener_event (demo_env 5000) (Io_in (Inr (packet_bytes True ?p))) demo_server = Some (demo_leased, [Send_packet a d m], True)"
    by (simp add: demo_env_def)
  then show ?thesis using reach_event[where ok = ok and env = "demo_env 5000" and s = demo_server] demo_server_reach[of ok] assms by blast
qed

section \<open>Properties\<close>

text \<open>
  C4. In every server reached, no two leases have the same address and no two the same
  client, whatever messages arrive in whatever order.
\<close>

theorem leases_unique:
  assumes "server_reach (\<lambda>env s. lease_env env) s"
    and "p \<in> set (lease_list s)" "q \<in> set (lease_list s)" "leases s p = Some l" "leases s q = Some m"
    and "lease_nip l = lease_nip m \<or> lease_mac l = lease_mac m"
  shows "p = q"
proof -
  have inv: "lease_inv s" by (rule server_reach_inv[OF _ assms(1)])
  show ?thesis
    using assms(6)
  proof
    assume "lease_nip l = lease_nip m"
    then show ?thesis using lease_invD(3)[OF inv assms(2)] lease_invD(3)[OF inv assms(3)] assms(4,5) by auto
  next
    assume "lease_mac l = lease_mac m"
    then show ?thesis using lease_invD(6)[OF inv assms(2,3)] assms(4,5) by simp
  qed
qed

theorem leases_unique_witness:
  "\<exists>p. p \<in> set (lease_list demo_leased) \<and> (\<forall>q l. q \<in> set (lease_list demo_leased) \<and> leases demo_leased q = Some l \<and>
     lease_mac l = [2, 0, 0, 0, 0, 1] \<longrightarrow> q = p)"
proof -
  have "server_reach (\<lambda>env s. lease_env env) demo_leased" by (rule demo_leased_reach) (rule demo.lease_env_axioms)
  from leases_unique[OF this _ demo_leased_facts(2) _ demo_leased_facts(4)] demo_leased_facts(2) show ?thesis by auto
qed

text \<open>
  C10. Adding a lease is, on the table, forgetting what the client had and mapping the address
  to it; whoever had the address has it no more.
\<close>

theorem add_lease_refines:
  assumes "sorted_insertion (insert_sorted env)" "lease_inv s"
    and "add_lease env exp chaddr yiaddr s = (s', Some p)"
  shows "lease_inv s' \<and> table s' = (forget_mac (take 6 chaddr) (table s))(ntohl (little_endian env) yiaddr \<mapsto>
    (take 6 chaddr, if exp = 0 then now env + uint (lease_seconds s) else uint exp))"
  using lease_env.add_lease_spec(1,2)[OF lease_env.intro assms(2,3)] assms(1) by blast

theorem add_lease_refines_witness:
  "table demo_leased = (forget_mac [2, 0, 0, 0, 0, 1] (table demo_server))(demo_n \<mapsto> ([2, 0, 0, 0, 0, 1], 300))"
  using add_lease_refines[OF demo.insertion demo_server_inv demo_add] by (simp add: demo_mac demo_env_def)

text \<open>
  C12. The address offered to a new client, in a server whose clock and lease times stayed below
  \<open>2 ^ 31\<close> seconds: when some address of the range is free, the first such; otherwise, when some lease
  has expired, the address of the lease that expires first; otherwise 0. The search always returns
  when the range does not end at the last address of all.
\<close>

theorem find_free_or_expired_nip_correct:
  assumes "server_reach env_times_ok s" "end_ip s < 0xffffffff"
  shows "\<exists>n. find_free_or_expired_nip env s m = Some n \<and>
    (if \<exists>a. start_ip s \<le> a \<and> a \<le> end_ip s \<and> free_nip s a
     then start_ip s \<le> n \<and> n \<le> end_ip s \<and> free_nip s n \<and> (\<forall>b. start_ip s \<le> b \<and> b < n \<longrightarrow> \<not> free_nip s b)
     else if \<exists>p \<in> set (lease_list s). expire_of s p < now env
     then \<exists>p \<in> set (lease_list s). nip_of s p = n \<and> expire_of s p < now env \<and>
       (\<forall>q \<in> set (lease_list s). expire_of s p \<le> expire_of s q)
     else n = 0)"
proof -
  obtain r where r: "find_free_nip env s m (start_ip s) = Some r"
    "case r of None \<Rightarrow> \<forall>b. start_ip s \<le> b \<and> b \<le> end_ip s \<longrightarrow> \<not> free_nip s b
     | Some a \<Rightarrow> start_ip s \<le> a \<and> a \<le> end_ip s \<and> free_nip s a \<and> (\<forall>b. start_ip s \<le> b \<and> b < a \<longrightarrow> \<not> free_nip s b)"
    using find_free_nip_result[OF assms(2)] by blast
  have sorted: "sorted_wrt (\<lambda>a b. expire_of s b \<le> expire_of s a) (lease_list s)"
    using server_reach_sorted[OF assms(1)] by (simp add: lease_sorted_def)
  have "expire_of s (last xs) \<le> expire_of s q"
    if "sorted_wrt (\<lambda>a b. expire_of s b \<le> expire_of s a) xs" "q \<in> set xs" for xs q
    using that by (induction xs) auto
  note last = this[OF sorted]
  show ?thesis
  proof (cases r)
    case (Some a)
    then show ?thesis using r by (auto simp: find_free_or_expired_nip_def)
  next
    case None
    define p where "p = last (lease_list s)"
    have nf: "\<not> (\<exists>a. start_ip s \<le> a \<and> a \<le> end_ip s \<and> free_nip s a)" using r(2) None by auto
    have f: "find_free_or_expired_nip env s m = Some (if lease_list s = [] \<or> now env \<le> expire_of s p then 0 else nip_of s p)"
      using r(1) None by (auto simp: find_free_or_expired_nip_def is_expired_lease_def arp_check_def Let_def p_def)
    show ?thesis
    proof (cases "\<exists>p \<in> set (lease_list s). expire_of s p < now env")
      case True
      then obtain q where q: "q \<in> set (lease_list s)" "expire_of s q < now env" by blast
      then have ne: "lease_list s \<noteq> []" by auto
      then have p: "p \<in> set (lease_list s)" "expire_of s p < now env" using last[OF q(1)] q(2) by (simp_all add: p_def)
      then have "find_free_or_expired_nip env s m = Some (nip_of s p)" using f ne by auto
      then show ?thesis using p last unfolding if_not_P[OF nf] if_P[OF True] p_def[symmetric] by blast
    next
      case False
      then have "lease_list s = [] \<or> now env \<le> expire_of s p" unfolding p_def by (cases "lease_list s = []") (auto simp: not_less)
      then have "find_free_or_expired_nip env s m = Some 0" using f by auto
      then show ?thesis unfolding if_not_P[OF nf] if_not_P[OF False] by blast
    qed
  qed
qed

text \<open>The range of the demonstration server is cut down to the one address it has leased, and the lease has expired.\<close>

definition demo_full :: dhcp_server where
  "demo_full = fst (g_dhcp_server_set_ip_range (demo_env 0) ''192.168.0.1'' ''192.168.0.1'' demo_leased)"

lemma demo_full_facts:
  "lease_list demo_full = lease_list demo_leased" "leases demo_full = leases demo_leased"
  "nip_lease_hash demo_full = nip_lease_hash demo_leased" "start_ip demo_full = demo_n" "end_ip demo_full = demo_n"
  by (simp_all add: demo_full_def g_dhcp_server_set_ip_range_def demo_env_def demo_n_def Let_def)

lemma demo_full_reach: "server_reach env_times_ok demo_full"
  unfolding demo_full_def
  by (rule reach_range, rule demo_leased_reach) (simp add: env_times_ok_def demo.lease_env_axioms demo_server_eval demo_env_fields)

theorem find_free_or_expired_nip_correct_witness:
  "\<exists>n. find_free_or_expired_nip (demo_env 5000) demo_full [] = Some n \<and>
     (\<exists>p \<in> set (lease_list demo_full). nip_of demo_full p = n \<and> expire_of demo_full p < 5000)"
proof -
  have "table demo_leased demo_n \<noteq> None" by (simp add: demo_leased_facts)
  then have "\<not> free_nip demo_full demo_n" by (auto simp: free_nip_def demo_full_facts table_def split: option.splits)
  then have "\<not> (\<exists>a. start_ip demo_full \<le> a \<and> a \<le> end_ip demo_full \<and> free_nip demo_full a)"
    by (auto simp: demo_full_facts)
  moreover have "\<exists>p \<in> set (lease_list demo_full). expire_of demo_full p < now (demo_env 5000)"
    using demo_leased_facts(2,4) by (intro bexI[of _ 1]) (simp_all add: demo_full_facts expire_of_def demo_env_fields)
  moreover have e: "end_ip demo_full < 0xffffffff" by (simp add: demo_full_facts demo_n_def)
  ultimately have "\<exists>n. find_free_or_expired_nip (demo_env 5000) demo_full [] = Some n \<and>
      (\<exists>p \<in> set (lease_list demo_full). nip_of demo_full p = n \<and> expire_of demo_full p < now (demo_env 5000) \<and>
         (\<forall>q \<in> set (lease_list demo_full). expire_of demo_full p \<le> expire_of demo_full q))"
    using find_free_or_expired_nip_correct[OF demo_full_reach e, of "demo_env 5000" "[]"] by (simp only: if_False if_True)
  then show ?thesis unfolding demo_env_fields by blast
qed

text \<open>
  C5. A client that asks for the address it was offered gets it: after an offer, a request
  for that address from the same hardware address is answered with an acknowledgement of
  it, carrying the server's id and the lease time, and the table maps the address to the
  client until the lease time has passed.
\<close>

theorem discover_request_ack:
  assumes "lease_inv s" "sorted_insertion (insert_sorted env)" "sorted_insertion (insert_sorted env')"
    and "little_endian env' = little_endian env"
    and "packet_wf c" "packet_wf c'" "take 6 (pkt_chaddr c') = take 6 (pkt_chaddr c)"
    and "handle_message env c DHCPDISCOVER sid rip rn s = Some (s1, [Send_packet a d m])"
  shows "\<exists>n s2 a' d' m' outs. pkt_yiaddr a = htonl (little_endian env) n \<and> start_ip s \<le> n \<and> n \<le> end_ip s \<and>
    handle_message env' c' DHCPREQUEST sid' rip' n s1 = Some (s2, Send_packet a' d' m' # outs) \<and>
    reply_ok env' s1 c' DHCPACK n a' \<and>
    table s2 n = Some (take 6 (pkt_chaddr c), now env' + uint (lease_seconds s1))"
proof -
  have e: "lease_env env" "lease_env env'" using assms(2,3) by (simp_all add: lease_env.intro)
  obtain lease where "send_offer env c lease rn s = Some (s1, [Send_packet a d m])"
    using assms(8) by (auto simp: handle_message_def Let_def)
  from send_offer_sent[OF assms(5) this] obtain n l where
    n: "reply_ok env s c DHCPOFFER n a" "n \<noteq> 0"
      "add_lease env OFFER_TIME (pkt_chaddr c) (htonl (little_endian env) n) s = (s1, Some l)" by auto
  note sp = lease_env.add_lease_spec[OF e(1) assms(1) n(3), simplified]
  note f = add_lease_fields[OF n(3)] and mac = add_lease_Some_mac(2,3)[OF n(3)]
  have t1: "table s1 n = Some (take 6 (pkt_chaddr c'), uint OFFER_TIME)" using sp(2) assms(7) by simp
  obtain p where p: "find_lease_by_mac s1 (pkt_chaddr c') = Some p" "nip_of s1 p = n"
    using table_find_lease[OF sp(1) t1] by blast
  obtain s2 q where s2: "add_lease env' 0 (pkt_chaddr c') (htonl (little_endian env') n) s1 = (s2, Some q)"
    using add_lease_known[of s1 n "pkt_chaddr c'" env' 0] t1 n(2) sp(3,4) f mac assms(7) by auto
  have "table s2 n = Some (take 6 (pkt_chaddr c), now env' + uint (lease_seconds s1))"
    using lease_env.add_lease_spec(2)[OF e(2) sp(1) s2] assms(7) by simp
  moreover obtain a' d' m' outs where "send_ACK env' c' n s1 = Some (s2, Send_packet a' d' m' # outs)"
    "reply_ok env' s1 c' DHCPACK n a'"
    using send_ACK_result[OF assms(6), of env' n s1] s2 by auto
  ultimately show ?thesis
    using n(1,2) sp(3,4) p by (auto simp: handle_message_def Let_def reply_ok_def)
qed

theorem discover_request_ack_witness:
  "\<exists>n s2 a d m outs. handle_message (demo_env 5001) (demo_client 1) DHCPREQUEST False True n demo_leased =
      Some (s2, Send_packet a d m # outs) \<and> table s2 n = Some ([2, 0, 0, 0, 0, 1], 5001 + 28800)"
proof -
  obtain a d m where o: "handle_message (demo_env 5000) (demo_client 1) DHCPDISCOVER False False 0 demo_server =
      Some (demo_leased, [Send_packet a d m])"
    using demo_discover[OF demo_client_wf] by blast
  have "lease_seconds demo_leased = 28800" using add_lease_fields[OF demo_add] by (simp add: demo_server_eval)
  moreover have "little_endian (demo_env 5001) = little_endian (demo_env 5000)" by (simp add: demo_env_fields)
  from discover_request_ack[OF demo_server_inv demo.insertion demo.insertion this demo_client_wf demo_client_wf refl o, of False True]
  obtain n s2 a' d' m' outs where
    x: "handle_message (demo_env 5001) (demo_client 1) DHCPREQUEST False True n demo_leased = Some (s2, Send_packet a' d' m' # outs)"
      "table s2 n = Some (take 6 (pkt_chaddr (demo_client 1)), now (demo_env 5001) + uint (lease_seconds demo_leased))" by blast
  ultimately have "table s2 n = Some ([2, 0, 0, 0, 0, 1], 5001 + 28800)" by (simp add: demo_mac demo_env_fields)
  with x(1) show ?thesis by blast
qed

text \<open>
  C15. An offer reserves nothing: the time it sets is the number of seconds, not a time from
  now, so that the lease has expired when it is made, and the address a client was offered
  is offered at once to another client that asks for it; the first has it no more.
\<close>

theorem offer_not_reserved:
  assumes "lease_inv s" "sorted_insertion (insert_sorted env)" "300 < now env" "packet_wf b"
    and "table s n = Some (ma, uint OFFER_TIME)" "ma \<noteq> take 6 (pkt_chaddr b)"
    and "n \<noteq> 0" "start_ip s \<le> n" "n \<le> end_ip s" "find_lease_by_mac s (pkt_chaddr b) = None"
    and "take 6 (pkt_chaddr b) \<noteq> MAC_BCAST_ADDR" "take 6 (pkt_chaddr b) \<noteq> MAC_ANY_ADDR"
  shows "\<exists>s1 a d m. handle_message env b DHCPDISCOVER sid rip n s = Some (s1, [Send_packet a d m]) \<and>
    pkt_yiaddr a = htonl (little_endian env) n \<and> table s1 n = Some (take 6 (pkt_chaddr b), uint OFFER_TIME) \<and>
    (\<forall>k e. table s1 k \<noteq> Some (ma, e))"
proof -
  have e: "lease_env env" using assms(2) by (simp add: lease_env.intro)
  obtain p where p: "nip_lease_hash s n = Some p" "expire_of s p = 300"
    using assms(5) by (auto simp: table_def expire_of_def split: option.splits)
  then have o: "offer_nip env s b None n = Some n"
    using assms(3,7) assms(8,9)[unfolded not_less[symmetric]] by (simp add: offer_nip_def check_requested_nip_def find_lease_by_nip_def is_expired_lease_def)
  obtain s1 l where a: "add_lease env OFFER_TIME (pkt_chaddr b) (htonl (little_endian env) n) s = (s1, Some l)"
    using add_lease_known[of s n "pkt_chaddr b" env OFFER_TIME] assms by auto
  note t = lease_env.add_lease_spec(2)[OF e assms(1) a, simplified]
  obtain x d m where x: "send_offer env b None n s = Some (s1, [Send_packet x d m])" "reply_ok env s b DHCPOFFER n x"
    using send_offer_result[OF assms(4) o assms(7) a] by blast
  have "table s1 k \<noteq> Some (ma, t')" for k t'
  proof
    assume k: "table s1 k = Some (ma, t')"
    then have k': "k \<noteq> n" "table s k = Some (ma, t')"
      using t assms(6) by (auto simp: forget_mac_def split: if_splits option.splits)
    then obtain q where q: "nip_lease_hash s k = Some q" "map_option lease_mac (leases s q) = Some ma"
      by (auto simp: table_def split: option.splits)
    moreover have "map_option lease_mac (leases s p) = Some ma" using assms(5) p(1) by (auto simp: table_def)
    ultimately have "q = p"
      using lease_invD(6)[OF assms(1) lease_invD(4)[OF assms(1) q(1)] lease_invD(4)[OF assms(1) p(1)]] by metis
    then show False using lease_invD(5)[OF assms(1) q(1)] lease_invD(5)[OF assms(1) p(1)] k'(1) by simp
  qed
  then show ?thesis
    using x t assms(10) by (auto simp: handle_message_def Let_def reply_ok_def)
qed

theorem offer_not_reserved_witness:
  "\<exists>s1 a d m. handle_message (demo_env 5000) (demo_client 2) DHCPDISCOVER False True demo_n demo_leased = Some (s1, [Send_packet a d m]) \<and>
    table s1 demo_n = Some ([2, 0, 0, 0, 0, 2], 300)"
proof -
  have f: "find_lease_by_mac demo_leased (pkt_chaddr (demo_client 2)) = None"
  proof (rule ccontr)
    assume "find_lease_by_mac demo_leased (pkt_chaddr (demo_client 2)) \<noteq> None"
    then obtain p where p: "find_lease_by_mac demo_leased (pkt_chaddr (demo_client 2)) = Some p" by blast
    have "lease_list demo_leased = [1]"
      unfolding demo_leased_def
      by (simp add: add_lease_def get_lease_def demo_server_eval demo_env_def find_lease_by_mac_def demo_mac demo_n_def Let_def link_lease_def)
    then show False using find_lease_by_mac_Some[OF p] demo_leased_facts(4) by (simp add: demo_mac)
  qed
  have "300 < now (demo_env 5000)" by (simp add: demo_env_def)
  from offer_not_reserved[OF demo_leased_facts(1) demo.insertion this demo_client_wf _ _ _ _ _ f, of demo_n "[2, 0, 0, 0, 0, 1]" False True]
  show ?thesis using demo_leased_facts by (auto simp: demo_mac demo_n_def)
qed

text \<open>
  C18. On a little-endian host a release has no effect unless the address reads the same with
  its bytes reversed: the address of the message is compared in network order with the one
  of the lease in host order.
\<close>

theorem release_ignored:
  assumes "little_endian env" "find_lease_by_mac s (pkt_chaddr c) = Some p"
    and "pkt_ciaddr c = htonl (little_endian env) (nip_of s p)" "bswap_32 (nip_of s p) \<noteq> nip_of s p"
  shows "handle_message env c DHCPRELEASE sid rip rn s = Some (s, [])"
  using assms by (simp add: handle_message_def Let_def htonl_def)

theorem release_ignored_witness:
  "handle_message (demo_env 5000) ((demo_client 1)\<lparr>pkt_ciaddr := htonl True demo_n\<rparr>) DHCPRELEASE True False 0 demo_leased =
     Some (demo_leased, [])"
proof -
  obtain p where p: "find_lease_by_mac demo_leased (pkt_chaddr (demo_client 1)) = Some p" "nip_of demo_leased p = demo_n"
    using table_find_lease[OF demo_leased_facts(1), of demo_n "pkt_chaddr (demo_client 1)" 300] demo_leased_facts(3) by (auto simp: demo_mac)
  have "little_endian (demo_env 5000)" by (simp add: demo_env_def)
  from release_ignored[OF this, of demo_leased "(demo_client 1)\<lparr>pkt_ciaddr := htonl True demo_n\<rparr>" p] p
  show ?thesis by (simp add: demo_env_def bswap_32_def demo_n_def)
qed

end
