(* ===== verification/Acd.thy ===== *)
theory Acd
  imports DhcpPacket
begin

text \<open>
  Address conflict detection (RFC 5227), \<open>src/src/acd.c\<close>, with the ARP packets of
  \<open>src/src/shared/arp.c\<close>. A host probes for an address, announces it, monitors the ARP traffic
  and defends the address once. The state of the detection is the record \<open>acd_host\<close>; a pending
  main-loop timer is the value that says which callback it runs and after how many
  milliseconds. What a call takes from outside (sockets, the clock, random numbers, the
  interface) is a record \<open>acd_env\<close>. The callbacks a client registers are code addresses; the
  field \<open>acd_call\<close> of the environment says what calling one does to the world, so that a
  callback may start or stop the detection again.
\<close>

unbundle bit_operations_syntax

section \<open>State\<close>

abbreviation "PROBE_WAIT \<equiv> 1 :: nat"
abbreviation "PROBE_NUM \<equiv> 3 :: u32"
abbreviation "PROBE_MIN \<equiv> 1 :: nat"
abbreviation "PROBE_MAX \<equiv> 2 :: nat"
abbreviation "ANNOUNCE_WAIT \<equiv> 2 :: nat"
abbreviation "ANNOUNCE_NUM \<equiv> 2 :: u32"
abbreviation "ANNOUNCE_INTERVAL \<equiv> 2 :: nat"
abbreviation "MAX_CONFLICTS \<equiv> 10 :: u32"
abbreviation "RATE_LIMIT_INTERVAL \<equiv> 60 :: nat"
abbreviation "DEFEND_INTERVAL \<equiv> 10 :: nat"
abbreviation "LINKLOCAL_ADDR \<equiv> 0xa9fe0000 :: u32"
abbreviation "IN_CLASSB_HOST \<equiv> 0xffff :: u32"

abbreviation "ARPHRD_ETHER \<equiv> 1 :: u16"
abbreviation "ETHERTYPE_IP \<equiv> 0x0800 :: u16"
abbreviation "ARPOP_REQUEST \<equiv> 1 :: u16"
abbreviation "ARPOP_REPLY \<equiv> 2 :: u16"

datatype acd_state = ACD_STATE_PROBE | ACD_STATE_ANNOUNCE | ACD_STATE_MONITOR | ACD_STATE_DEFEND

datatype acd_timer = Acd_probe_timeout nat | Acd_announce_timeout nat | Acd_defend_timeout nat

datatype acd_host_event =
    ACD_HOST_EVENT_IPV4_AVAILABLE | ACD_HOST_EVENT_IPV4_LOST
  | ACD_HOST_EVENT_IPV4_CONFLICT | ACD_HOST_EVENT_IPV4_MAXCONFLICT

record acd_host =
  acd_state :: acd_state
  acd_ifindex :: int
  acd_interface :: string
  mac_address :: "u8 list"
  requested_ip :: u32
  ac_ip :: u32
  ac_mac :: "u8 list"
  ac_timestamp :: int
  ac_resolved :: bool
  acd_path :: string
  listen_on :: bool
  listener_sockfd :: int
  retry_times :: u32
  conflicts :: u32
  acd_timeout :: "acd_timer option"
  acd_watch :: bool
  ipv4_available_cb :: "(ptr \<times> ptr) option"
  ipv4_lost_cb :: "(ptr \<times> ptr) option"
  ipv4_conflict_cb :: "(ptr \<times> ptr) option"
  ipv4_max_conflicts_cb :: "(ptr \<times> ptr) option"

text \<open>An ARP packet; the 16-bit fields are stored in network order, as in the structure of the C library.\<close>

record ether_arp =
  arp_hrd :: u16
  arp_pro :: u16
  arp_hln :: u8
  arp_pln :: u8
  arp_op :: u16
  arp_sha :: "u8 list"
  arp_spa :: "u8 list"
  arp_tha :: "u8 list"
  arp_tpa :: "u8 list"

datatype acd_out =
    Arp_sent ether_arp int
  | LastAddressConflict string u32 "u8 list" int bool

record 'n acd_world =
  acd :: acd_host
  net :: 'n
  acd_log :: "acd_out list"

record 'n acd_env =
  acd_le :: bool
  listen_socket :: int
  listen_bind :: int
  listen_channel :: bool
  send_socket :: int
  send_bind :: int
  send_result :: int
  acd_random :: "64 word"
  real_time :: int
  acd_ifname :: "int \<Rightarrow> string option"
  acd_ifup :: "int \<Rightarrow> bool"
  acd_ifmac :: "int \<Rightarrow> u8 list"
  acd_mem :: bool
  acd_call :: "ptr \<Rightarrow> ptr \<Rightarrow> 'n acd_world \<Rightarrow> 'n acd_world"

definition upd_acd :: "(acd_host \<Rightarrow> acd_host) \<Rightarrow> 'n acd_world \<Rightarrow> 'n acd_world" where
  "upd_acd f w = w\<lparr>acd := f (acd w)\<rparr>"

section \<open>ARP packets\<close>

text \<open>
  The packet that \<open>arp_send_packet\<close> fills in, and its outcome: the packet handed to \<open>sendto\<close>,
  if a socket could be opened and bound. The environment's \<open>send_socket\<close> is the result of
  \<open>socket\<close>, negative for a negated error; \<open>send_bind\<close> is zero or the error of \<open>bind\<close>.
\<close>

definition arp_packet :: "bool \<Rightarrow> u8 list \<Rightarrow> u32 \<Rightarrow> u32 \<Rightarrow> ether_arp" where
  "arp_packet le source_eth source_ip target_ip =
     \<lparr>arp_hrd = htons le ARPHRD_ETHER, arp_pro = htons le ETHERTYPE_IP, arp_hln = word_of_nat ETH_ALEN, arp_pln = 4,
      arp_op = htons le ARPOP_REQUEST, arp_sha = take ETH_ALEN source_eth,
      arp_spa = u32_bytes le (htonl le source_ip), arp_tha = replicate ETH_ALEN 0,
      arp_tpa = u32_bytes le (htonl le target_ip)\<rparr>"

definition arp_send_packet :: "'n acd_env \<Rightarrow> u8 list \<Rightarrow> u32 \<Rightarrow> u32 \<Rightarrow> int \<Rightarrow> int \<times> acd_out list" where
  "arp_send_packet e source_eth source_ip target_ip ifindex =
     (if send_socket e < 0 then (send_socket e, [])
      else if send_bind e \<noteq> 0 then (- send_bind e, [])
      else (send_result e,
            if send_result e < 0 then [] else [Arp_sent (arp_packet (acd_le e) source_eth source_ip target_ip) ifindex]))"

definition arp_socket :: "'n acd_env \<Rightarrow> int" where
  "arp_socket e = (if listen_socket e < 0 then listen_socket e
                   else if listen_bind e \<noteq> 0 then - listen_bind e else listen_socket e)"

text \<open>
  The random link-local address. The draws are a stream and a position in it; the loop may
  run forever, which is \<open>None\<close>.
\<close>

partial_function (option) arp_random_loop :: "(nat \<Rightarrow> 64 word) \<Rightarrow> nat \<Rightarrow> (u32 \<times> nat) option" where
  "arp_random_loop draws n =
     (let tmp = ucast (draws n) AND IN_CLASSB_HOST in
      if tmp > IN_CLASSB_HOST - 0x0200 then arp_random_loop draws (n + 1) else Some (tmp, n + 1))"

definition arp_random_ip :: "(nat \<Rightarrow> 64 word) \<Rightarrow> nat \<Rightarrow> (u32 \<times> nat) option" where
  "arp_random_ip draws n =
     map_option (\<lambda>(tmp, m). (LINKLOCAL_ADDR + 0x0100 + tmp, m)) (arp_random_loop draws n)"

definition random_delay_ms :: "64 word \<Rightarrow> nat \<Rightarrow> nat" where
  "random_delay_ms r secs = unat r mod (secs * 1000)"

section \<open>The detection\<close>

definition acd_host_new :: "'n acd_env \<Rightarrow> int \<Rightarrow> string \<Rightarrow> acd_host option" where
  "acd_host_new e ifindex path =
     (if ifindex < 0 then None
      else if \<not> acd_mem e then None
      else case acd_ifname e ifindex of
        None \<Rightarrow> None
      | Some name \<Rightarrow>
          if \<not> acd_ifup e ifindex then None
          else Some \<lparr>acd_state = ACD_STATE_PROBE, acd_ifindex = ifindex, acd_interface = name,
                     mac_address = acd_ifmac e ifindex, requested_ip = 0, ac_ip = 0,
                     ac_mac = replicate 6 0, ac_timestamp = 0, ac_resolved = True, acd_path = path,
                     listen_on = False, listener_sockfd = -1, retry_times = 0, conflicts = 0,
                     acd_timeout = None, acd_watch = False, ipv4_available_cb = None,
                     ipv4_lost_cb = None, ipv4_conflict_cb = None, ipv4_max_conflicts_cb = None\<rparr>)"

definition remove_timeout :: "acd_host \<Rightarrow> acd_host" where
  "remove_timeout a = a\<lparr>acd_timeout := None\<rparr>"

definition start_listening :: "'n acd_env \<Rightarrow> acd_host \<Rightarrow> unit result \<times> acd_host" where
  "start_listening e a =
     (if listen_on a then (Inr (), a)
      else if arp_socket e < 0 then (Inl EIO, a)
      else if \<not> listen_channel e then (Inl EIO, a)
      else (Inr (), a\<lparr>listen_on := True, listener_sockfd := arp_socket e, acd_watch := True\<rparr>))"

definition stop_listening :: "acd_host \<Rightarrow> acd_host" where
  "stop_listening a =
     (if \<not> listen_on a then a
      else a\<lparr>listen_on := False, listener_sockfd := -1, acd_watch := False\<rparr>)"

definition is_link_local :: "u32 \<Rightarrow> bool" where
  "is_link_local ip \<longleftrightarrow> ip AND LINKLOCAL_ADDR = LINKLOCAL_ADDR"

definition report_conflict :: "'n acd_env \<Rightarrow> ether_arp option \<Rightarrow> 'n acd_world \<Rightarrow> 'n acd_world" where
  "report_conflict e arp w =
     (let a = acd w;
          a1 = (case arp of
                  Some p \<Rightarrow> a\<lparr>ac_ip := requested_ip a, ac_mac := take 6 (arp_sha p),
                              ac_timestamp := real_time e, ac_resolved := False\<rparr>
                | None \<Rightarrow> a\<lparr>ac_resolved := True\<rparr>)
      in w\<lparr>acd := a1,
           acd_log := acd_log w @ [LastAddressConflict (acd_path a1) (ac_ip a1) (ac_mac a1) (ac_timestamp a1) (ac_resolved a1)]\<rparr>)"

definition call_cb :: "'n acd_env \<Rightarrow> (ptr \<times> ptr) option \<Rightarrow> 'n acd_world \<Rightarrow> 'n acd_world" where
  "call_cb e cb w = (case cb of None \<Rightarrow> w | Some (f, d) \<Rightarrow> acd_call e f d w)"

definition acd_host_stop :: "acd_host \<Rightarrow> acd_host" where
  "acd_host_stop a =
     (let a1 = remove_timeout (stop_listening a);
          a2 = (if acd_watch a1 then a1\<lparr>acd_watch := False\<rparr> else a1)
      in a2\<lparr>acd_state := ACD_STATE_PROBE, retry_times := 0, requested_ip := 0\<rparr>)"

definition acd_host_start :: "'n acd_env \<Rightarrow> u32 \<Rightarrow> acd_host \<Rightarrow> unit result \<times> acd_host" where
  "acd_host_start e ip a =
     (case start_listening e (remove_timeout a) of
        (Inl err, a1) \<Rightarrow> (Inl err, a1)
      | (Inr _, a1) \<Rightarrow>
          (Inr (), a1\<lparr>retry_times := 0, requested_ip := ip, acd_state := ACD_STATE_PROBE,
                      acd_timeout := Some (Acd_probe_timeout (random_delay_ms (acd_random e) PROBE_WAIT))\<rparr>))"

definition send_arp :: "'n acd_env \<Rightarrow> u32 \<Rightarrow> 'n acd_world \<Rightarrow> 'n acd_world" where
  "send_arp e source_ip w =
     w\<lparr>acd_log := acd_log w @
         snd (arp_send_packet e (mac_address (acd w)) source_ip (requested_ip (acd w)) (acd_ifindex (acd w)))\<rparr>"

definition send_probe_packet :: "'n acd_env \<Rightarrow> 'n acd_world \<Rightarrow> 'n acd_world" where
  "send_probe_packet e w =
     (let w1 = upd_acd remove_timeout w;
          w2 = (if retry_times (acd w1) = 1
                then upd_acd (\<lambda>a. snd (start_listening e (a\<lparr>acd_state := ACD_STATE_PROBE\<rparr>))) w1 else w1);
          w3 = send_arp e 0 w2;
          timeout = (if retry_times (acd w3) < PROBE_NUM
                     then random_delay_ms (acd_random e) (PROBE_MAX - PROBE_MIN) + PROBE_MIN * 1000
                     else ANNOUNCE_WAIT * 1000)
      in upd_acd (\<lambda>a. a\<lparr>acd_timeout := Some (Acd_probe_timeout timeout)\<rparr>) w3)"

definition send_announce_packet :: "'n acd_env \<Rightarrow> 'n acd_world \<Rightarrow> 'n acd_world" where
  "send_announce_packet e w =
     upd_acd (\<lambda>a. (remove_timeout a)\<lparr>acd_timeout := Some
         (if acd_state a = ACD_STATE_DEFEND then Acd_defend_timeout (DEFEND_INTERVAL * 1000)
          else Acd_announce_timeout (ANNOUNCE_INTERVAL * 1000))\<rparr>)
       (send_arp e (requested_ip (acd w)) w)"

definition acd_probe_timeout :: "'n acd_env \<Rightarrow> 'n acd_world \<Rightarrow> 'n acd_world" where
  "acd_probe_timeout e w =
     (let w1 = upd_acd (\<lambda>a. a\<lparr>acd_timeout := None\<rparr>) w in
      if retry_times (acd w1) = PROBE_NUM
      then send_announce_packet e (upd_acd (\<lambda>a. a\<lparr>acd_state := ACD_STATE_ANNOUNCE, retry_times := 1\<rparr>) w1)
      else send_probe_packet e (upd_acd (\<lambda>a. a\<lparr>retry_times := retry_times a + 1\<rparr>) w1))"

definition acd_announce_timeout :: "'n acd_env \<Rightarrow> 'n acd_world \<Rightarrow> 'n acd_world" where
  "acd_announce_timeout e w =
     (let w1 = upd_acd (\<lambda>a. a\<lparr>acd_timeout := None\<rparr>) w in
      if retry_times (acd w1) \<noteq> ANNOUNCE_NUM
      then send_announce_packet e (upd_acd (\<lambda>a. a\<lparr>retry_times := retry_times a + 1\<rparr>) w1)
      else
        let w2 = upd_acd (\<lambda>a. a\<lparr>acd_state := ACD_STATE_MONITOR\<rparr>) w1;
            w3 = (if \<not> ac_resolved (acd w2) \<and> \<not> is_link_local (requested_ip (acd w2))
                  then report_conflict e None w2 else w2);
            w4 = call_cb e (ipv4_available_cb (acd w3)) w3
        in upd_acd (\<lambda>a. a\<lparr>conflicts := 0\<rparr>) w4)"

definition acd_defend_timeout :: "'n acd_world \<Rightarrow> 'n acd_world" where
  "acd_defend_timeout w =
     upd_acd (\<lambda>a. a\<lparr>acd_timeout := None, conflicts := 0, acd_state := ACD_STATE_MONITOR\<rparr>) w"

text \<open>
  \<open>acd_recv_arp_packet\<close> on what \<open>read\<close> gave: \<open>None\<close> for a short read or an error. The pair
  \<open>arp_conflict\<close> holds the two flags \<open>source_conflict\<close> and \<open>target_conflict\<close>.
\<close>

definition arp_conflict :: "bool \<Rightarrow> acd_host \<Rightarrow> ether_arp \<Rightarrow> bool \<times> bool" where
  "arp_conflict le a arp =
     (let ip_n = u32_bytes le (htonl le (requested_ip a));
          probe = (arp_spa arp = [0, 0, 0, 0])
      in (arp_spa arp = ip_n, probe \<and> arp_tpa arp = ip_n))"

definition acd_recv_arp_packet :: "'n acd_env \<Rightarrow> ether_arp option \<Rightarrow> 'n acd_world \<Rightarrow> unit result \<times> 'n acd_world" where
  "acd_recv_arp_packet e pkt w =
     (case pkt of None \<Rightarrow> (Inl EINVAL, w) | Some arp \<Rightarrow>
      if arp_op arp \<noteq> htons (acd_le e) ARPOP_REPLY \<and> arp_op arp \<noteq> htons (acd_le e) ARPOP_REQUEST
      then (Inl EINVAL, w)
      else if arp_sha arp = mac_address (acd w) then (Inr (), w)
      else let (source_conflict, target_conflict) = arp_conflict (acd_le e) (acd w) arp in
        if \<not> source_conflict \<and> \<not> target_conflict then (Inr (), w)
        else let w1 = upd_acd (\<lambda>a. a\<lparr>conflicts := conflicts a + 1\<rparr>) w in
          if acd_state (acd w1) = ACD_STATE_MONITOR then
            if \<not> source_conflict then (Inr (), w1)
            else (Inr (), send_announce_packet e (upd_acd (\<lambda>a. a\<lparr>acd_state := ACD_STATE_DEFEND\<rparr>) w1))
          else if acd_state (acd w1) = ACD_STATE_DEFEND then
            if \<not> source_conflict then (Inr (), w1)
            else let w2 = (if \<not> is_link_local (requested_ip (acd w1)) then report_conflict e (Some arp) w1 else w1)
                 in (Inr (), call_cb e (ipv4_lost_cb (acd w2)) w2)
          else if conflicts (acd w1) < MAX_CONFLICTS then
            let w2 = (if \<not> is_link_local (requested_ip (acd w1)) then report_conflict e (Some arp) w1 else w1);
                w3 = upd_acd acd_host_stop w2
            in (Inr (), call_cb e (ipv4_conflict_cb (acd w3)) w3)
          else
            let w2 = upd_acd acd_host_stop w1
            in (Inr (), call_cb e (ipv4_max_conflicts_cb (acd w2)) w2))"

text \<open>The watch on the socket: an error condition or data; the result says whether the watch stays.\<close>

definition acd_listener_event :: "'n acd_env \<Rightarrow> bool \<Rightarrow> ether_arp option \<Rightarrow> 'n acd_world \<Rightarrow> bool \<times> 'n acd_world" where
  "acd_listener_event e failed pkt w =
     (if failed then (False, upd_acd (\<lambda>a. a\<lparr>acd_watch := False\<rparr>) w)
      else if \<not> listen_on (acd w) then (False, w)
      else (True, snd (acd_recv_arp_packet e pkt w)))"

fun acd_host_register_event :: "acd_host_event \<Rightarrow> (ptr \<times> ptr) option \<Rightarrow> acd_host \<Rightarrow> acd_host" where
  "acd_host_register_event ACD_HOST_EVENT_IPV4_AVAILABLE cb a = a\<lparr>ipv4_available_cb := cb\<rparr>"
| "acd_host_register_event ACD_HOST_EVENT_IPV4_LOST cb a = a\<lparr>ipv4_lost_cb := cb\<rparr>"
| "acd_host_register_event ACD_HOST_EVENT_IPV4_CONFLICT cb a = a\<lparr>ipv4_conflict_cb := cb\<rparr>"
| "acd_host_register_event ACD_HOST_EVENT_IPV4_MAXCONFLICT cb a = a\<lparr>ipv4_max_conflicts_cb := cb\<rparr>"

definition acd_host_get_conflicts_count :: "acd_host \<Rightarrow> u32" where
  "acd_host_get_conflicts_count a = conflicts a"

text \<open>The main loop runs the callback of the pending timer.\<close>

definition acd_fire :: "'n acd_env \<Rightarrow> 'n acd_world \<Rightarrow> 'n acd_world" where
  "acd_fire e w =
     (case acd_timeout (acd w) of
        None \<Rightarrow> w
      | Some (Acd_probe_timeout _) \<Rightarrow> acd_probe_timeout e w
      | Some (Acd_announce_timeout _) \<Rightarrow> acd_announce_timeout e w
      | Some (Acd_defend_timeout _) \<Rightarrow> acd_defend_timeout w)"

section \<open>The invariant of the detection\<close>

text \<open>
  The pending timer fits the state, the retry counter stays within the numbers of probes and
  announcements, and a detection that is under way has an open socket.
\<close>

definition acd_inv :: "acd_host \<Rightarrow> bool" where
  "acd_inv a \<longleftrightarrow>
     (case acd_state a of
        ACD_STATE_PROBE \<Rightarrow> retry_times a \<le> PROBE_NUM \<and>
          (acd_timeout a = None \<or> (\<exists>t \<le> 2000. acd_timeout a = Some (Acd_probe_timeout t)))
      | ACD_STATE_ANNOUNCE \<Rightarrow> 1 \<le> retry_times a \<and> retry_times a \<le> ANNOUNCE_NUM \<and>
          acd_timeout a = Some (Acd_announce_timeout 2000)
      | ACD_STATE_MONITOR \<Rightarrow> acd_timeout a = None
      | ACD_STATE_DEFEND \<Rightarrow> acd_timeout a = Some (Acd_defend_timeout 10000)) \<and>
     (listen_on a \<longleftrightarrow> 0 \<le> listener_sockfd a) \<and> (acd_watch a \<longrightarrow> listen_on a) \<and>
     (listen_on a \<or> acd_state a = ACD_STATE_PROBE \<and> acd_timeout a = None)"

named_theorems acd_simps \<open>the fields that an operation of the detection leaves or sets\<close>

lemma acd_upd_simps [acd_simps, simp]:
  "acd (upd_acd f w) = f (acd w)" "net (upd_acd f w) = net w" "acd_log (upd_acd f w) = acd_log w"
  by (simp_all add: upd_acd_def)

lemma send_arp_simps [acd_simps, simp]: "acd (send_arp e s w) = acd w" "net (send_arp e s w) = net w"
  by (simp_all add: send_arp_def)

lemma random_delay_le: "0 < s \<Longrightarrow> random_delay_ms r s \<le> s * 1000"
  by (simp add: random_delay_ms_def less_imp_le)

lemma acd_inv_stop: "acd_inv a \<Longrightarrow> acd_inv (acd_host_stop a)"
  by (auto simp: acd_inv_def acd_host_stop_def stop_listening_def remove_timeout_def Let_def)

lemma acd_inv_new: "acd_host_new (e :: 'n acd_env) i p = Some a \<Longrightarrow> acd_inv a"
  by (auto simp: acd_inv_def acd_host_new_def split: if_splits option.splits)

lemma acd_inv_start: "acd_inv a \<Longrightarrow> acd_inv (snd (acd_host_start e ip a))"
  using random_delay_le[of 1 "acd_random e"]
  by (auto simp: acd_inv_def acd_host_start_def start_listening_def remove_timeout_def
      split: acd_state.splits)

lemma acd_inv_register: "acd_inv a \<Longrightarrow> acd_inv (acd_host_register_event ev cb a)"
  by (cases ev) (auto simp: acd_inv_def cong: acd_state.case_cong)

lemma acd_inv_conflicts: "acd_inv (a\<lparr>conflicts := n\<rparr>) = acd_inv a"
  by (simp add: acd_inv_def cong: acd_state.case_cong)

lemma acd_inv_report: "acd_inv (acd (report_conflict e p w)) = acd_inv (acd w)"
  by (simp add: report_conflict_def acd_inv_def Let_def split: option.split cong: acd_state.case_cong)

lemma acd_inv_announce:
  assumes "listen_on (acd w)" "0 \<le> listener_sockfd (acd w)"
    and "acd_state (acd w) = ACD_STATE_DEFEND \<or>
      acd_state (acd w) = ACD_STATE_ANNOUNCE \<and> 1 \<le> retry_times (acd w) \<and> retry_times (acd w) \<le> ANNOUNCE_NUM"
  shows "acd_inv (acd (send_announce_packet e w))"
  using assms by (auto simp: acd_inv_def send_announce_packet_def remove_timeout_def)

lemma u32_le3_cases: "w \<le> 3 \<Longrightarrow> w = 0 \<or> w = 1 \<or> w = 2 \<or> w = 3" for w :: u32
  by (simp only: word_le_nat_alt word_nat) (auto simp: unat_inj_word)

lemma acd_inv_probe_timeout:
  assumes "acd_inv (acd w)" "acd_timeout (acd w) = Some (Acd_probe_timeout t)"
  shows "acd_inv (acd (acd_probe_timeout e w))"
proof -
  have st: "acd_state (acd w) = ACD_STATE_PROBE" "retry_times (acd w) \<le> 3" "listen_on (acd w)" "0 \<le> listener_sockfd (acd w)"
    using assms by (auto simp: acd_inv_def split: acd_state.splits)
  have d: "random_delay_ms (acd_random e) (Suc 0) \<le> 1000"
    using random_delay_le[of 1 "acd_random e"] by simp
  show ?thesis
  proof (cases "retry_times (acd w) = 3")
    case True
    then show ?thesis
      using st unfolding acd_probe_timeout_def by (simp add: Let_def acd_inv_announce)
  next
    case False
    then have "retry_times (acd w) + 1 \<le> 3" using u32_le3_cases[OF st(2)] by auto
    then show ?thesis using st d False
      by (simp add: acd_probe_timeout_def Let_def acd_inv_def send_probe_packet_def remove_timeout_def
          start_listening_def)
  qed
qed

text \<open>A client of the detection: what its callbacks may do (a set of behaviours) keeps the invariant.\<close>

locale acd_client =
  fixes cbs :: "(ptr \<Rightarrow> ptr \<Rightarrow> 'n acd_world \<Rightarrow> 'n acd_world) set"
  assumes cb_inv: "c \<in> cbs \<Longrightarrow> acd_inv (acd w) \<Longrightarrow> acd_inv (acd (c f d w))"
begin

lemma call_inv: "acd_call e \<in> cbs \<Longrightarrow> acd_inv (acd w) \<Longrightarrow> acd_inv (acd (call_cb e p w))"
  by (simp add: call_cb_def cb_inv split: option.split)

lemma announce_timeout_inv:
  assumes "acd_call e \<in> cbs" "acd_inv (acd w)" "acd_timeout (acd w) = Some (Acd_announce_timeout t)"
  shows "acd_inv (acd (acd_announce_timeout e w))"
proof -
  have st: "acd_state (acd w) = ACD_STATE_ANNOUNCE" "retry_times (acd w) \<le> 2" "1 \<le> retry_times (acd w)"
    "listen_on (acd w)" "0 \<le> listener_sockfd (acd w)"
    using assms by (auto simp: acd_inv_def split: acd_state.splits)
  show ?thesis
  proof (cases "retry_times (acd w) = 2")
    case False
    then have "retry_times (acd w) + 1 \<le> 2" "1 \<le> retry_times (acd w) + 1"
      using u32_le3_cases[OF order_trans[OF st(2)]] st False by auto
    then show ?thesis
      using st False unfolding acd_announce_timeout_def by (simp add: Let_def acd_inv_announce)
  next
    case True
    have "acd_inv ((acd w)\<lparr>acd_timeout := None, acd_state := ACD_STATE_MONITOR\<rparr>)"
      using st by (simp add: acd_inv_def)
    then show ?thesis
      using True by (simp add: acd_announce_timeout_def Let_def acd_inv_conflicts call_inv[OF assms(1)] acd_inv_report)
  qed
qed

lemma recv_inv:
  assumes "acd_call e \<in> cbs" "acd_inv (acd w)"
  shows "acd_inv (acd (snd (acd_recv_arp_packet e pkt w)))"
proof -
  note base = acd_inv_conflicts acd_inv_report call_inv[OF assms(1)] acd_inv_stop assms(2)
  have "acd_inv (acd (send_announce_packet e (upd_acd (\<lambda>a. a\<lparr>acd_state := ACD_STATE_DEFEND\<rparr>)
      (upd_acd (\<lambda>a. a\<lparr>conflicts := conflicts a + 1\<rparr>) w))))" if "acd_state (acd w) = ACD_STATE_MONITOR"
    using assms(2) that by (intro acd_inv_announce) (auto simp: acd_inv_def)
  then show ?thesis
    unfolding acd_recv_arp_packet_def by (auto simp: Let_def base split: option.split prod.split)
qed

lemma event_inv:
  "acd_call e \<in> cbs \<Longrightarrow> acd_inv (acd w) \<Longrightarrow> acd_inv (acd (snd (acd_listener_event e failed pkt w)))"
  by (auto simp: acd_listener_event_def recv_inv) (auto simp: acd_inv_def cong: acd_state.case_cong)

lemma fire_inv: "acd_call e \<in> cbs \<Longrightarrow> acd_inv (acd w) \<Longrightarrow> acd_inv (acd (acd_fire e w))"
  by (auto simp: acd_fire_def announce_timeout_inv acd_inv_probe_timeout acd_defend_timeout_def
      split: option.split acd_timer.split) (auto simp: acd_inv_def split: acd_state.splits)

end

text \<open>
  The runs of a detection with callbacks of the behaviours \<open>cbs\<close>: it is created, started, stopped and given
  callbacks by its client, its timers fire and its socket becomes readable or fails, in any
  order and in environments of any kind.
\<close>

inductive acd_reach :: "(ptr \<Rightarrow> ptr \<Rightarrow> 'n acd_world \<Rightarrow> 'n acd_world) set \<Rightarrow> 'n acd_world \<Rightarrow> bool" for cbs where
  new: "acd_host_new (e :: 'n acd_env) i p = Some a \<Longrightarrow> acd_reach cbs \<lparr>acd = a, net = n, acd_log = []\<rparr>"
| start: "acd_reach cbs w \<Longrightarrow> acd_reach cbs (upd_acd (\<lambda>a. snd (acd_host_start (e :: 'n acd_env) ip a)) w)"
| stop: "acd_reach cbs w \<Longrightarrow> acd_reach cbs (upd_acd acd_host_stop w)"
| register: "acd_reach cbs w \<Longrightarrow> acd_reach cbs (upd_acd (acd_host_register_event ev c) w)"
| fire: "acd_reach cbs w \<Longrightarrow> acd_call e \<in> cbs \<Longrightarrow> acd_reach cbs (acd_fire e w)"
| event: "acd_reach cbs w \<Longrightarrow> acd_call e \<in> cbs \<Longrightarrow> acd_watch (acd w) \<Longrightarrow>
    acd_reach cbs (snd (acd_listener_event e failed pkt w))"
| client: "acd_reach cbs w \<Longrightarrow> acd_reach cbs (w\<lparr>net := n\<rparr>)"

context acd_client
begin

lemma reach_inv: "acd_reach cbs w \<Longrightarrow> acd_inv (acd w)"
  by (induction rule: acd_reach.induct)
    (auto intro: acd_inv_new acd_inv_start acd_inv_stop acd_inv_register fire_inv event_inv)

end

section \<open>Probing, announcing, claiming\<close>

lemma arp_spa_zero: "u32_bytes le (htonl le ip) = [0, 0, 0, 0] \<longleftrightarrow> ip = 0"
proof -
  have "[0, 0, 0, 0] = u32_bytes le (htonl le 0)" by (cases le) (simp_all add: u32_bytes_def htonl_def)
  then show ?thesis by (simp only: u32_bytes_inj htonl_eq_iff)
qed

text \<open>What a host sends is what another host takes for a conflict on the address it asked for.\<close>

lemma arp_conflict_packet:
  "arp_conflict le a (arp_packet le mac src tgt) =
     (src = requested_ip a, src = 0 \<and> tgt = requested_ip a)"
  by (simp add: arp_conflict_def arp_packet_def Let_def u32_bytes_inj arp_spa_zero)

text \<open>The packets that leave when a host asks for, or announces, its address.\<close>

definition arp_out :: "'n acd_env \<Rightarrow> acd_host \<Rightarrow> u32 \<Rightarrow> acd_out list" where
  "arp_out e a source_ip = snd (arp_send_packet e (mac_address a) source_ip (requested_ip a) (acd_ifindex a))"

definition probing :: "u32 \<Rightarrow> acd_host \<Rightarrow> bool" where
  "probing n a \<longleftrightarrow> acd_state a = ACD_STATE_PROBE \<and> retry_times a = n \<and> listen_on a \<and>
     (\<exists>t. acd_timeout a = Some (Acd_probe_timeout t))"

definition announcing :: "u32 \<Rightarrow> acd_host \<Rightarrow> bool" where
  "announcing n a \<longleftrightarrow> acd_state a = ACD_STATE_ANNOUNCE \<and> retry_times a = n \<and> listen_on a \<and>
     (\<exists>t. acd_timeout a = Some (Acd_announce_timeout t))"

definition claim_frame :: "acd_host \<Rightarrow> acd_host \<Rightarrow> bool" where
  "claim_frame a b \<longleftrightarrow> requested_ip b = requested_ip a \<and> mac_address b = mac_address a \<and> acd_ifindex b = acd_ifindex a \<and>
     ipv4_available_cb b = ipv4_available_cb a \<and> ac_resolved b = ac_resolved a \<and> ac_ip b = ac_ip a \<and>
     ac_mac b = ac_mac a \<and> ac_timestamp b = ac_timestamp a \<and> acd_path b = acd_path a"

lemma claim_frame_trans: "claim_frame a b \<Longrightarrow> claim_frame b c \<Longrightarrow> claim_frame a c"
  by (simp add: claim_frame_def)

lemma arp_out_frame: "claim_frame a b \<Longrightarrow> arp_out e b s = arp_out e a s"
  by (simp add: claim_frame_def arp_out_def)

lemma fire_probing:
  assumes "probing n (acd w)" "n \<noteq> PROBE_NUM"
  shows "probing (n + 1) (acd (acd_fire e w)) \<and> claim_frame (acd w) (acd (acd_fire e w)) \<and>
    acd_log (acd_fire e w) = acd_log w @ arp_out e (acd w) 0"
  using assms
  by (cases "n = 0") (auto simp: probing_def acd_fire_def acd_probe_timeout_def Let_def send_probe_packet_def remove_timeout_def
      start_listening_def claim_frame_def send_arp_def arp_out_def upd_acd_def)

lemma fire_last_probe:
  assumes "probing PROBE_NUM (acd w)"
  shows "announcing 1 (acd (acd_fire e w)) \<and> claim_frame (acd w) (acd (acd_fire e w)) \<and>
    acd_log (acd_fire e w) = acd_log w @ arp_out e (acd w) (requested_ip (acd w))"
  using assms
  by (auto simp: probing_def announcing_def acd_fire_def acd_probe_timeout_def Let_def send_announce_packet_def
      remove_timeout_def claim_frame_def send_arp_def arp_out_def upd_acd_def)

lemma fire_announcing:
  assumes "announcing n (acd w)" "n \<noteq> ANNOUNCE_NUM"
  shows "announcing (n + 1) (acd (acd_fire e w)) \<and> claim_frame (acd w) (acd (acd_fire e w)) \<and>
    acd_log (acd_fire e w) = acd_log w @ arp_out e (acd w) (requested_ip (acd w))"
  using assms
  by (auto simp: announcing_def acd_fire_def acd_announce_timeout_def Let_def send_announce_packet_def
      remove_timeout_def claim_frame_def send_arp_def arp_out_def upd_acd_def)

text \<open>The world in which the client is told that the address is available.\<close>

definition claimed :: "'n acd_env \<Rightarrow> 'n acd_world \<Rightarrow> 'n acd_world" where
  "claimed e w =
     (let w2 = upd_acd (\<lambda>a. a\<lparr>acd_timeout := None, acd_state := ACD_STATE_MONITOR\<rparr>) w
      in if \<not> ac_resolved (acd w2) \<and> \<not> is_link_local (requested_ip (acd w2)) then report_conflict e None w2 else w2)"

lemma claimed_facts:
  "announcing n (acd w) \<Longrightarrow> acd_state (acd (claimed e w)) = ACD_STATE_MONITOR \<and> acd_timeout (acd (claimed e w)) = None \<and>
     listen_on (acd (claimed e w)) \<and> requested_ip (acd (claimed e w)) = requested_ip (acd w) \<and>
     (\<exists>r. acd_log (claimed e w) = acd_log w @ r \<and> (\<forall>p i. Arp_sent p i \<notin> set r))"
  by (auto simp: claimed_def announcing_def Let_def report_conflict_def upd_acd_def)

lemma fire_last_announce:
  assumes "announcing ANNOUNCE_NUM (acd w)"
  shows "acd_fire e w = upd_acd (\<lambda>a. a\<lparr>conflicts := 0\<rparr>) (call_cb e (ipv4_available_cb (acd w)) (claimed e w))"
  using assms
  by (auto simp: announcing_def acd_fire_def acd_announce_timeout_def Let_def claimed_def report_conflict_def upd_acd_def)

lemma start_probing:
  assumes "acd_host_start e ip a = (Inr (), b)"
  shows "probing 0 b" "requested_ip b = ip" "mac_address b = mac_address a" "acd_ifindex b = acd_ifindex a"
    "ipv4_available_cb b = ipv4_available_cb a"
  using assms
  by (auto simp: acd_host_start_def start_listening_def remove_timeout_def probing_def split: if_splits)

text \<open>
  C19. A host that starts the detection of an address and hears no conflict sends the three
  probes for it, then the two announcements, and only then tells its client that the address
  is available, in the monitoring state; six timers do it, whatever the random delays. The
  packets are those that the sockets let through: the outcome of sending is not looked at.
\<close>

theorem acd_claims_address:
  assumes start: "acd_host_start e ip (acd w) = (Inr (), a)"
  shows "\<exists>w' r. fold acd_fire [e1, e2, e3, e4, e5, e6] (w\<lparr>acd := a\<rparr>) =
           upd_acd (\<lambda>b. b\<lparr>conflicts := 0\<rparr>) (call_cb e6 (ipv4_available_cb (acd w)) w') \<and>
         acd_state (acd w') = ACD_STATE_MONITOR \<and> acd_timeout (acd w') = None \<and>
         listen_on (acd w') \<and> requested_ip (acd w') = ip \<and>
         acd_log w' = acd_log w @ arp_out e1 a 0 @ arp_out e2 a 0 @ arp_out e3 a 0 @
           arp_out e4 a ip @ arp_out e5 a ip @ r \<and> (\<forall>p i. Arp_sent p i \<notin> set r)"
proof -
  define w0 where "w0 = w\<lparr>acd := a\<rparr>"
  define w1 where "w1 = acd_fire e1 w0"
  define w2 where "w2 = acd_fire e2 w1"
  define w3 where "w3 = acd_fire e3 w2"
  define w4 where "w4 = acd_fire e4 w3"
  define w5 where "w5 = acd_fire e5 w4"
  note s = start_probing[OF start]
  have p1: "probing 1 (acd w1)" and f1: "claim_frame a (acd w1)" and l1: "acd_log w1 = acd_log w @ arp_out e1 a 0"
    using fire_probing[of 0 w0 e1] s by (auto simp: w0_def w1_def)
  have p2: "probing 2 (acd w2)" and f2: "claim_frame a (acd w2)" and l2: "acd_log w2 = acd_log w1 @ arp_out e2 a 0"
    using fire_probing[OF p1, of e2] claim_frame_trans[OF f1] arp_out_frame[OF f1] by (auto simp: w2_def)
  have p3: "probing 3 (acd w3)" and f3: "claim_frame a (acd w3)" and l3: "acd_log w3 = acd_log w2 @ arp_out e3 a 0"
    using fire_probing[OF p2, of e3] claim_frame_trans[OF f2] arp_out_frame[OF f2] by (auto simp: w3_def)
  have p4: "announcing 1 (acd w4)" and f4: "claim_frame a (acd w4)" and l4: "acd_log w4 = acd_log w3 @ arp_out e4 a ip"
    using fire_last_probe[OF p3, of e4] claim_frame_trans[OF f3] arp_out_frame[OF f3] f3 s
    by (auto simp: w4_def claim_frame_def)
  have p5: "announcing 2 (acd w5)" and f5: "claim_frame a (acd w5)" and l5: "acd_log w5 = acd_log w4 @ arp_out e5 a ip"
    using fire_announcing[OF p4, of e5] claim_frame_trans[OF f4] arp_out_frame[OF f4] f4 s
    by (auto simp: w5_def claim_frame_def)
  have "fold acd_fire [e1, e2, e3, e4, e5, e6] w0 = acd_fire e6 w5"
    by (simp add: w1_def w2_def w3_def w4_def w5_def)
  moreover have "ipv4_available_cb (acd w5) = ipv4_available_cb (acd w)" "requested_ip (acd w5) = ip"
    using f5 s by (simp_all add: claim_frame_def)
  ultimately show ?thesis
    using fire_last_announce[OF p5, of e6] claimed_facts[OF p5, of e6] l1 l2 l3 l4 l5
    by (auto simp: w0_def)
qed

definition demo_acd_env :: "(ptr \<Rightarrow> ptr \<Rightarrow> 'n acd_world \<Rightarrow> 'n acd_world) \<Rightarrow> 'n acd_env" where
  "demo_acd_env cb = \<lparr>acd_le = True, listen_socket = 5, listen_bind = 0, listen_channel = True, send_socket = 6,
     send_bind = 0, send_result = 28, acd_random = 77, real_time = 1000, acd_ifname = (\<lambda>i. Some ''wlan0''),
     acd_ifup = (\<lambda>i. True), acd_ifmac = (\<lambda>i. [2, 0, 0, 0, 0, word_of_int i]), acd_mem = True, acd_call = cb\<rparr>"

definition demo_acd :: acd_host where
  "demo_acd = the (acd_host_new (demo_acd_env (\<lambda>f d w. w) :: unit acd_env) 3 ''/net/connman/service/x'')"

theorem acd_claims_address_witness:
  "\<exists>w' r. fold acd_fire (replicate 6 (demo_acd_env (\<lambda>f d w. w)))
        \<lparr>acd = snd (acd_host_start (demo_acd_env (\<lambda>f d w. w) :: unit acd_env) 0x0a000005 demo_acd), net = (), acd_log = []\<rparr> = w' \<and>
     acd_state (acd w') = ACD_STATE_MONITOR \<and> length (acd_log w') = 5 + length (r :: acd_out list)"
proof -
  let ?e = "demo_acd_env (\<lambda>f d w. w) :: unit acd_env"
  let ?a = "snd (acd_host_start ?e 0x0a000005 demo_acd)"
  have s: "acd_host_start ?e 0x0a000005 (acd \<lparr>acd = demo_acd, net = (), acd_log = []\<rparr>) = (Inr (), ?a)"
    by (simp add: acd_host_start_def start_listening_def remove_timeout_def arp_socket_def demo_acd_env_def demo_acd_def acd_host_new_def)
  have [simp]: "ipv4_available_cb demo_acd = None" by (simp add: demo_acd_def acd_host_new_def demo_acd_env_def)
  have [simp]: "length (arp_out ?e a s) = 1" for a s
    by (simp add: arp_out_def arp_send_packet_def demo_acd_env_def)
  show ?thesis
    using acd_claims_address[OF s, of ?e ?e ?e ?e ?e ?e]
    by (auto simp: call_cb_def numeral_eq_Suc)
qed

section \<open>Conflicts\<close>

lemma htons_ops [simp]:
  "htons le ARPOP_REQUEST = htons le ARPOP_REPLY \<longleftrightarrow> False"
  by (cases le) (simp_all add: htons_def bswap_16_def)

text \<open>What a host in the probing or announcing state does on a conflict.\<close>

definition give_up :: "'n acd_env \<Rightarrow> ether_arp \<Rightarrow> 'n acd_world \<Rightarrow> 'n acd_world" where
  "give_up e p w =
     (let w1 = upd_acd (\<lambda>a. a\<lparr>conflicts := conflicts a + 1\<rparr>) w in
      if conflicts (acd w1) < MAX_CONFLICTS
      then upd_acd acd_host_stop (if is_link_local (requested_ip (acd w)) then w1 else report_conflict e (Some p) w1)
      else upd_acd acd_host_stop w1)"

lemma give_up_facts:
  "acd_state (acd (give_up e p w)) = ACD_STATE_PROBE" "acd_timeout (acd (give_up e p w)) = None"
  "listen_on (acd (give_up e p w)) = False" "conflicts (acd (give_up e p w)) = conflicts (acd w) + 1"
  "ipv4_conflict_cb (acd (give_up e p w)) = ipv4_conflict_cb (acd w)"
  "ipv4_max_conflicts_cb (acd (give_up e p w)) = ipv4_max_conflicts_cb (acd w)"
  "net (give_up e p w) = net w"
  by (simp_all add: give_up_def Let_def acd_host_stop_def stop_listening_def remove_timeout_def report_conflict_def)

lemma recv_before_claim:
  assumes "arp_op p = htons (acd_le e) ARPOP_REQUEST" "arp_sha p \<noteq> mac_address (acd w)"
    and "arp_conflict (acd_le e) (acd w) p = (s, t)" "s \<or> t"
    and "acd_state (acd w) = ACD_STATE_PROBE \<or> acd_state (acd w) = ACD_STATE_ANNOUNCE"
  shows "acd_recv_arp_packet e (Some p) w =
    (Inr (), call_cb e (if conflicts (acd w) + 1 < MAX_CONFLICTS then ipv4_conflict_cb (acd w) else ipv4_max_conflicts_cb (acd w))
       (give_up e p w))"
  using assms by (auto simp: acd_recv_arp_packet_def give_up_def give_up_facts Let_def report_conflict_def
      acd_host_stop_def stop_listening_def remove_timeout_def)

definition demo_acd_world :: "acd_state \<Rightarrow> unit acd_world" where
  "demo_acd_world st = \<lparr>acd = (snd (acd_host_start (demo_acd_env (\<lambda>f d w. w) :: unit acd_env) 0xa9fe0705 demo_acd))\<lparr>acd_state := st\<rparr>,
     net = (), acd_log = []\<rparr>"

lemma demo_acd_world_simps:
  "acd_state (acd (demo_acd_world st)) = st" "requested_ip (acd (demo_acd_world st)) = 0xa9fe0705"
  "mac_address (acd (demo_acd_world st)) = [2, 0, 0, 0, 0, 3]" "acd_log (demo_acd_world st) = []"
  "conflicts (acd (demo_acd_world st)) = 0"
  by (simp_all add: demo_acd_world_def acd_host_start_def start_listening_def remove_timeout_def arp_socket_def
      demo_acd_env_def demo_acd_def acd_host_new_def)

text \<open>
  C21. Two hosts that want the same address notice each other. When a host that is still probing
  for, or announcing, an address receives a probe or an announcement that another interface sent
  for that address, it gives the address up: the detection is stopped, the socket closed, the
  conflict counted, and the client told, by its conflict callback for the first nine conflicts
  in a row and by the other callback from the tenth on.
\<close>

theorem acd_conflict_detected:
  assumes other: "Arp_sent p i \<in> set (arp_out e' b src)" and same: "requested_ip b = requested_ip (acd w)"
    and src: "src = 0 \<or> src = requested_ip b" and le: "acd_le e' = acd_le e"
    and mac: "take ETH_ALEN (mac_address b) \<noteq> mac_address (acd w)"
    and st: "acd_state (acd w) = ACD_STATE_PROBE \<or> acd_state (acd w) = ACD_STATE_ANNOUNCE"
  shows "\<exists>w'. acd_recv_arp_packet e (Some p) w =
           (Inr (), call_cb e (if conflicts (acd w) + 1 < MAX_CONFLICTS then ipv4_conflict_cb (acd w)
                               else ipv4_max_conflicts_cb (acd w)) w') \<and>
         acd_state (acd w') = ACD_STATE_PROBE \<and> acd_timeout (acd w') = None \<and> \<not> listen_on (acd w') \<and>
         conflicts (acd w') = conflicts (acd w) + 1"
proof -
  have p: "p = arp_packet (acd_le e) (mac_address b) src (requested_ip b)"
    using other le by (auto simp: arp_out_def arp_send_packet_def split: if_splits)
  have "arp_conflict (acd_le e) (acd w) p = (src = requested_ip (acd w), src = 0 \<and> requested_ip b = requested_ip (acd w))"
    by (simp only: p arp_conflict_packet)
  moreover have "arp_op p = htons (acd_le e) ARPOP_REQUEST" "arp_sha p \<noteq> mac_address (acd w)"
    using mac by (simp_all add: p arp_packet_def)
  ultimately show ?thesis
    using recv_before_claim[of p e w _ _] src same st give_up_facts[of e p w] by blast
qed

theorem acd_conflict_detected_witness:
  "\<exists>w'. snd (acd_recv_arp_packet (demo_acd_env (\<lambda>f d w. w))
        (Some (arp_packet True [2, 0, 0, 0, 0, 9] 0 0xa9fe0705)) (demo_acd_world ACD_STATE_ANNOUNCE)) =
      call_cb (demo_acd_env (\<lambda>f d w. w)) (ipv4_conflict_cb (acd (demo_acd_world ACD_STATE_ANNOUNCE))) w' \<and>
     acd_state (acd w') = ACD_STATE_PROBE \<and> \<not> listen_on (acd w')"
proof -
  let ?e = "demo_acd_env (\<lambda>f d w. w) :: unit acd_env"
  let ?b = "(acd (demo_acd_world ACD_STATE_PROBE))\<lparr>mac_address := [2, 0, 0, 0, 0, 9]\<rparr>"
  have "Arp_sent (arp_packet True [2, 0, 0, 0, 0, 9] 0 0xa9fe0705) (acd_ifindex ?b) \<in> set (arp_out ?e ?b 0)"
    by (simp add: arp_out_def arp_send_packet_def demo_acd_env_def demo_acd_world_simps)
  then show ?thesis
    using acd_conflict_detected[where p = "arp_packet True [2, 0, 0, 0, 0, 9] 0 0xa9fe0705" and e' = ?e and b = ?b
        and src = 0 and e = ?e and w = "demo_acd_world ACD_STATE_ANNOUNCE"]
    by (fastforce simp: demo_acd_world_simps)
qed

text \<open>
  C23. A claimed address is defended once. The first announcement of the address by another
  interface makes a monitoring host announce it itself and wait ten seconds in the defending
  state; a second one in that time is the loss of the address, which the client is told; when
  the ten seconds pass quietly the host monitors again and forgets its conflicts. The probes of
  others are only counted.
\<close>

theorem acd_defends_once:
  assumes mac: "take ETH_ALEN mac \<noteq> mac_address (acd w)" and ip: "requested_ip (acd w) \<noteq> 0"
    and st: "acd_state (acd w) = ACD_STATE_MONITOR"
    and p: "p = arp_packet (acd_le e) mac (requested_ip (acd w)) tgt"
    and w1: "w1 = snd (acd_recv_arp_packet e (Some p) w)"
  shows "acd_state (acd w1) = ACD_STATE_DEFEND \<and>
    acd_timeout (acd w1) = Some (Acd_defend_timeout 10000) \<and>
    acd_log w1 = acd_log w @ arp_out e (acd w) (requested_ip (acd w)) \<and>
    acd_state (acd (acd_fire e w1)) = ACD_STATE_MONITOR \<and> conflicts (acd (acd_fire e w1)) = 0 \<and>
    (\<exists>w2. acd_recv_arp_packet e (Some p) w1 = (Inr (), call_cb e (ipv4_lost_cb (acd w)) w2) \<and>
      acd_state (acd w2) = ACD_STATE_DEFEND) \<and>
    acd_recv_arp_packet e (Some (arp_packet (acd_le e) mac 0 tgt)) w1 =
      (Inr (), if tgt = requested_ip (acd w) then upd_acd (\<lambda>a. a\<lparr>conflicts := conflicts a + 1\<rparr>) w1 else w1)"
proof -
  have c: "arp_conflict (acd_le e) a p = (requested_ip (acd w) = requested_ip a, False)" for a
    using ip by (simp only: p arp_conflict_packet) simp
  have ops: "arp_op (arp_packet (acd_le e) mac s t) = htons (acd_le e) ARPOP_REQUEST"
      "arp_sha (arp_packet (acd_le e) mac s t) \<noteq> mac_address (acd w)" for s t
    using mac by (simp_all add: arp_packet_def)
  have w1': "w1 = send_announce_packet e (upd_acd (\<lambda>a. a\<lparr>conflicts := conflicts a + 1, acd_state := ACD_STATE_DEFEND\<rparr>) w)"
    using st ops c by (simp add: w1 acd_recv_arp_packet_def p Let_def upd_acd_def)
  then have f: "acd_state (acd w1) = ACD_STATE_DEFEND" "mac_address (acd w1) = mac_address (acd w)"
      "requested_ip (acd w1) = requested_ip (acd w)" "ipv4_lost_cb (acd w1) = ipv4_lost_cb (acd w)"
      "acd_timeout (acd w1) = Some (Acd_defend_timeout 10000)"
    by (simp_all add: send_announce_packet_def remove_timeout_def)
  have l: "acd_log w1 = acd_log w @ arp_out e (acd w) (requested_ip (acd w))"
    by (simp add: w1' send_announce_packet_def send_arp_def arp_out_def)
  have "\<exists>w2. acd_recv_arp_packet e (Some p) w1 = (Inr (), call_cb e (ipv4_lost_cb (acd w)) w2) \<and>
      acd_state (acd w2) = ACD_STATE_DEFEND"
    using c[of "acd w1"] ops f by (auto simp: acd_recv_arp_packet_def p Let_def report_conflict_def)
  moreover have "acd_recv_arp_packet e (Some (arp_packet (acd_le e) mac 0 tgt)) w1 =
      (Inr (), if tgt = requested_ip (acd w) then upd_acd (\<lambda>a. a\<lparr>conflicts := conflicts a + 1\<rparr>) w1 else w1)"
    using arp_conflict_packet[of "acd_le e" "acd w1" mac 0 tgt] ops[of 0 tgt] f ip
    by (auto simp: acd_recv_arp_packet_def)
  ultimately show ?thesis using f l by (simp add: acd_fire_def acd_defend_timeout_def)
qed

theorem acd_defends_once_witness:
  "\<exists>w1. w1 = snd (acd_recv_arp_packet (demo_acd_env (\<lambda>f d w. w))
        (Some (arp_packet True [2, 0, 0, 0, 0, 9] 0xa9fe0705 0xa9fe0705)) (demo_acd_world ACD_STATE_MONITOR)) \<and>
     acd_state (acd w1) = ACD_STATE_DEFEND \<and> length (acd_log w1) = 1"
proof -
  let ?e = "demo_acd_env (\<lambda>f d w. w) :: unit acd_env"
  have [simp]: "length (arp_out ?e a s) = 1" for a s
    by (simp add: arp_out_def arp_send_packet_def demo_acd_env_def)
  have [simp]: "acd_le ?e = True" by (simp add: demo_acd_env_def)
  show ?thesis
    using acd_defends_once[OF _ _ _ refl refl, of "[2, 0, 0, 0, 0, 9]" "demo_acd_world ACD_STATE_MONITOR" ?e "0xa9fe0705"]
    by (simp add: demo_acd_world_simps)
qed

section \<open>Link-local addresses\<close>

lemma arp_random_loop_unfold:
  "arp_random_loop draws n =
     (let tmp = ucast (draws n) AND IN_CLASSB_HOST in
      if tmp > IN_CLASSB_HOST - 0x0200 then arp_random_loop draws (n + 1) else Some (tmp, n + 1))"
  by (rule arp_random_loop.simps)

lemma arp_random_loop_returns:
  assumes "(ucast (draws m) :: u32) AND IN_CLASSB_HOST \<le> IN_CLASSB_HOST - 0x0200" "n \<le> m"
  shows "\<exists>tmp k. arp_random_loop draws n = Some (tmp, k) \<and> tmp \<le> IN_CLASSB_HOST - 0x0200 \<and> n < k \<and> k \<le> m + 1"
  using assms(2)
proof (induction "m - n" arbitrary: n)
  case 0
  then show ?case using assms(1) by (subst arp_random_loop_unfold) (auto simp: Let_def dest: leD)
next
  case (Suc d)
  show ?case
  proof (cases "(ucast (draws n) :: u32) AND IN_CLASSB_HOST > IN_CLASSB_HOST - 0x0200")
    case True
    moreover have "d = m - (n + 1)" "n + 1 \<le> m" using Suc.hyps(2) by simp_all
    ultimately show ?thesis
      using Suc.hyps(1)[of "n + 1"] by (subst arp_random_loop_unfold) (auto simp: Let_def)
  next
    case False
    then show ?thesis using Suc.prems by (subst arp_random_loop_unfold) (simp add: Let_def)
  qed
qed

lemma linklocal_range:
  fixes tmp :: u32
  assumes "tmp \<le> 0xfdff"
  shows "LINKLOCAL_ADDR + 0x0100 + tmp \<ge> 0xa9fe0100 \<and> LINKLOCAL_ADDR + 0x0100 + tmp \<le> 0xa9fefeff"
proof -
  have "unat tmp \<le> 0xfdff" using assms by (simp add: word_le_nat_alt)
  then have "unat (0xa9fe0100 + tmp) = 0xa9fe0100 + unat tmp" by (subst unat_add_lem[THEN iffD1]) simp_all
  then show ?thesis using \<open>unat tmp \<le> 0xfdff\<close> by (simp add: word_le_nat_alt)
qed

text \<open>
  The random link-local address lies between 169.254.1.0 and 169.254.254.255, and the draw
  ends as soon as one of the random numbers is acceptable.
\<close>

lemma arp_random_ip_range:
  assumes "(ucast (draws m) :: u32) AND IN_CLASSB_HOST \<le> IN_CLASSB_HOST - 0x0200" "n \<le> m"
  shows "\<exists>ip k. arp_random_ip draws n = Some (ip, k) \<and> 0xa9fe0100 \<le> ip \<and> ip \<le> 0xa9fefeff \<and> n < k \<and> k \<le> m + 1"
  using arp_random_loop_returns[of draws m n, OF assms] linklocal_range by (auto simp: arp_random_ip_def)

text \<open>The test for a link-local address compares the set bits only: other addresses pass it.\<close>

lemma is_link_local_overmatch:
  "is_link_local (ip4 185 254 0 1) \<and> ip4 185 254 0 1 AND 0xffff0000 \<noteq> LINKLOCAL_ADDR"
  by (simp add: is_link_local_def ip4_def)

text \<open>
  After an error on its socket a host listens no more, and starting the detection again does not
  open another socket.
\<close>

lemma acd_restart_after_error_deaf:
  assumes "listen_on (acd w)"
  shows "\<not> acd_watch (snd (acd_host_start e' ip (acd (snd (acd_listener_event e True pkt w)))))"
  using assms by (simp add: acd_listener_event_def acd_host_start_def start_listening_def remove_timeout_def)

end
