(* ===== verification/AcdNetwork.thy ===== *)
theory AcdNetwork
  imports Acd
begin

text \<open>
  The network's use of address conflict detection, \<open>src/src/network.c\<close>: an address given by DHCP
  is checked before it is configured, a conflict sends a DHCP decline and at the second one the
  network falls back to a random link-local address. The state is what these functions read and
  write of the network, of its service and of the IPv4 configuration; the calls into other parts
  of the program are recorded in \<open>net_calls\<close>, and the results of those calls that the code looks
  at come from \<open>net_env\<close>. The callbacks are the code addresses 1 to 4.
\<close>

section \<open>State\<close>

datatype net_call =
    Ipconfig_address_add | Ipconfig_gateway_add | Ipconfig_address_remove | Ipconfig_gateway_remove
  | Ipconfig_enable | Service_save | Set_error_configure_fail | Network_enable_ipconfig | Dhcp_decline | Dhcp_start

abbreviation "DHCP_RETRY_TIMEOUT \<equiv> 10 :: nat"

record acd_net =
  has_service :: bool
  has_ip4config :: bool
  has_address :: bool
  ip4_local :: "string option"
  ip4_method :: ipconfig_method
  ip4_type :: ipconfig_type
  has_acd_host :: bool
  ipv4ll_timeout :: "nat option"
  dhcp_timeout :: "nat option"
  net_connecting :: bool
  net_calls :: "net_call list"
  draw_pos :: nat
  net_stuck :: bool

record net_env =
  address_add_result :: int
  gateway_add_result :: int
  dhcp_start_result :: int
  inet_pton :: "string \<Rightarrow> u32 option"
  uninit_addr :: u32
  conflict_detection :: bool
  ip_index :: int
  service_path :: string
  draws :: "nat \<Rightarrow> 64 word"

type_synonym net_world = "acd_net acd_world"

definition upd_net :: "(acd_net \<Rightarrow> acd_net) \<Rightarrow> net_world \<Rightarrow> net_world" where
  "upd_net f w = w\<lparr>net := f (net w)\<rparr>"

definition net_do :: "net_call \<Rightarrow> net_world \<Rightarrow> net_world" where
  "net_do c = upd_net (\<lambda>n. n\<lparr>net_calls := net_calls n @ [c]\<rparr>)"

definition ipconfig_set_local :: "string option \<Rightarrow> acd_net \<Rightarrow> acd_net" where
  "ipconfig_set_local address n = (if \<not> has_address n then n else n\<lparr>ip4_local := address\<rparr>)"

definition ipconfig_get_local :: "acd_net \<Rightarrow> string option" where
  "ipconfig_get_local n = (if \<not> has_address n then None else ip4_local n)"

section \<open>Starting the detection\<close>

abbreviation "CB_AVAILABLE \<equiv> 1 :: ptr"
abbreviation "CB_LOST \<equiv> 2 :: ptr"
abbreviation "CB_CONFLICT \<equiv> 3 :: ptr"
abbreviation "CB_MAXCONFLICT \<equiv> 4 :: ptr"
abbreviation "NETWORK \<equiv> 1 :: ptr"

definition remove_ipv4ll_timeout :: "net_world \<Rightarrow> net_world" where
  "remove_ipv4ll_timeout = upd_net (\<lambda>n. n\<lparr>ipv4ll_timeout := None\<rparr>)"

definition register_callbacks :: "acd_host \<Rightarrow> acd_host" where
  "register_callbacks a =
     acd_host_register_event ACD_HOST_EVENT_IPV4_MAXCONFLICT (Some (CB_MAXCONFLICT, NETWORK))
      (acd_host_register_event ACD_HOST_EVENT_IPV4_CONFLICT (Some (CB_CONFLICT, NETWORK))
       (acd_host_register_event ACD_HOST_EVENT_IPV4_LOST (Some (CB_LOST, NETWORK))
        (acd_host_register_event ACD_HOST_EVENT_IPV4_AVAILABLE (Some (CB_AVAILABLE, NETWORK)) a)))"

definition start_acd :: "acd_net acd_env \<Rightarrow> net_env \<Rightarrow> net_world \<Rightarrow> unit result \<times> net_world" where
  "start_acd e q w =
     (let w1 = remove_ipv4ll_timeout w in
      if \<not> has_service (net w1) then (Inl EINVAL, w1)
      else if \<not> has_ip4config (net w1) then (Inl EINVAL, w1)
      else
        case (if has_acd_host (net w1) then Some w1
              else case acd_host_new e (ip_index q) (service_path q) of
                     None \<Rightarrow> None
                   | Some a \<Rightarrow> Some (upd_net (\<lambda>n. n\<lparr>has_acd_host := True\<rparr>) (w1\<lparr>acd := register_callbacks a\<rparr>))) of
          None \<Rightarrow> (Inl EINVAL, w1)
        | Some w2 \<Rightarrow>
            (case ipconfig_get_local (net w2) of
               None \<Rightarrow> (Inl EINVAL, w2)
             | Some address \<Rightarrow>
                 let addr = (case inet_pton q address of Some v \<Rightarrow> v | None \<Rightarrow> uninit_addr q)
                 in (Inr (), upd_acd (\<lambda>a. snd (acd_host_start e addr a)) w2)))"

text \<open>\<open>net_stuck\<close> marks a draw of a random address that never ends.\<close>

definition start_ipv4ll :: "acd_net acd_env \<Rightarrow> net_env \<Rightarrow> net_world \<Rightarrow> unit result \<times> net_world" where
  "start_ipv4ll e q w =
     (if \<not> has_service (net w) then (Inl EINVAL, w)
      else if \<not> has_ip4config (net w) then (Inl EINVAL, w)
      else case arp_random_ip (draws q) (draw_pos (net w)) of
        None \<Rightarrow> (Inl EINVAL, upd_net (\<lambda>n. n\<lparr>net_stuck := True\<rparr>) w)
      | Some (ip, k) \<Rightarrow>
          start_acd e q (upd_net (\<lambda>n. ipconfig_set_local (Some (dotted_quad ip)) (n\<lparr>draw_pos := k\<rparr>)) w))"

definition start_ipv4ll_ontimeout :: "acd_net acd_env \<Rightarrow> net_env \<Rightarrow> ptr \<Rightarrow> net_world \<Rightarrow> net_world" where
  "start_ipv4ll_ontimeout e q network w = (if network = 0 then w else snd (start_ipv4ll e q w))"

section \<open>The callbacks\<close>

definition configure_address :: "net_env \<Rightarrow> net_world \<Rightarrow> net_world" where
  "configure_address q w =
     (let w1 = net_do Ipconfig_address_add w in
      if address_add_result q < 0 then net_do Set_error_configure_fail w1
      else let w2 = net_do Ipconfig_gateway_add w1 in
        if gateway_add_result q < 0 then net_do Set_error_configure_fail w2
        else net_do Service_save w2)"

definition acd_host_ipv4_available :: "net_env \<Rightarrow> ptr \<Rightarrow> net_world \<Rightarrow> net_world" where
  "acd_host_ipv4_available q network w =
     (if network = 0 then w
      else if \<not> has_service (net w) then w
      else if \<not> has_ip4config (net w) then w
      else configure_address q w)"

definition acd_host_ipv4_lost :: "acd_net acd_env \<Rightarrow> net_env \<Rightarrow> ptr \<Rightarrow> net_world \<Rightarrow> net_world" where
  "acd_host_ipv4_lost e q network w =
     (if network = 0 then w
      else if \<not> has_service (net w) then w
      else if \<not> has_ip4config (net w) then w
      else if ip4_type (net w) \<noteq> CONNMAN_IPCONFIG_TYPE_IPV4 then w
      else let w1 = net_do Ipconfig_address_remove w in
        if ip4_method (net w1) = CONNMAN_IPCONFIG_METHOD_DHCP then net_do Network_enable_ipconfig w1
        else snd (start_ipv4ll e q w1))"

definition remove_dhcp_timeout :: "net_world \<Rightarrow> net_world" where
  "remove_dhcp_timeout = upd_net (\<lambda>n. n\<lparr>dhcp_timeout := None\<rparr>)"

definition connman_network_set_connected_dhcp_later :: "nat \<Rightarrow> net_world \<Rightarrow> net_world" where
  "connman_network_set_connected_dhcp_later sec w =
     upd_net (\<lambda>n. n\<lparr>dhcp_timeout := Some sec\<rparr>) (remove_dhcp_timeout w)"

definition acd_host_ipv4_conflict :: "acd_net acd_env \<Rightarrow> net_env \<Rightarrow> net_world \<Rightarrow> net_world" where
  "acd_host_ipv4_conflict e q w =
     (if \<not> has_service (net w) then w
      else if \<not> has_ip4config (net w) then w
      else
        let method = ip4_method (net w) in
        if method = CONNMAN_IPCONFIG_METHOD_DHCP \<and> acd_host_get_conflicts_count (acd w) < 2 then
          upd_net (ipconfig_set_local None)
            (connman_network_set_connected_dhcp_later DHCP_RETRY_TIMEOUT (net_do Dhcp_decline w))
        else
          snd (start_ipv4ll e q
            (if method = CONNMAN_IPCONFIG_METHOD_DHCP
             then net_do Dhcp_decline (upd_net (\<lambda>n. n\<lparr>ip4_method := CONNMAN_IPCONFIG_METHOD_AUTO\<rparr>) w) else w)))"

definition acd_host_ipv4_maxconflict :: "net_world \<Rightarrow> net_world" where
  "acd_host_ipv4_maxconflict w =
     upd_net (\<lambda>n. n\<lparr>ipv4ll_timeout := Some RATE_LIMIT_INTERVAL\<rparr>) (remove_ipv4ll_timeout w)"

definition net_callback :: "acd_net acd_env \<Rightarrow> net_env \<Rightarrow> ptr \<Rightarrow> ptr \<Rightarrow> net_world \<Rightarrow> net_world" where
  "net_callback e q f network w =
     (if f = CB_AVAILABLE then acd_host_ipv4_available q network w
      else if f = CB_LOST then acd_host_ipv4_lost e q network w
      else if f = CB_CONFLICT then acd_host_ipv4_conflict e q w
      else if f = CB_MAXCONFLICT then acd_host_ipv4_maxconflict w
      else w)"

definition net_acd_env :: "acd_net acd_env \<Rightarrow> net_env \<Rightarrow> acd_net acd_env" where
  "net_acd_env e q = e\<lparr>acd_call := net_callback e q\<rparr>"

section \<open>DHCP\<close>

definition dhcp_success :: "acd_net acd_env \<Rightarrow> net_env \<Rightarrow> net_world \<Rightarrow> net_world" where
  "dhcp_success e q w =
     (if \<not> has_service (net w) then net_do Set_error_configure_fail w
      else if \<not> has_ip4config (net w) then w
      else if conflict_detection q then
        (case start_acd e q w of
           (Inr _, w1) \<Rightarrow> w1
         | (Inl _, w1) \<Rightarrow> configure_address q w1)
      else configure_address q w)"

definition dhcp_failure :: "net_world \<Rightarrow> net_world" where
  "dhcp_failure w =
     (if \<not> has_service (net w) then w
      else if \<not> has_ip4config (net w) then w
      else net_do Ipconfig_gateway_remove (net_do Ipconfig_address_remove w))"

definition dhcp_callback :: "acd_net acd_env \<Rightarrow> net_env \<Rightarrow> bool \<Rightarrow> net_world \<Rightarrow> net_world" where
  "dhcp_callback e q success w =
     (let w1 = upd_net (\<lambda>n. n\<lparr>net_connecting := False\<rparr>) w in
      if success then dhcp_success e q w1 else dhcp_failure w1)"

definition set_connected_dhcp :: "net_env \<Rightarrow> net_world \<Rightarrow> int \<times> net_world" where
  "set_connected_dhcp q w =
     (let w1 = net_do Dhcp_start (net_do Ipconfig_enable (remove_dhcp_timeout w)) in
      if dhcp_start_result q < 0 then (dhcp_start_result q, w1) else (0, w1))"

definition set_connected_dhcp_timout :: "net_env \<Rightarrow> net_world \<Rightarrow> net_world" where
  "set_connected_dhcp_timout q w =
     (let w1 = upd_net (\<lambda>n. n\<lparr>dhcp_timeout := None\<rparr>) w in
      if \<not> has_service (net w1) then w1
      else if \<not> has_ip4config (net w1) then w1
      else if ip4_method (net w1) = CONNMAN_IPCONFIG_METHOD_DHCP then snd (set_connected_dhcp q w1)
      else w1)"

section \<open>The callbacks keep the detection well formed\<close>

lemma net_upd_simps [simp]:
  "acd (upd_net f w) = acd w" "net (upd_net f w) = f (net w)" "acd_log (upd_net f w) = acd_log w"
  by (simp_all add: upd_net_def)

lemma net_do_simps [simp]: "acd (net_do c w) = acd w" "acd_log (net_do c w) = acd_log w"
  "net (net_do c w) = (net w)\<lparr>net_calls := net_calls (net w) @ [c]\<rparr>"
  by (simp_all add: net_do_def)

lemmas net_defs = remove_ipv4ll_timeout_def remove_dhcp_timeout_def configure_address_def
  connman_network_set_connected_dhcp_later_def

lemma acd_inv_register_callbacks: "acd_inv a \<Longrightarrow> acd_inv (register_callbacks a)"
  by (simp add: register_callbacks_def acd_inv_register del: acd_host_register_event.simps)

lemma start_acd_inv: "acd_inv (acd w) \<Longrightarrow> acd_inv (acd (snd (start_acd e q w)))"
  unfolding start_acd_def
  by (auto simp: Let_def net_defs acd_inv_start acd_inv_register_callbacks acd_inv_new
      split: option.splits)

lemma start_ipv4ll_inv: "acd_inv (acd w) \<Longrightarrow> acd_inv (acd (snd (start_ipv4ll e q w)))"
  unfolding start_ipv4ll_def by (auto intro!: start_acd_inv split: option.split)

text \<open>The network is a client that keeps the invariant of the detection, in every environment.\<close>

interpretation network: acd_client "{c. \<exists>e q. c = net_callback e q}"
proof (rule acd_client.intro)
  fix c f d and w :: net_world
  assume "c \<in> {c. \<exists>e q. c = net_callback e q}" and inv: "acd_inv (acd w)"
  then obtain e q where c: "c = net_callback e q" by blast
  show "acd_inv (acd (c f d w))"
    using inv unfolding c net_callback_def
    by (auto simp: acd_host_ipv4_available_def acd_host_ipv4_lost_def acd_host_ipv4_conflict_def
        acd_host_ipv4_maxconflict_def net_defs Let_def start_ipv4ll_inv)
qed

text \<open>
  C16. In every run of the detection with the callbacks of the network the pending timer fits the
  state, the retry counters stay in range, and a detection that is under way has an open socket,
  although the callbacks start and stop the detection themselves.
\<close>

theorem network_acd_inv:
  assumes "acd_reach {c. \<exists>e q. c = net_callback e q} w"
  shows "acd_inv (acd w)"
  using assms by (rule network.reach_inv)

definition demo_net_env :: net_env where
  "demo_net_env = \<lparr>address_add_result = 0, gateway_add_result = 0, dhcp_start_result = 0,
     inet_pton = (\<lambda>s. if s = dotted_quad 0xa9fe0205 then Some 0xa9fe0205 else if s = ''10.0.0.5'' then Some 0x0a000005 else None),
     uninit_addr = 0, conflict_detection = True, ip_index = 3, service_path = ''/x'', draws = (\<lambda>n. 0x0105)\<rparr>"

definition demo_net :: acd_net where
  "demo_net = \<lparr>has_service = True, has_ip4config = True, has_address = True, ip4_local = Some ''10.0.0.5'',
     ip4_method = CONNMAN_IPCONFIG_METHOD_DHCP, ip4_type = CONNMAN_IPCONFIG_TYPE_IPV4, has_acd_host = False,
     ipv4ll_timeout = None, dhcp_timeout = None, net_connecting = True, net_calls = [], draw_pos = 0, net_stuck = False\<rparr>"

definition demo_net_acd_env :: "acd_net acd_env" where
  "demo_net_acd_env = net_acd_env (demo_acd_env (\<lambda>f d w. w)) demo_net_env"

theorem network_acd_inv_witness:
  "acd_inv (acd (acd_fire demo_net_acd_env (acd_fire demo_net_acd_env
     (upd_acd (\<lambda>a. snd (acd_host_start demo_net_acd_env 0x0a000005 a)) \<lparr>acd = demo_acd, net = demo_net, acd_log = []\<rparr>))))"
proof -
  let ?C = "{c. \<exists>e q. c = net_callback e q}"
  have "acd_host_new demo_net_acd_env 3 ''/net/connman/service/x'' = Some demo_acd"
    by (simp add: demo_acd_def demo_net_acd_env_def net_acd_env_def acd_host_new_def demo_acd_env_def)
  then have "acd_reach ?C \<lparr>acd = demo_acd, net = demo_net, acd_log = []\<rparr>" by (rule acd_reach.new)
  moreover have "acd_call demo_net_acd_env \<in> ?C"
    by (auto simp: demo_net_acd_env_def net_acd_env_def)
  ultimately show ?thesis by (intro network_acd_inv acd_reach.fire acd_reach.start)
qed

section \<open>From DHCP to a link-local address\<close>

lemma net_acd_env_simps [simp]:
  "acd_le (net_acd_env e q) = acd_le e" "acd_call (net_acd_env e q) = net_callback e q"
  "start_listening (net_acd_env e q) = start_listening e" "arp_out (net_acd_env e q) = arp_out e"
  by (auto simp: net_acd_env_def start_listening_def arp_socket_def arp_out_def arp_send_packet_def fun_eq_iff)

lemma acd_host_start_ok:
  assumes "0 \<le> arp_socket e" "listen_channel e"
  shows "\<exists>b. acd_host_start e ip a = (Inr (), b) \<and> conflicts b = conflicts a"
  using assms by (auto simp: acd_host_start_def start_listening_def remove_timeout_def)

text \<open>The network is set up for the detection: it has its configuration and its callbacks.\<close>

definition acd_set_up :: "net_world \<Rightarrow> bool" where
  "acd_set_up w \<longleftrightarrow> has_service (net w) \<and> has_ip4config (net w) \<and> has_address (net w) \<and> has_acd_host (net w) \<and>
     ipv4_conflict_cb (acd w) = Some (CB_CONFLICT, NETWORK) \<and>
     ipv4_max_conflicts_cb (acd w) = Some (CB_MAXCONFLICT, NETWORK)"

lemma start_ipv4ll_probes:
  assumes "has_service (net w)" "has_ip4config (net w)" "has_address (net w)" "has_acd_host (net w)"
    and sock: "0 \<le> arp_socket e" "listen_channel e"
    and draw: "(ucast (draws q m) :: u32) AND IN_CLASSB_HOST \<le> IN_CLASSB_HOST - 0x0200" "draw_pos (net w) \<le> m"
    and pton: "\<And>ip k. arp_random_ip (draws q) (draw_pos (net w)) = Some (ip, k) \<Longrightarrow> inet_pton q (dotted_quad ip) = Some ip"
  shows "\<exists>ip w'. start_ipv4ll e q w = (Inr (), w') \<and> 0xa9fe0100 \<le> ip \<and> ip \<le> 0xa9fefeff \<and>
    probing 0 (acd w') \<and> requested_ip (acd w') = ip \<and> ip4_local (net w') = Some (dotted_quad ip) \<and>
    ip4_method (net w') = ip4_method (net w) \<and> net_calls (net w') = net_calls (net w)"
proof -
  obtain ip k where ip: "arp_random_ip (draws q) (draw_pos (net w)) = Some (ip, k)" "0xa9fe0100 \<le> ip" "ip \<le> 0xa9fefeff"
    using arp_random_ip_range[of "draws q" m "draw_pos (net w)", OF draw] by blast
  obtain b where b: "acd_host_start e ip (acd w) = (Inr (), b)"
    using acd_host_start_ok[OF sock] by blast
  note s = start_probing[OF b]
  show ?thesis
    using assms(1-4) ip b s pton[OF ip(1)]
    by (auto simp: start_ipv4ll_def start_acd_def net_defs Let_def ipconfig_set_local_def ipconfig_get_local_def)
qed

lemma recv_calls_network:
  assumes p: "p = arp_packet (acd_le e) mac src (requested_ip (acd w))" "src = 0 \<or> src = requested_ip (acd w)"
    and mac: "take ETH_ALEN mac \<noteq> mac_address (acd w)"
    and st: "acd_state (acd w) = ACD_STATE_PROBE \<or> acd_state (acd w) = ACD_STATE_ANNOUNCE"
    and up: "acd_set_up w"
  shows "acd_recv_arp_packet (net_acd_env e q) (Some p) w =
    (Inr (), if conflicts (acd w) + 1 < MAX_CONFLICTS then acd_host_ipv4_conflict e q (give_up (net_acd_env e q) p w)
             else acd_host_ipv4_maxconflict (give_up (net_acd_env e q) p w))"
proof -
  have "arp_conflict (acd_le (net_acd_env e q)) (acd w) p =
      (src = requested_ip (acd w), src = 0 \<and> requested_ip (acd w) = requested_ip (acd w))"
    by (simp add: p arp_conflict_packet)
  then show ?thesis
    using recv_before_claim[of p "net_acd_env e q" w] p mac st up
    by (auto simp: arp_packet_def acd_set_up_def call_cb_def net_callback_def)
qed

definition demo_conflict_world :: "u32 \<Rightarrow> net_world" where
  "demo_conflict_world n =
     (let w = snd (start_acd (demo_acd_env (\<lambda>f d w. w)) demo_net_env \<lparr>acd = demo_acd, net = demo_net, acd_log = []\<rparr>)
      in w\<lparr>acd := (acd w)\<lparr>conflicts := n\<rparr>\<rparr>)"

lemma demo_conflict_world_simps:
  "acd_set_up (demo_conflict_world n)" "acd_state (acd (demo_conflict_world n)) = ACD_STATE_PROBE"
  "requested_ip (acd (demo_conflict_world n)) = 0x0a000005" "mac_address (acd (demo_conflict_world n)) = [2, 0, 0, 0, 0, 3]"
  "conflicts (acd (demo_conflict_world n)) = n" "ip4_method (net (demo_conflict_world n)) = CONNMAN_IPCONFIG_METHOD_DHCP"
  "net_calls (net (demo_conflict_world n)) = []" "draw_pos (net (demo_conflict_world n)) = 0"
proof -
  have q: "inet_pton demo_net_env ''10.0.0.5'' = Some 0x0a000005"
    by (simp add: demo_net_env_def dotted_quad_def show_nat.simps)
  show "acd_set_up (demo_conflict_world n)" "acd_state (acd (demo_conflict_world n)) = ACD_STATE_PROBE"
    "requested_ip (acd (demo_conflict_world n)) = 0x0a000005" "mac_address (acd (demo_conflict_world n)) = [2, 0, 0, 0, 0, 3]"
    "conflicts (acd (demo_conflict_world n)) = n" "ip4_method (net (demo_conflict_world n)) = CONNMAN_IPCONFIG_METHOD_DHCP"
    "net_calls (net (demo_conflict_world n)) = []" "draw_pos (net (demo_conflict_world n)) = 0"
    using q by (simp_all add: demo_conflict_world_def start_acd_def demo_net_def net_defs Let_def ipconfig_get_local_def
        acd_host_new_def demo_acd_env_def acd_host_start_def start_listening_def remove_timeout_def arp_socket_def
        register_callbacks_def acd_set_up_def) (simp_all add: demo_net_env_def)
qed

abbreviation "demo_rival \<equiv> arp_packet True [2, 0, 0, 0, 0, 9] 0 0x0a000005"

text \<open>
  C29. The first conflict on an address given by DHCP declines the address, forgets it and asks
  DHCP again after ten seconds; the detection is off in the meantime and no address is configured.
\<close>

theorem dhcp_conflict_declines:
  assumes p: "p = arp_packet (acd_le e) mac src (requested_ip (acd w))" "src = 0 \<or> src = requested_ip (acd w)"
    and mac: "take ETH_ALEN mac \<noteq> mac_address (acd w)"
    and st: "acd_state (acd w) = ACD_STATE_PROBE \<or> acd_state (acd w) = ACD_STATE_ANNOUNCE"
    and up: "acd_set_up w"
    and dhcp: "ip4_method (net w) = CONNMAN_IPCONFIG_METHOD_DHCP" and first: "conflicts (acd w) = 0"
    and w': "w' = snd (acd_recv_arp_packet (net_acd_env e q) (Some p) w)"
  shows "net_calls (net w') = net_calls (net w) @ [Dhcp_decline] \<and> dhcp_timeout (net w') = Some 10 \<and>
    ip4_local (net w') = None \<and> ip4_method (net w') = CONNMAN_IPCONFIG_METHOD_DHCP \<and>
    \<not> listen_on (acd w') \<and> acd_timeout (acd w') = None \<and>
    net_calls (net (set_connected_dhcp_timout q w')) = net_calls (net w') @ [Ipconfig_enable, Dhcp_start]"
  using up dhcp first give_up_facts[of "net_acd_env e q" p w]
  by (simp add: w' recv_calls_network[OF p mac st up] acd_host_ipv4_conflict_def acd_set_up_def
      acd_host_get_conflicts_count_def net_defs ipconfig_set_local_def set_connected_dhcp_timout_def
      set_connected_dhcp_def Let_def)

theorem dhcp_conflict_declines_witness:
  "net_calls (net (snd (acd_recv_arp_packet demo_net_acd_env (Some demo_rival) (demo_conflict_world 0)))) = [Dhcp_decline]"
  unfolding demo_net_acd_env_def
  using dhcp_conflict_declines[where e = "demo_acd_env (\<lambda>f d w. w)" and w = "demo_conflict_world 0" and q = demo_net_env
      and mac = "[2, 0, 0, 0, 0, 9]" and src = 0, OF refl _ _ _ _ _ _ refl]
  by (simp add: demo_conflict_world_simps demo_acd_env_def)

text \<open>
  C27. A later conflict on a DHCP address, or any conflict before the tenth on an address chosen
  otherwise, makes the network pick a random link-local address and probe for it; a DHCP
  network declines its address and leaves the method DHCP. The address parser is assumed to read
  back the dotted-quad form of the address that is drawn, and one random number to be acceptable.
\<close>

theorem conflict_falls_back_to_ipv4ll:
  assumes p: "p = arp_packet (acd_le e) mac src (requested_ip (acd w))" "src = 0 \<or> src = requested_ip (acd w)"
    and mac: "take ETH_ALEN mac \<noteq> mac_address (acd w)"
    and st: "acd_state (acd w) = ACD_STATE_PROBE \<or> acd_state (acd w) = ACD_STATE_ANNOUNCE"
    and up: "acd_set_up w"
    and n: "conflicts (acd w) + 1 < MAX_CONFLICTS"
    and later: "ip4_method (net w) \<noteq> CONNMAN_IPCONFIG_METHOD_DHCP \<or> 2 \<le> conflicts (acd w) + 1"
    and sock: "0 \<le> arp_socket e" "listen_channel e"
    and draw: "(ucast (draws q m) :: u32) AND IN_CLASSB_HOST \<le> IN_CLASSB_HOST - 0x0200" "draw_pos (net w) \<le> m"
    and pton: "\<And>ip k. arp_random_ip (draws q) (draw_pos (net w)) = Some (ip, k) \<Longrightarrow> inet_pton q (dotted_quad ip) = Some ip"
    and w': "w' = snd (acd_recv_arp_packet (net_acd_env e q) (Some p) w)"
  shows "\<exists>ip. 0xa9fe0100 \<le> ip \<and> ip \<le> 0xa9fefeff \<and> probing 0 (acd w') \<and> requested_ip (acd w') = ip \<and>
    ip4_local (net w') = Some (dotted_quad ip) \<and> ip4_method (net w') \<noteq> CONNMAN_IPCONFIG_METHOD_DHCP \<and>
    net_calls (net w') = net_calls (net w) @
      (if ip4_method (net w) = CONNMAN_IPCONFIG_METHOD_DHCP then [Dhcp_decline] else [])"
proof -
  define g where "g = give_up (net_acd_env e q) p w"
  define v where "v = (if ip4_method (net w) = CONNMAN_IPCONFIG_METHOD_DHCP
    then net_do Dhcp_decline (upd_net (\<lambda>n. n\<lparr>ip4_method := CONNMAN_IPCONFIG_METHOD_AUTO\<rparr>) g) else g)"
  note g = give_up_facts[of "net_acd_env e q" p w, folded g_def]
  have "w' = snd (start_ipv4ll e q v)"
    using n later up g
    by (auto simp: w' recv_calls_network[OF p mac st up] acd_host_ipv4_conflict_def acd_set_up_def
        acd_host_get_conflicts_count_def Let_def v_def not_less simp flip: g_def)
  moreover have "has_service (net v)" "has_ip4config (net v)" "has_address (net v)" "has_acd_host (net v)"
      "draw_pos (net v) = draw_pos (net w)" "ip4_method (net v) \<noteq> CONNMAN_IPCONFIG_METHOD_DHCP"
      "net_calls (net v) = net_calls (net w) @ (if ip4_method (net w) = CONNMAN_IPCONFIG_METHOD_DHCP then [Dhcp_decline] else [])"
    using up g by (simp_all add: v_def acd_set_up_def)
  ultimately show ?thesis
    using start_ipv4ll_probes[of v e q m, OF _ _ _ _ sock draw(1)] draw(2) pton by fastforce
qed

theorem conflict_falls_back_to_ipv4ll_witness:
  "\<exists>ip. 0xa9fe0100 \<le> ip \<and> ip \<le> 0xa9fefeff \<and>
     requested_ip (acd (snd (acd_recv_arp_packet demo_net_acd_env (Some demo_rival) (demo_conflict_world 1)))) = ip"
proof -
  have "arp_random_ip (draws demo_net_env) 0 = Some (0xa9fe0205, 1)"
    by (simp add: arp_random_ip_def arp_random_loop_unfold demo_net_env_def Let_def)
  moreover have "inet_pton demo_net_env (dotted_quad 0xa9fe0205) = Some 0xa9fe0205"
    by (simp add: demo_net_env_def)
  ultimately show ?thesis
    unfolding demo_net_acd_env_def
    using conflict_falls_back_to_ipv4ll[where e = "demo_acd_env (\<lambda>f d w. w)" and w = "demo_conflict_world 1" and q = demo_net_env
      and mac = "[2, 0, 0, 0, 0, 9]" and src = 0 and m = 0, OF refl _ _ _ _ _ _ _ _ _ _ _ refl]
    by (auto simp: demo_conflict_world_simps demo_acd_env_def arp_socket_def) (auto simp: demo_net_env_def)
qed

text \<open>
  C31. When the socket of the detection cannot be opened, an address given by DHCP is never
  configured: the failure is not passed on, so the network neither checks nor adds the address,
  and no timer is left to do it.
\<close>

theorem dhcp_success_socket_failure:
  assumes "acd_set_up w" "ip4_local (net w) \<noteq> None" "conflict_detection q" "arp_socket e < 0" "\<not> listen_on (acd w)"
  shows "net_calls (net (dhcp_success e q w)) = net_calls (net w) \<and> acd_timeout (acd (dhcp_success e q w)) = None \<and>
    \<not> listen_on (acd (dhcp_success e q w)) \<and> ipv4ll_timeout (net (dhcp_success e q w)) = None"
  using assms
  by (auto simp: dhcp_success_def acd_set_up_def start_acd_def net_defs Let_def ipconfig_get_local_def
      acd_host_start_def start_listening_def remove_timeout_def)

theorem dhcp_success_socket_failure_witness:
  "net_calls (net (dhcp_success (demo_acd_env (\<lambda>f d w. w)\<lparr>listen_socket := -1\<rparr>) demo_net_env
     (upd_acd acd_host_stop (demo_conflict_world 0)))) = []"
proof -
  let ?w = "upd_acd acd_host_stop (demo_conflict_world 0)"
  have "acd_set_up ?w" "\<not> listen_on (acd ?w)" "ip4_local (net ?w) \<noteq> None" "net_calls (net ?w) = []"
    using demo_conflict_world_simps[of 0]
    by (auto simp: acd_set_up_def acd_host_stop_def stop_listening_def remove_timeout_def Let_def)
      (simp_all add: demo_conflict_world_def start_acd_def demo_net_def net_defs Let_def ipconfig_get_local_def
        acd_host_new_def demo_acd_env_def demo_net_env_def)
  then show ?thesis
    using dhcp_success_socket_failure[of ?w demo_net_env "demo_acd_env (\<lambda>f d w. w)\<lparr>listen_socket := -1\<rparr>"]
    by (simp add: arp_socket_def demo_net_env_def demo_acd_env_def)
qed

end
