(* ===== verification/GWebHttp.thy ===== *)
theory GWebHttp
  imports Prelude
begin

text \<open>
  The HTTP client's reading of a response, \<open>src/gweb/gweb.c\<close>: the header lines, the chunked body
  and the scanner for tagged sections of a page. A buffer is a list of characters, the length of
  which is the byte count that the C function is given; a string with its terminating zero is what
  stands before the first zero character. What a function passes to the result callback is its
  last component. Sizes are unbounded numbers except where the code can wrap them.
\<close>

section \<open>Strings of the C library\<close>

abbreviation "CR \<equiv> CHR 0x0D"
abbreviation "LF \<equiv> CHR 0x0A"
abbreviation "TAB \<equiv> CHR 0x09"
abbreviation "ULONG_MAX \<equiv> 2 ^ 64 - 1 :: nat"

definition c_str :: "string \<Rightarrow> string" where
  "c_str s = takeWhile (\<lambda>c. c \<noteq> CHR 0x00) s"

definition c_isspace :: "char \<Rightarrow> bool" where
  "c_isspace c \<longleftrightarrow> c = CHR '' '' \<or> (0x09 \<le> (of_char c :: nat) \<and> (of_char c :: nat) \<le> 0x0d)"

text \<open>The value of a digit; 36 for a character that is no digit of any base.\<close>

definition digit_val :: "char \<Rightarrow> nat" where
  "digit_val c =
     (let n = of_char c :: nat in
      if 48 \<le> n \<and> n \<le> 57 then n - 48
      else if 65 \<le> n \<and> n \<le> 90 then n - 55
      else if 97 \<le> n \<and> n \<le> 122 then n - 87
      else 36)"

text \<open>\<open>strtoul\<close>: the value and the number of characters it consumes.\<close>

definition strtoul :: "nat \<Rightarrow> string \<Rightarrow> nat \<times> nat" where
  "strtoul base s =
     (let s1 = dropWhile c_isspace s;
          neg = (s1 \<noteq> [] \<and> hd s1 = CHR ''-'');
          s2 = (if s1 \<noteq> [] \<and> (hd s1 = CHR ''-'' \<or> hd s1 = CHR ''+'') then tl s1 else s1);
          s3 = (if base = 16 \<and> 2 < length s2 \<and> hd s2 = CHR ''0'' \<and> (s2 ! 1 = CHR ''x'' \<or> s2 ! 1 = CHR ''X'') \<and>
                   digit_val (s2 ! 2) < 16 then drop 2 s2 else s2);
          ds = takeWhile (\<lambda>c. digit_val c < base) s3;
          v = foldl (\<lambda>v c. v * base + digit_val c) 0 ds
      in if ds = [] then (0, 0)
         else (if v > ULONG_MAX then ULONG_MAX else if neg then (2 ^ 64 - v) mod 2 ^ 64 else v,
               length s - (length s3 - length ds)))"

section \<open>State\<close>

datatype chunk_state = CHUNK_SIZE | CHUNK_R_BODY | CHUNK_N_BODY | CHUNK_DATA

datatype web_errno = EILSEQ

datatype web_out = Result_data string | Result_failure | Result_end

abbreviation "DEFAULT_BUFFER_SIZE \<equiv> 2048 :: nat"

record web_session =
  header_done :: bool
  current_header :: string
  chunck_state :: chunk_state
  chunk_size :: nat
  chunk_left :: nat
  total_len :: nat
  web_status :: nat
  use_chunk :: bool
  last_key :: "string option"
  headers :: "string \<rightharpoonup> string"
  transport_watch :: bool
  connect_timeout :: bool

text \<open>The session as \<open>do_request\<close> leaves it for the reading of the response.\<close>

definition web_session_new :: web_session where
  "web_session_new = \<lparr>header_done = False, current_header = '''', chunck_state = CHUNK_SIZE, chunk_size = 0, chunk_left = 0,
     total_len = 0, web_status = 0, use_chunk = False, last_key = None, headers = Map.empty, transport_watch = True, connect_timeout = True\<rparr>"

section \<open>The chunked body\<close>

text \<open>
  \<open>decode_chunked\<close> on the bytes of one read. The size line is read with \<open>strtoul\<close>; \<open>einval s\<close>
  says whether \<open>errno\<close> is \<open>EINVAL\<close> after the call on the line \<open>s\<close>, which the code does not
  clear before the call.
\<close>

function decode_chunked :: "(string \<Rightarrow> bool) \<Rightarrow> web_session \<Rightarrow> string \<Rightarrow> (web_errno + unit) \<times> web_session \<times> web_out list" where
  "decode_chunked einval s buf =
     (if buf = [] then (Inr (), s, [])
      else case chunck_state s of
        CHUNK_SIZE \<Rightarrow>
          if LF \<notin> set buf then (Inr (), s\<lparr>current_header := current_header s @ buf\<rparr>, [])
          else
            let line = takeWhile (\<lambda>c. c \<noteq> LF) buf; rest = drop (length line + 1) buf in
            if line = [] \<or> last line \<noteq> CR then (Inl EILSEQ, s, [])
            else
              let hdr = current_header s @ line;
                  counter = fst (strtoul 16 (c_str hdr)) in
              if (counter = 0 \<and> einval (c_str hdr)) \<or> counter = ULONG_MAX
              then (Inl EILSEQ, s\<lparr>current_header := hdr\<rparr>, [])
              else decode_chunked einval
                     (s\<lparr>current_header := hdr, chunk_size := counter, chunk_left := counter, chunck_state := CHUNK_DATA\<rparr>) rest
      | CHUNK_R_BODY \<Rightarrow>
          if hd buf \<noteq> CR then (Inl EILSEQ, s, [])
          else decode_chunked einval (s\<lparr>chunck_state := CHUNK_N_BODY\<rparr>) (tl buf)
      | CHUNK_N_BODY \<Rightarrow>
          if hd buf \<noteq> LF then (Inl EILSEQ, s, [])
          else decode_chunked einval (s\<lparr>chunck_state := CHUNK_SIZE\<rparr>) (tl buf)
      | CHUNK_DATA \<Rightarrow>
          if chunk_size s = 0 then (Inr (), s\<lparr>current_header := ''''\<rparr>, [])
          else if chunk_left s \<le> length buf then
            let n = chunk_left s;
                (r, t, o') = decode_chunked einval
                  (s\<lparr>total_len := (total_len s + n) mod 2 ^ 64, chunk_left := 0, current_header := '''', chunck_state := CHUNK_R_BODY\<rparr>)
                  (drop n buf)
            in (r, t, Result_data (take n buf) # o')
          else
            (Inr (), s\<lparr>chunk_left := chunk_left s - length buf, total_len := (total_len s + length buf) mod 2 ^ 64\<rparr>,
             [Result_data buf]))"
  by pat_completeness auto
termination
  by (relation "measure (\<lambda>(e, s, buf). 2 * length buf + (if chunck_state s = CHUNK_DATA then 1 else 0))")
    (auto simp: neq_Nil_conv dest: in_set_conv_decomp_first[THEN iffD1])

declare decode_chunked.simps [simp del]

definition handle_body :: "(string \<Rightarrow> bool) \<Rightarrow> web_session \<Rightarrow> string \<Rightarrow> (web_errno + unit) \<times> web_session \<times> web_out list" where
  "handle_body einval s buf =
     (if \<not> use_chunk s then (Inr (), s, if buf \<noteq> [] then [Result_data buf] else [])
      else case decode_chunked einval s buf of
        (Inl e, t, outs) \<Rightarrow> (Inl e, t, outs @ [Result_failure])
      | (Inr u, t, outs) \<Rightarrow> (Inr u, t, outs))"

section \<open>The header lines\<close>

definition is_blank :: "char \<Rightarrow> bool" where
  "is_blank c \<longleftrightarrow> c = CHR '' '' \<or> c = TAB"

definition handle_multi_line :: "web_session \<Rightarrow> web_session" where
  "handle_multi_line s =
     (case last_key s of None \<Rightarrow> s | Some key \<Rightarrow>
      let str = c_str (current_header s) in
      if str = [] \<or> \<not> is_blank (hd str) then s
      else
        let count = length (takeWhile is_blank str);
            s1 = s\<lparr>current_header := CHR '' '' # drop count (current_header s)\<rparr>
        in case headers s1 key of
             None \<Rightarrow> s1
           | Some value \<Rightarrow>
               let hdr = value @ current_header s1
               in s1\<lparr>current_header := hdr, headers := (headers s1)(key \<mapsto> c_str hdr)\<rparr>)"

definition add_header_field :: "web_session \<Rightarrow> web_session" where
  "add_header_field s =
     (let str = current_header s in
      if CHR '':'' \<notin> set str then s
      else
        let name = takeWhile (\<lambda>c. c \<noteq> CHR '':'') str;
            key = c_str name;
            field = dropWhile (\<lambda>c. c = CHR '' '') (drop (length name + 1) str);
            hdr = (case headers s key of None \<Rightarrow> field | Some value \<Rightarrow> value @ ''; '' @ field)
        in s\<lparr>current_header := hdr, headers := (headers s)(key \<mapsto> c_str hdr), last_key := Some key\<rparr>)"

text \<open>The status code of a line, as \<open>sscanf\<close> with the format \<open>HTTP/%*s %u %*s\<close> finds it.\<close>

definition scan_status :: "string \<Rightarrow> nat option" where
  "scan_status s =
     (if take 5 s \<noteq> ''HTTP/'' then None
      else
        let s1 = dropWhile c_isspace (drop 5 s);
            s2 = dropWhile (\<lambda>c. \<not> c_isspace c) s1;
            s3 = dropWhile c_isspace s2
        in if s1 = [] then None
           else if snd (strtoul 10 s3) = 0 then None
           else Some (fst (strtoul 10 s3) mod 2 ^ 32))"

definition is_chunked :: "string \<Rightarrow> bool" where
  "is_chunked value = list_ex (\<lambda>i. take 7 (drop i value) = ''chunked'') [0..<length value]"

text \<open>The end of the headers: the body follows, chunked if the header says so.\<close>

definition finish_headers :: "web_session \<Rightarrow> web_session" where
  "finish_headers s =
     (let s1 = s\<lparr>header_done := True\<rparr> in
      case headers s1 ''Transfer-Encoding'' of
        None \<Rightarrow> s1
      | Some value \<Rightarrow>
          if is_chunked value
          then s1\<lparr>use_chunk := True, chunck_state := CHUNK_SIZE, chunk_left := 0, total_len := 0\<rparr> else s1)"

definition header_line :: "web_session \<Rightarrow> web_session" where
  "header_line s =
     (let str = c_str (current_header s);
          s1 = (if web_status s = 0
                then case scan_status str of None \<Rightarrow> s | Some code \<Rightarrow> s\<lparr>web_status := code mod 2 ^ 16\<rparr> else s);
          s2 = (if str \<noteq> [] \<and> is_blank (hd str) then handle_multi_line s1 else add_header_field s1)
      in s2\<lparr>current_header := ''''\<rparr>)"

function receive_headers :: "(string \<Rightarrow> bool) \<Rightarrow> web_session \<Rightarrow> string \<Rightarrow> bool \<times> web_session \<times> web_out list" where
  "receive_headers einval s buf =
     (if buf = [] then (True, s, [])
      else if LF \<notin> set buf then (True, s\<lparr>current_header := current_header s @ buf\<rparr>, [])
      else
        let line = takeWhile (\<lambda>c. c \<noteq> LF) buf;
            rest = drop (length line + 1) buf;
            text = (if line \<noteq> [] \<and> last line = CR then butlast line else line);
            s1 = s\<lparr>current_header := current_header s @ text\<rparr>
        in if current_header s1 = [] then
             case handle_body einval (finish_headers s1) rest of
               (Inl _, t, outs) \<Rightarrow> (False, t\<lparr>transport_watch := False\<rparr>, outs)
             | (Inr _, t, outs) \<Rightarrow> (True, t, outs)
           else receive_headers einval (header_line s1) rest)"
  by pat_completeness auto
termination
  by (relation "measure (\<lambda>(e, s, buf). length buf)")
    (auto dest: in_set_conv_decomp_first[THEN iffD1])

declare receive_headers.simps [simp del]

definition received_data_continue :: "(string \<Rightarrow> bool) \<Rightarrow> web_session \<Rightarrow> string \<Rightarrow> bool \<times> web_session \<times> web_out list" where
  "received_data_continue einval s buf =
     (if header_done s then
        case handle_body einval s buf of
          (Inl _, t, outs) \<Rightarrow> (False, t\<lparr>transport_watch := False\<rparr>, outs)
        | (Inr _, t, outs) \<Rightarrow> (True, t, outs)
      else receive_headers einval s buf)"

text \<open>
  A read of the channel: what the watch reports, and the status and the bytes of the read. Every
  status but a normal or repeated one ends the session, with a failure for an error and for a
  connection that the server closes before the first header.
\<close>

datatype io_status = G_IO_STATUS_ERROR | G_IO_STATUS_NORMAL | G_IO_STATUS_EOF | G_IO_STATUS_AGAIN

definition received_data_finalize :: "web_session \<Rightarrow> io_status \<Rightarrow> nat \<Rightarrow> nat \<Rightarrow> web_session \<times> web_out list" where
  "received_data_finalize s status bytes_available bytes_read =
     (s\<lparr>transport_watch := False\<rparr>,
      if status = G_IO_STATUS_ERROR then [Result_failure]
      else if status = G_IO_STATUS_EOF \<and> 0 < bytes_available \<and> bytes_read = 0 \<and> headers s = Map.empty then [Result_failure]
      else [Result_end])"

definition received_data :: "(string \<Rightarrow> bool) \<Rightarrow> bool \<Rightarrow> io_status \<Rightarrow> string \<Rightarrow> web_session \<Rightarrow> bool \<times> web_session \<times> web_out list" where
  "received_data einval failed status buf s =
     (let bytes_available = DEFAULT_BUFFER_SIZE - 1; s1 = s\<lparr>connect_timeout := False\<rparr> in
      if failed then (False, s1\<lparr>transport_watch := False\<rparr>, [Result_failure])
      else if status \<noteq> G_IO_STATUS_NORMAL \<and> status \<noteq> G_IO_STATUS_AGAIN then
        let (t, outs) = received_data_finalize s1 status bytes_available (length buf) in (False, t, outs)
      else received_data_continue einval s1 buf)"

section \<open>Tagged sections\<close>

record web_parser =
  begin_token :: string
  end_token :: string
  token_str :: string
  token_pos :: nat
  intoken :: bool
  parser_content :: string

definition g_web_parser_new :: "string \<Rightarrow> string \<Rightarrow> web_parser" where
  "g_web_parser_new beg fin =
     \<lparr>begin_token = beg, end_token = fin, token_str = beg, token_pos = 0, intoken = False, parser_content = ''''\<rparr>"

text \<open>One turn of the loop of \<open>g_web_parser_feed_data\<close>: the parser, the rest of the data, and the section found, if any.\<close>

definition feed_step :: "web_parser \<Rightarrow> string \<Rightarrow> web_parser \<times> string \<times> string option" where
  "feed_step p buf =
     (let chr = (if token_pos p < length (token_str p) then token_str p ! token_pos p else CHR 0x00) in
      if token_pos p = 0 then
        (if chr \<notin> set buf
         then (if intoken p then p\<lparr>parser_content := parser_content p @ buf\<rparr> else p, [], None)
         else
           let n = length (takeWhile (\<lambda>c. c \<noteq> chr) buf) + 1 in
           ((if intoken p then p\<lparr>parser_content := parser_content p @ take n buf\<rparr> else p)\<lparr>token_pos := 1\<rparr>, drop n buf, None))
      else
        let p1 = (if intoken p then p\<lparr>parser_content := parser_content p @ [hd buf]\<rparr> else p) in
        if hd buf \<noteq> chr then (p1\<lparr>token_pos := 0\<rparr>, tl buf, None)
        else if token_pos p + 1 \<noteq> length (token_str p) then (p1\<lparr>token_pos := token_pos p + 1\<rparr>, tl buf, None)
        else if \<not> intoken p1 then
          (p1\<lparr>parser_content := parser_content p1 @ token_str p1, intoken := True, token_str := end_token p1, token_pos := 0\<rparr>,
           tl buf, None)
        else
          (p1\<lparr>parser_content := '''', intoken := False, token_str := begin_token p1, token_pos := 0\<rparr>, tl buf, Some (parser_content p1)))"

lemma feed_step_shorter: "buf \<noteq> [] \<Longrightarrow> length (fst (snd (feed_step p buf))) < length buf"
  by (auto simp: feed_step_def Let_def dest: in_set_conv_decomp_first[THEN iffD1])

function g_web_parser_feed_data :: "web_parser \<Rightarrow> string \<Rightarrow> web_parser \<times> string list" where
  "g_web_parser_feed_data p buf =
     (if buf = [] then (p, [])
      else let (p1, rest, found) = feed_step p buf;
               (p2, more) = g_web_parser_feed_data p1 rest
           in (p2, (case found of None \<Rightarrow> more | Some str \<Rightarrow> str # more)))"
  by pat_completeness auto
termination
  by (relation "measure (\<lambda>(p, buf). length buf)") (use feed_step_shorter in \<open>auto, (metis fst_conv snd_conv)+\<close>)

declare g_web_parser_feed_data.simps [simp del]

section \<open>A body split over reads\<close>

fun out_data :: "web_out \<Rightarrow> string" where
  "out_data (Result_data d) = d"
| "out_data Result_failure = ''''"
| "out_data Result_end = ''''"

definition body_of :: "web_out list \<Rightarrow> string" where
  "body_of outs = concat (map out_data outs)"

lemma body_of_simps [simp]:
  "body_of [] = ''''" "body_of (Result_data d # os) = d @ body_of os" "body_of (os @ ps) = body_of os @ body_of ps"
  "body_of (Result_failure # os) = body_of os"
  by (simp_all add: body_of_def)

lemma takeWhile_LF_append:
  "LF \<in> set a \<Longrightarrow> takeWhile (\<lambda>c. c \<noteq> LF) (a @ b) = takeWhile (\<lambda>c. c \<noteq> LF) a"
  "LF \<notin> set a \<Longrightarrow> takeWhile (\<lambda>c. c \<noteq> LF) (a @ b) = a @ takeWhile (\<lambda>c. c \<noteq> LF) b"
  by (induction a) auto

lemma takeWhile_LF_length: "LF \<in> set a \<Longrightarrow> length (takeWhile (\<lambda>c. c \<noteq> LF) a) + 1 \<le> length a"
  by (induction a) auto

lemma decode_nil [simp]: "decode_chunked e s [] = (Inr (), s, [])"
  by (subst decode_chunked.simps) simp

lemma decode_size_no_line:
  assumes "chunck_state s = CHUNK_SIZE" "LF \<notin> set a" "a \<noteq> []" "b \<noteq> []" "hd b \<noteq> LF"
    and "decode_chunked e (s\<lparr>current_header := current_header s @ a\<rparr>) b = (r, s2, o2)"
  shows "\<exists>t. decode_chunked e s (a @ b) = (r, t, o2) \<and> (r = Inr () \<longrightarrow> t = s2)"
proof -
  have tw: "takeWhile (\<lambda>c. c \<noteq> LF) (a @ b) = a @ takeWhile (\<lambda>c. c \<noteq> LF) b"
    using assms(2) by (rule takeWhile_LF_append)
  have ne: "takeWhile (\<lambda>c. c \<noteq> LF) b \<noteq> []" using assms(4,5) by (cases b) auto
  show ?thesis
    using assms(1-6) ne
    unfolding decode_chunked.simps[of e s "a @ b"] decode_chunked.simps[of e _ b]
    by (auto simp: tw Let_def split: if_splits)
qed

text \<open>The session after the data of a chunk is complete.\<close>

abbreviation chunk_complete :: "web_session \<Rightarrow> web_session" where
  "chunk_complete s \<equiv> s\<lparr>total_len := (total_len s + chunk_left s) mod 2 ^ 64, chunk_left := 0, current_header := '''',
     chunck_state := CHUNK_R_BODY\<rparr>"

lemma decode_data_continued:
  assumes "chunck_state s = CHUNK_DATA" "chunk_size s \<noteq> 0" "length a < chunk_left s" "b \<noteq> []"
    and "decode_chunked e (s\<lparr>chunk_left := chunk_left s - length a, total_len := (total_len s + length a) mod 2 ^ 64\<rparr>) b = (r, s2, o2)"
  shows "\<exists>outs. decode_chunked e s (a @ b) = (r, s2, outs) \<and> body_of outs = a @ body_of o2"
proof -
  have m: "((total_len s + length a) mod 2 ^ 64 + n) mod 2 ^ 64 = (total_len s + (length a + n)) mod 2 ^ 64" for n
    by (simp add: mod_add_left_eq add.assoc)
  have d: "drop (chunk_left s) (a @ b) = drop (chunk_left s - length a) b"
      "take (chunk_left s) (a @ b) = a @ take (chunk_left s - length a) b"
    using assms(3) by simp_all
  show ?thesis
  proof (cases "chunk_left s - length a \<le> length b")
    case True
    then have le: "chunk_left s \<le> length (a @ b)" by simp
    obtain r' t' o' where rec: "decode_chunked e (chunk_complete s) (drop (chunk_left s - length a) b) = (r', t', o')"
      by (metis prod_cases3)
    have "length a + (chunk_left s - length a) = chunk_left s" using assms(3) by simp
    then have "r = r'" "s2 = t'" "o2 = Result_data (take (chunk_left s - length a) b) # o'"
      using assms True rec m[of "chunk_left s - length a"]
      by (simp_all add: decode_chunked.simps[of e _ b])
    moreover have "decode_chunked e s (a @ b) = (r', t', Result_data (take (chunk_left s) (a @ b)) # o')"
      using assms(1-4) le rec unfolding decode_chunked.simps[of e s "a @ b"] by (simp add: d(1))
    ultimately show ?thesis by (simp add: d(2) del: take_append)
  next
    case False
    then have "\<not> chunk_left s \<le> length (a @ b)" by simp
    then show ?thesis
      using assms False m[of "length b"] unfolding decode_chunked.simps[of e s "a @ b"] decode_chunked.simps[of e _ b]
      by auto
  qed
qed

lemma decode_split:
  assumes "decode_chunked e s a = (Inr (), s1, o1)" "decode_chunked e s1 b = (r, s2, o2)"
    and "b \<noteq> [] \<and> hd b = LF \<longrightarrow> chunck_state s1 \<noteq> CHUNK_SIZE"
  shows "\<exists>t outs. decode_chunked e s (a @ b) = (r, t, outs) \<and> body_of outs = body_of o1 @ body_of o2 \<and> (r = Inr () \<longrightarrow> t = s2)"
  using assms
proof (induction e s a arbitrary: o1 rule: decode_chunked.induct)
  case (1 e s a)
  show ?case
  proof (cases "a = [] \<or> b = []")
    case True
    then show ?thesis using "1.prems" by auto
  next
    case False
    then have ab: "a \<noteq> []" "b \<noteq> []" by auto
    note unf = decode_chunked.simps[of e s a] decode_chunked.simps[of e s "a @ b"]
    show ?thesis
    proof (cases "chunck_state s")
      case CHUNK_SIZE
      show ?thesis
      proof (cases "LF \<in> set a")
        case False
        then have "s1 = s\<lparr>current_header := current_header s @ a\<rparr>" "o1 = []"
          using "1.prems"(1) CHUNK_SIZE ab by (auto simp: unf)
        then show ?thesis
          using decode_size_no_line[OF CHUNK_SIZE False ab, of e r s2 o2] "1.prems"(2,3) CHUNK_SIZE ab by auto
      next
        case True
        have tw: "takeWhile (\<lambda>c. c \<noteq> LF) (a @ b) = takeWhile (\<lambda>c. c \<noteq> LF) a"
          "Suc (length (takeWhile (\<lambda>c. c \<noteq> LF) a)) - length a = 0"
          using takeWhile_LF_append(1)[OF True] takeWhile_LF_length[OF True] by simp_all
        show ?thesis
          using "1.prems" ab True CHUNK_SIZE "1.IH"(1)[OF ab(1) CHUNK_SIZE _ refl refl _ refl refl]
          unfolding unf by (auto simp: tw Let_def split: if_splits)
      qed
    next
      case CHUNK_R_BODY
      then show ?thesis using "1.prems" ab "1.IH"(2) unfolding unf by (auto split: if_splits)
    next
      case CHUNK_N_BODY
      then show ?thesis using "1.prems" ab "1.IH"(3) unfolding unf by (auto split: if_splits)
    next
      case CHUNK_DATA
      show ?thesis
      proof (cases "chunk_size s = 0")
        case True
        then show ?thesis using "1.prems" ab CHUNK_DATA unfolding unf decode_chunked.simps[of e _ b] by auto
      next
        case size: False
        show ?thesis
        proof (cases "chunk_left s \<le> length a")
          case True
          obtain o' where o': "decode_chunked e (chunk_complete s) (drop (chunk_left s) a) = (Inr (), s1, o')"
              "o1 = Result_data (take (chunk_left s) a) # o'"
            using "1.prems"(1) ab CHUNK_DATA size True unfolding unf by (auto simp: Let_def split: prod.splits)
          obtain t outs where "decode_chunked e (chunk_complete s) (drop (chunk_left s) a @ b) = (r, t, outs)"
              "body_of outs = body_of o' @ body_of o2" "r = Inr () \<longrightarrow> t = s2"
            using "1.IH"(4)[OF ab(1) CHUNK_DATA size True refl o'(1) "1.prems"(2,3)] by blast
          then show ?thesis
            using ab CHUNK_DATA size True o'(2) unfolding unf by auto
        next
          case False
          then have "s1 = s\<lparr>chunk_left := chunk_left s - length a, total_len := (total_len s + length a) mod 2 ^ 64\<rparr>"
              "o1 = [Result_data a]"
            using "1.prems"(1) ab CHUNK_DATA size unfolding unf by auto
          then show ?thesis
            using decode_data_continued[OF CHUNK_DATA size _ ab(2), of a e r s2 o2] False "1.prems"(2) by auto
        qed
      qed
    qed
  qed
qed

lemma decode_error_prefix:
  assumes "decode_chunked e s a = (Inl x, s1, o1)"
  shows "\<exists>t outs. decode_chunked e s (a @ b) = (Inl x, t, outs)"
  using assms
proof (induction e s a arbitrary: o1 rule: decode_chunked.induct)
  case (1 e s a)
  have ab: "a \<noteq> []" using "1.prems" by auto
  note unf = decode_chunked.simps[of e s a] decode_chunked.simps[of e s "a @ b"]
  show ?case
  proof (cases "chunck_state s")
    case CHUNK_SIZE
    then have True: "LF \<in> set a" using "1.prems" ab by (auto simp: unf split: if_splits)
    have tw: "takeWhile (\<lambda>c. c \<noteq> LF) (a @ b) = takeWhile (\<lambda>c. c \<noteq> LF) a"
      "Suc (length (takeWhile (\<lambda>c. c \<noteq> LF) a)) - length a = 0"
      using takeWhile_LF_append(1)[OF True] takeWhile_LF_length[OF True] by simp_all
    show ?thesis
      using "1.prems" ab True CHUNK_SIZE "1.IH"(1)[OF ab(1) CHUNK_SIZE _ refl refl _ refl refl]
      unfolding unf by (auto simp: tw Let_def split: if_splits)
  next
    case CHUNK_R_BODY
    then show ?thesis using "1.prems" ab "1.IH"(2) unfolding unf by (auto split: if_splits)
  next
    case CHUNK_N_BODY
    then show ?thesis using "1.prems" ab "1.IH"(3) unfolding unf by (auto split: if_splits)
  next
    case CHUNK_DATA
    then have le: "chunk_size s \<noteq> 0" "chunk_left s \<le> length a"
      using "1.prems" ab by (auto simp: unf split: if_splits)
    obtain o' where "decode_chunked e (chunk_complete s) (drop (chunk_left s) a) = (Inl x, s1, o')"
      using "1.prems"(1) ab CHUNK_DATA le unfolding unf by (auto simp: Let_def split: prod.splits)
    then obtain t outs where "decode_chunked e (chunk_complete s) (drop (chunk_left s) a @ b) = (Inl x, t, outs)"
      using "1.IH"(4)[OF ab CHUNK_DATA le refl] by blast
    then show ?thesis using ab CHUNK_DATA le unfolding unf by (auto simp: Let_def)
  qed
qed

definition same_response :: "web_session \<Rightarrow> web_session \<Rightarrow> bool" where
  "same_response s t \<longleftrightarrow> header_done t = header_done s \<and> use_chunk t = use_chunk s \<and> web_status t = web_status s \<and>
     headers t = headers s"

lemma decode_frame:
  "decode_chunked e s a = (r, t, outs) \<Longrightarrow> same_response s t \<and> Result_failure \<notin> set outs"
proof (induction e s a arbitrary: r t outs rule: decode_chunked.induct)
  case (1 e s a)
  note unf = decode_chunked.simps[of e s a]
  show ?case
  proof (cases "a = []")
    case False
    show ?thesis
    proof (cases "chunck_state s")
      case CHUNK_SIZE
      show ?thesis
        using "1.prems" "1.IH"(1)[OF False CHUNK_SIZE _ refl refl _ refl refl] False CHUNK_SIZE
        by (auto simp: unf Let_def same_response_def split: if_splits)
    next
      case CHUNK_DATA
      obtain r' t' o' where rec: "decode_chunked e (chunk_complete s) (drop (chunk_left s) a) = (r', t', o')"
        by (metis prod_cases3)
      show ?thesis
        using "1.prems" "1.IH"(4)[OF False CHUNK_DATA _ _ refl rec] False CHUNK_DATA rec
        by (auto simp: unf Let_def same_response_def split: if_splits)
    qed (use "1.prems" "1.IH"(2,3) False in \<open>auto simp: unf same_response_def split: if_splits\<close>)
  qed (use "1.prems" in \<open>simp add: same_response_def\<close>)
qed

text \<open>The main loop: each read is handed on until one is refused.\<close>

fun receive_all :: "(string \<Rightarrow> bool) \<Rightarrow> web_session \<Rightarrow> string list \<Rightarrow> bool \<times> web_session \<times> web_out list" where
  "receive_all e s [] = (True, s, [])"
| "receive_all e s (b # bs) =
     (let (ok, t, outs) = received_data_continue e s b in
      if \<not> ok then (False, t, outs)
      else let (ok', t', outs') = receive_all e t bs in (ok', t', outs @ outs'))"

lemma receive_all_decode:
  assumes "header_done s" "use_chunk s" "decode_chunked e s (concat reads) = (Inr (), t, outs)"
    and "\<forall>b\<in>set reads. b = [] \<or> hd b \<noteq> LF"
  shows "\<exists>o'. receive_all e s reads = (True, t, o') \<and> body_of o' = body_of outs \<and> Result_failure \<notin> set o'"
  using assms
proof (induction reads arbitrary: s outs)
  case (Cons a reads)
  let ?b = "concat reads"
  have whole: "decode_chunked e s (a @ ?b) = (Inr (), t, outs)" using Cons.prems(3) by simp
  obtain r s1 o1 where a: "decode_chunked e s a = (r, s1, o1)" by (metis prod_cases3)
  have "r = Inr ()"
  proof (cases r)
    case (Inl x)
    then show ?thesis using decode_error_prefix[of e s a x s1 o1 ?b] a whole by auto
  qed simp
  obtain r2 s2 o2 where b: "decode_chunked e s1 ?b = (r2, s2, o2)" by (metis prod_cases3)
  have "?b \<noteq> [] \<Longrightarrow> hd ?b \<noteq> LF" using Cons.prems(4)
    by (induction reads) (auto simp: hd_append split: if_splits)
  then have w: "r2 = Inr ()" "t = s2" "body_of outs = body_of o1 @ body_of o2"
    using decode_split[OF a[unfolded \<open>r = Inr ()\<close>] b] whole by auto
  have f: "header_done s1" "use_chunk s1" "Result_failure \<notin> set o1"
    using decode_frame[OF a] Cons.prems(1,2) by (auto simp: same_response_def)
  obtain o' where "receive_all e s1 reads = (True, t, o')" "body_of o' = body_of o2" "Result_failure \<notin> set o'"
    using Cons.IH[OF f(1,2), of o2] b w Cons.prems(4) by auto
  then show ?case
    using a f w Cons.prems(1,2) \<open>r = Inr ()\<close> by (auto simp: received_data_continue_def handle_body_def)
qed simp

section \<open>The encoding of a body\<close>

definition hex_char :: "nat \<Rightarrow> char" where
  "hex_char d = ''0123456789abcdef'' ! d"

fun show_hex :: "nat \<Rightarrow> string" where
  "show_hex n = (if n < 16 then [hex_char n] else show_hex (n div 16) @ [hex_char (n mod 16)])"

declare show_hex.simps [simp del]

definition encode_chunk :: "string \<Rightarrow> string" where
  "encode_chunk d = show_hex (length d) @ [CR, LF] @ d @ [CR, LF]"

definition encode_chunks :: "string list \<Rightarrow> string" where
  "encode_chunks ds = concat (map encode_chunk ds) @ [CHR ''0'', CR, LF, CR, LF]"

lemma lt16_cases: "d < 16 \<Longrightarrow> d \<in> {0, 1, 2, 3, 4, 5, 6, 7, 8, 9, 10, 11, 12, 13, 14, 15 :: nat}"
  by (simp only: insert_iff empty_iff) presburger

lemma hex_char_facts:
  assumes "d < 16"
  shows "digit_val (hex_char d) = d" "\<not> c_isspace (hex_char d)" "hex_char d \<notin> {CHR ''-'', CHR ''+'', CR, LF, CHR 0x00}"
  using lt16_cases[OF assms]
  by (auto simp: hex_char_def digit_val_def c_isspace_def)

lemma show_hex_facts:
  "show_hex n \<noteq> [] \<and> (\<forall>c\<in>set (show_hex n). digit_val c < 16 \<and> \<not> c_isspace c \<and> c \<notin> {CHR ''-'', CHR ''+'', CR, LF, CHR 0x00}) \<and>
     foldl (\<lambda>v c. v * 16 + digit_val c) 0 (show_hex n) = n"
proof (induction n rule: show_hex.induct)
  case (1 n)
  show ?case
  proof (cases "n < 16")
    case True
    then show ?thesis using hex_char_facts[OF True] by (simp add: show_hex.simps)
  next
    case False
    then show ?thesis using 1 hex_char_facts[of "n mod 16"] by (simp add: show_hex.simps[of n])
  qed
qed

lemma strtoul_show_hex:
  assumes "n < 2 ^ 64"
  shows "fst (strtoul 16 (show_hex n @ [CR])) = n"
proof -
  obtain c cs where n: "show_hex n = c # cs" using show_hex_facts[of n] by (cases "show_hex n") auto
  have c: "digit_val c < 16" "\<not> c_isspace c" "c \<noteq> CHR ''-''" "c \<noteq> CHR ''+''"
    and cs: "\<forall>x\<in>set cs. digit_val x < 16" and v: "foldl (\<lambda>v c. v * 16 + digit_val c) 0 (c # cs) = n"
    using show_hex_facts[of n] n by auto
  have x: "digit_val CHR ''x'' = 33" "digit_val CHR ''X'' = 33" "digit_val CR = 36"
    by (simp_all add: digit_val_def)
  have "(cs @ [CR]) ! 0 \<noteq> CHR ''x'' \<and> (cs @ [CR]) ! 0 \<noteq> CHR ''X''"
    using cs x by (cases cs) auto
  then have "\<not> (2 < length (c # cs @ [CR]) \<and> ((c # cs @ [CR]) ! 1 = CHR ''x'' \<or> (c # cs @ [CR]) ! 1 = CHR ''X''))"
    by simp
  moreover have "takeWhile (\<lambda>x. digit_val x < 16) (c # cs @ [CR]) = c # cs"
    using c cs x by (simp add: takeWhile_append2)
  ultimately show ?thesis
    using assms v c unfolding strtoul_def n by (auto simp: Let_def)
qed

text \<open>The size line of a chunk, and the whole chunk.\<close>

lemma decode_size_line:
  assumes "chunck_state s = CHUNK_SIZE" "current_header s = ''''" "n < ULONG_MAX" "n \<noteq> 0 \<or> \<not> e (show_hex 0 @ [CR])"
  shows "decode_chunked e s (show_hex n @ CR # LF # rest) =
    decode_chunked e (s\<lparr>current_header := show_hex n @ [CR], chunk_size := n, chunk_left := n, chunck_state := CHUNK_DATA\<rparr>) rest"
proof -
  let ?l = "show_hex n @ [CR]"
  have "\<forall>c\<in>set ?l. c \<noteq> LF" and nul: "\<forall>c\<in>set ?l. c \<noteq> CHR 0x00" using show_hex_facts[of n] by auto
  then have tw: "takeWhile (\<lambda>c. c \<noteq> LF) (show_hex n @ CR # LF # rest) = ?l"
    using takeWhile_append2[of ?l "\<lambda>c. c \<noteq> LF" "LF # rest"] by simp
  have c: "c_str ?l = ?l" unfolding c_str_def using nul by (simp add: takeWhile_eq_all_conv)
  have v: "fst (strtoul 16 ?l) = n" using assms(3) by (intro strtoul_show_hex) simp
  show ?thesis
    using assms tw by (subst decode_chunked.simps) (auto simp: Let_def c v)
qed

lemma decode_chunk:
  assumes "chunck_state s = CHUNK_SIZE" "current_header s = ''''" "d \<noteq> []" "length d < ULONG_MAX"
  shows "\<exists>s'. chunck_state s' = CHUNK_SIZE \<and> current_header s' = '''' \<and>
    (\<forall>rest r t outs. decode_chunked e s' rest = (r, t, outs) \<longrightarrow>
       decode_chunked e s (encode_chunk d @ rest) = (r, t, Result_data d # outs))"
proof -
  let ?s1 = "s\<lparr>current_header := show_hex (length d) @ [CR], chunk_size := length d, chunk_left := length d, chunck_state := CHUNK_DATA\<rparr>"
  let ?s3 = "(chunk_complete ?s1)\<lparr>chunck_state := CHUNK_SIZE\<rparr>"
  have "decode_chunked e s (encode_chunk d @ rest) = (r, t, Result_data d # outs)"
    if "decode_chunked e ?s3 rest = (r, t, outs)" for rest r t outs
  proof -
    have "decode_chunked e s (encode_chunk d @ rest) = decode_chunked e ?s1 (d @ CR # LF # rest)"
      using decode_size_line[OF assms(1,2), of "length d" e "d @ CR # LF # rest"] assms(3,4) by (simp add: encode_chunk_def)
    also have "\<dots> = (let (r, t, o') = decode_chunked e (chunk_complete ?s1) (CR # LF # rest) in (r, t, Result_data d # o'))"
      using assms(3) by (subst decode_chunked.simps) (simp add: Let_def)
    also have "decode_chunked e (chunk_complete ?s1) (CR # LF # rest) = (r, t, outs)"
      using that by (simp add: decode_chunked.simps[of e _ "CR # LF # rest"] decode_chunked.simps[of e _ "LF # rest"])
    finally show ?thesis by simp
  qed
  then show ?thesis by (intro exI[of _ ?s3]) simp
qed

lemma show_hex_0: "show_hex 0 = ''0''"
  by (simp add: show_hex.simps hex_char_def)

lemma decode_encode_chunks:
  assumes "chunck_state s = CHUNK_SIZE" "current_header s = ''''" "\<forall>d\<in>set ds. d \<noteq> [] \<and> length d < ULONG_MAX"
    and "\<not> e (''0'' @ [CR])"
  shows "\<exists>t. decode_chunked e s (encode_chunks ds) = (Inr (), t, map Result_data ds)"
  using assms(1-3)
proof (induction ds arbitrary: s)
  case Nil
  have "decode_chunked e s (''0'' @ CR # LF # [CR, LF]) =
    decode_chunked e (s\<lparr>current_header := ''0'' @ [CR], chunk_size := 0, chunk_left := 0, chunck_state := CHUNK_DATA\<rparr>) [CR, LF]"
    using decode_size_line[OF Nil(1,2), of 0 e "[CR, LF]"] assms(4) by (simp add: show_hex_0)
  then show ?case by (simp add: encode_chunks_def decode_chunked.simps[of e _ "[CR, LF]"])
next
  case (Cons d ds)
  obtain s' where s': "chunck_state s' = CHUNK_SIZE" "current_header s' = ''''"
    "\<And>rest r t outs. decode_chunked e s' rest = (r, t, outs) \<Longrightarrow>
       decode_chunked e s (encode_chunk d @ rest) = (r, t, Result_data d # outs)"
    using decode_chunk[OF Cons.prems(1,2), of d e] Cons.prems(3) by auto
  obtain t where "decode_chunked e s' (encode_chunks ds) = (Inr (), t, map Result_data ds)"
    using Cons.IH[OF s'(1,2)] Cons.prems(3) by auto
  then show ?case using s'(3) by (auto simp: encode_chunks_def)
qed

lemma body_of_map [simp]: "body_of (map Result_data ds) = concat ds"
  by (induction ds) simp_all

text \<open>
  C32. The decoder of chunked bodies inverts the encoder, however the network cuts the bytes: the
  concatenation of what the reader is given is the body, and no failure is reported, for every
  division of the encoded body into reads none of which begins with a line feed. \<open>errno\<close> is
  assumed not to be \<open>EINVAL\<close> when the size line of the last chunk is read.
\<close>

theorem chunked_body_roundtrip:
  assumes "header_done s" "use_chunk s" "chunck_state s = CHUNK_SIZE" "current_header s = ''''"
    and "\<forall>d\<in>set ds. d \<noteq> [] \<and> length d < ULONG_MAX"
    and "concat reads = encode_chunks ds" "\<forall>b\<in>set reads. b = [] \<or> hd b \<noteq> LF"
    and "\<not> e (''0'' @ [CR])"
  shows "\<exists>t outs. receive_all e s reads = (True, t, outs) \<and> body_of outs = concat ds \<and> Result_failure \<notin> set outs"
proof -
  obtain t where "decode_chunked e s (concat reads) = (Inr (), t, map Result_data ds)"
    using decode_encode_chunks[of s ds e, OF assms(3,4,5,8)] by (auto simp: assms(6))
  then show ?thesis using receive_all_decode[OF assms(1,2) _ assms(7)] by force
qed

abbreviation "demo_chunk_session \<equiv> web_session_new\<lparr>header_done := True, use_chunk := True\<rparr>"

theorem chunked_body_roundtrip_witness:
  "\<exists>t outs. receive_all (\<lambda>s. False) demo_chunk_session
        [''3'' @ [CR, LF] @ ''ab'', ''c'' @ [CR, LF] @ ''1'', [CR, LF] @ ''x'' @ [CR, LF] @ ''0'' @ [CR, LF], [CR, LF]] = (True, t, outs) \<and>
     body_of outs = ''abcx''"
  using chunked_body_roundtrip[of demo_chunk_session "[''abc'', ''x'']"
      "[''3'' @ [CR, LF] @ ''ab'', ''c'' @ [CR, LF] @ ''1'', [CR, LF] @ ''x'' @ [CR, LF] @ ''0'' @ [CR, LF], [CR, LF]]" "\<lambda>s. False"]
  by (fastforce simp: web_session_new_def encode_chunks_def encode_chunk_def show_hex.simps hex_char_def simp del: receive_all.simps)

text \<open>
  C40. A size line that the network cuts between its carriage return and its line feed is refused:
  the second read begins with the line feed, and the decoder reports a failure for a well-formed
  body.
\<close>

theorem chunk_size_line_cut_refused:
  assumes "header_done s" "use_chunk s" "chunck_state s = CHUNK_SIZE" "current_header s = ''''"
  shows "\<exists>t. receive_all e s [show_hex n @ [CR], LF # rest] = (False, t, [Result_failure])"
proof -
  have "LF \<notin> set (show_hex n @ [CR])" using show_hex_facts[of n] by auto
  then have "decode_chunked e s (show_hex n @ [CR]) = (Inr (), s\<lparr>current_header := show_hex n @ [CR]\<rparr>, [])"
    using assms by (subst decode_chunked.simps) simp
  then show ?thesis
    using assms by (simp add: received_data_continue_def handle_body_def decode_chunked.simps[of e _ "LF # rest"])
qed

theorem chunk_size_line_cut_refused_witness:
  "\<exists>t. receive_all (\<lambda>s. False) demo_chunk_session [show_hex 3 @ [CR], LF # ''abc''] = (False, t, [Result_failure])"
  using chunk_size_line_cut_refused[of demo_chunk_session "\<lambda>s. False" 3 "''abc''"] by (simp add: web_session_new_def)

section \<open>A response\<close>

definition status_text :: "nat \<Rightarrow> string" where
  "status_text code = ''HTTP/1.1 '' @ show_nat code @ '' OK''"

definition field_text :: "string \<times> string \<Rightarrow> string" where
  "field_text kv = fst kv @ '': '' @ snd kv @ [CR, LF]"

definition response_head :: "nat \<Rightarrow> (string \<times> string) list \<Rightarrow> string" where
  "response_head code kvs = status_text code @ [CR, LF] @ concat (map field_text kvs) @ [CR, LF]"

definition plain :: "string \<Rightarrow> bool" where
  "plain s \<longleftrightarrow> (\<forall>c\<in>set s. c \<notin> {CR, LF, CHR 0x00})"

definition field_ok :: "string \<times> string \<Rightarrow> bool" where
  "field_ok kv \<longleftrightarrow> plain (fst kv) \<and> plain (snd kv) \<and> CHR '':'' \<notin> set (fst kv) \<and> fst kv \<noteq> [] \<and> \<not> is_blank (hd (fst kv)) \<and>
     snd kv \<noteq> [] \<and> hd (snd kv) \<noteq> CHR '' ''"

lemma plain_append [simp]: "plain (a @ b) \<longleftrightarrow> plain a \<and> plain b" "plain (c # a) \<longleftrightarrow> c \<notin> {CR, LF, CHR 0x00} \<and> plain a" "plain []"
  by (auto simp: plain_def)

lemma c_str_plain: "plain s \<Longrightarrow> c_str s = s"
  by (auto simp: c_str_def plain_def takeWhile_eq_all_conv)

lemma receive_line:
  assumes "plain l" "l \<noteq> []" "current_header s = ''''"
  shows "receive_headers e s (l @ CR # LF # rest) = receive_headers e (header_line (s\<lparr>current_header := l\<rparr>)) rest"
proof -
  have "\<forall>c\<in>set (l @ [CR]). c \<noteq> LF" using assms(1) by (auto simp: plain_def)
  then have tw: "takeWhile (\<lambda>c. c \<noteq> LF) (l @ CR # LF # rest) = l @ [CR]"
    using takeWhile_append2[of "l @ [CR]" "\<lambda>c. c \<noteq> LF" "LF # rest"] by simp
  show ?thesis using assms tw by (subst receive_headers.simps) (simp add: Let_def)
qed

lemma header_line_field:
  assumes "field_ok kv" "web_status s \<noteq> 0" "headers s (fst kv) = None"
  shows "header_line (s\<lparr>current_header := fst kv @ '': '' @ snd kv\<rparr>) =
    s\<lparr>current_header := '''', headers := (headers s)(fst kv \<mapsto> snd kv), last_key := Some (fst kv)\<rparr>"
proof -
  obtain k v where kv: "kv = (k, v)" by (cases kv)
  have ok: "plain k" "plain v" "CHR '':'' \<notin> set k" "k \<noteq> []" "\<not> is_blank (hd k)" "v \<noteq> []" "hd v \<noteq> CHR '' ''"
    using assms(1) by (auto simp: field_ok_def kv)
  have tw: "takeWhile (\<lambda>c. c \<noteq> CHR '':'') (k @ '': '' @ v) = k"
    using ok(3) by (induction k) auto
  have dw: "dropWhile (\<lambda>c. c = CHR '' '') v = v" using ok(6,7) by (cases v) auto
  have c: "c_str (k @ '': '' @ v) = k @ '': '' @ v" "c_str k = k" "c_str v = v"
    using ok(1,2) by (simp_all add: c_str_plain)
  have h: "hd (k @ '': '' @ v) = hd k" using ok(4) by simp
  show ?thesis
    using assms(2,3) ok tw dw c h unfolding header_line_def add_header_field_def kv by (simp add: Let_def)
qed

lemma digit_char_facts:
  assumes "d < 10"
  shows "digit_val (char_of (48 + d :: nat)) = d" "\<not> c_isspace (char_of (48 + d :: nat))"
    "char_of (48 + d :: nat) \<notin> {CHR ''-'', CHR ''+'', CHR '':'', CR, LF, CHR 0x00}"
proof -
  have t: "take_bit 8 (48 + d) = 48 + d" using assms by (simp add: take_bit_nat_eq_self)
  have o: "(of_char (char_of (48 + d :: nat)) :: nat) = 48 + d" using assms by simp
  show "digit_val (char_of (48 + d :: nat)) = d" using assms by (simp add: digit_val_def o Let_def)
  show "\<not> c_isspace (char_of (48 + d :: nat))" using assms by (simp add: c_isspace_def o char_of_eq_iff t)
  show "char_of (48 + d :: nat) \<notin> {CHR ''-'', CHR ''+'', CHR '':'', CR, LF, CHR 0x00}"
    using assms by (simp add: char_of_eq_iff t)
qed

lemma show_nat_facts:
  "show_nat n \<noteq> [] \<and> (\<forall>c\<in>set (show_nat n). digit_val c < 10 \<and> \<not> c_isspace c \<and> c \<notin> {CHR ''-'', CHR ''+'', CHR '':'', CR, LF, CHR 0x00}) \<and>
     foldl (\<lambda>v c. v * 10 + digit_val c) 0 (show_nat n) = n"
proof (induction n rule: show_nat.induct)
  case (1 n)
  show ?case
  proof (cases "n < 10")
    case True
    then show ?thesis using digit_char_facts[OF True] by (simp add: show_nat.simps)
  next
    case False
    then show ?thesis using 1 digit_char_facts[of "n mod 10"] by (simp add: show_nat.simps[of n])
  qed
qed

lemma strtoul_show_nat:
  assumes "n < 2 ^ 64" "rest = [] \<or> digit_val (hd rest) \<ge> 10"
  shows "strtoul 10 (show_nat n @ rest) = (n, length (show_nat n))"
proof -
  obtain c cs where n: "show_nat n = c # cs" using show_nat_facts[of n] by (cases "show_nat n") auto
  have c: "digit_val c < 10" "\<not> c_isspace c" "c \<noteq> CHR ''-''" "c \<noteq> CHR ''+''"
    and cs: "\<forall>x\<in>set cs. digit_val x < 10" and v: "foldl (\<lambda>v c. v * 10 + digit_val c) 0 (c # cs) = n"
    using show_nat_facts[of n] n by auto
  have "takeWhile (\<lambda>x. digit_val x < 10) (c # cs @ rest) = c # cs"
    using c cs assms(2) by (cases rest) (simp_all add: takeWhile_append2)
  then show ?thesis
    using assms(1) v c unfolding strtoul_def n by (auto simp: Let_def)
qed

lemma plain_show_nat [simp]: "plain (show_nat n)"
  using show_nat_facts[of n] by (auto simp: plain_def)

lemma scan_status_text:
  assumes "n < 2 ^ 32"
  shows "scan_status (status_text n) = Some n"
proof -
  have sp: "c_isspace CHR '' ''" "\<not> c_isspace CHR ''1''" "\<not> c_isspace CHR ''.''" by (simp_all add: c_isspace_def)
  have "\<not> c_isspace (hd (show_nat n @ '' OK''))" "show_nat n @ '' OK'' \<noteq> []"
    using show_nat_facts[of n] by (cases "show_nat n"; auto)+
  then have dw: "dropWhile c_isspace (show_nat n @ '' OK'') = show_nat n @ '' OK''"
    by (cases "show_nat n @ '' OK''") auto
  have st: "strtoul 10 (show_nat n @ '' OK'') = (n, length (show_nat n))"
    using assms by (intro strtoul_show_nat) (auto simp: digit_val_def)
  show ?thesis
    using assms show_nat_facts[of n] dw st by (simp add: scan_status_def status_text_def sp Let_def)
qed

lemma status_line:
  assumes "0 < n" "n < 2 ^ 16" "web_status s = 0"
  shows "header_line (s\<lparr>current_header := status_text n\<rparr>) = s\<lparr>current_header := '''', web_status := n\<rparr>"
proof -
  have "CHR '':'' \<notin> set (status_text n)" using show_nat_facts[of n] by (auto simp: status_text_def)
  moreover have "c_str (status_text n) = status_text n" by (simp add: c_str_plain status_text_def)
  moreover have "\<not> is_blank (hd (status_text n))" "status_text n \<noteq> []" by (simp_all add: status_text_def is_blank_def)
  moreover have "scan_status (status_text n) = Some n" using assms(2) by (intro scan_status_text) simp
  ultimately show ?thesis
    using assms unfolding header_line_def add_header_field_def by (simp add: Let_def)
qed

lemma receive_fields:
  assumes "\<forall>kv\<in>set kvs. field_ok kv" "distinct (map fst kvs)" "\<forall>k\<in>fst ` set kvs. headers s k = None"
    and "web_status s \<noteq> 0" "current_header s = ''''"
  shows "\<exists>k. receive_headers e s (concat (map field_text kvs) @ rest) =
    receive_headers e (s\<lparr>headers := headers s ++ map_of kvs, last_key := k\<rparr>) rest"
  using assms
proof (induction kvs arbitrary: s)
  case Nil
  then show ?case by (auto intro!: exI[of _ "last_key s"])
next
  case (Cons kv kvs)
  let ?s = "s\<lparr>headers := (headers s)(fst kv \<mapsto> snd kv), last_key := Some (fst kv)\<rparr>"
  have "plain (fst kv @ '': '' @ snd kv)" "fst kv @ '': '' @ snd kv \<noteq> []"
    using Cons.prems(1) by (auto simp: field_ok_def)
  moreover have "header_line (s\<lparr>current_header := fst kv @ '': '' @ snd kv\<rparr>) = ?s"
    using header_line_field[of kv s] Cons.prems by simp
  ultimately have 1: "receive_headers e s (concat (map field_text (kv # kvs)) @ rest) =
      receive_headers e ?s (concat (map field_text kvs) @ rest)"
    using receive_line[of "fst kv @ '': '' @ snd kv" s e "concat (map field_text kvs) @ rest"] Cons.prems(5)
    by (simp add: field_text_def)
  have "\<exists>k. receive_headers e ?s (concat (map field_text kvs) @ rest) =
      receive_headers e (?s\<lparr>headers := headers ?s ++ map_of kvs, last_key := k\<rparr>) rest"
    by (rule Cons.IH) (use Cons.prems in \<open>auto simp: rev_image_eqI\<close>)
  then obtain k where 2: "receive_headers e ?s (concat (map field_text kvs) @ rest) =
      receive_headers e (s\<lparr>headers := headers ?s ++ map_of kvs, last_key := k\<rparr>) rest" by auto
  have "map_of kvs (fst kv) = None" using Cons.prems(2) by (simp add: map_of_eq_None_iff)
  then have 3: "headers ?s ++ map_of kvs = headers s ++ map_of (kv # kvs)"
    by (cases kv) (auto simp: map_add_def fun_eq_iff split: option.split)
  show ?case by (intro exI[of _ k]) (simp only: 1 2 3)
qed

text \<open>
  C33. The head of a response is read back: whatever the header fields are (distinct names without
  a colon, values without leading space, no control characters), after one read of the head and
  the beginning of the body the session has the status code and exactly these fields, and the
  rest of the read is handed to the body, decoded as chunks if \<open>Transfer-Encoding\<close> says so.
\<close>

theorem response_head_roundtrip:
  assumes "0 < n" "n < 2 ^ 16" "\<forall>kv\<in>set kvs. field_ok kv" "distinct (map fst kvs)"
  shows "\<exists>t. web_status t = n \<and> headers t = map_of kvs \<and> header_done t \<and>
    (use_chunk t \<longleftrightarrow> (\<exists>v. map_of kvs ''Transfer-Encoding'' = Some v \<and> is_chunked v)) \<and>
    chunck_state t = CHUNK_SIZE \<and> current_header t = '''' \<and>
    received_data_continue e web_session_new (response_head n kvs @ body) =
      (case handle_body e t body of
         (Inl _, u, outs) \<Rightarrow> (False, u\<lparr>transport_watch := False\<rparr>, outs)
       | (Inr _, u, outs) \<Rightarrow> (True, u, outs))"
proof -
  let ?s = "web_session_new\<lparr>web_status := n\<rparr>"
  have "plain (status_text n)" "status_text n \<noteq> []" by (simp_all add: status_text_def)
  then have "receive_headers e web_session_new (response_head n kvs @ body) =
      receive_headers e ?s (concat (map field_text kvs) @ CR # LF # body)"
    using status_line[OF assms(1,2), of web_session_new]
      receive_line[of "status_text n" web_session_new e "concat (map field_text kvs) @ CR # LF # body"]
    by (simp add: response_head_def web_session_new_def)
  moreover obtain k where "receive_headers e ?s (concat (map field_text kvs) @ CR # LF # body) =
      receive_headers e (?s\<lparr>headers := map_of kvs, last_key := k\<rparr>) (CR # LF # body)"
    using receive_fields[OF assms(3,4), of ?s e "CR # LF # body"] assms(1) by (auto simp: web_session_new_def)
  moreover have "receive_headers e t (CR # LF # body) =
      (case handle_body e (finish_headers t) body of
         (Inl _, u, outs) \<Rightarrow> (False, u\<lparr>transport_watch := False\<rparr>, outs)
       | (Inr _, u, outs) \<Rightarrow> (True, u, outs))" if "current_header t = ''''" for t
    using that by (cases t) (subst receive_headers.simps, simp add: Let_def)
  ultimately show ?thesis
    by (intro exI[of _ "finish_headers (?s\<lparr>headers := map_of kvs, last_key := k\<rparr>)"])
      (auto simp: finish_headers_def received_data_continue_def web_session_new_def Let_def split: option.split)
qed

theorem response_head_roundtrip_witness:
  "\<exists>t. web_status t = 200 \<and> use_chunk t \<and> headers t ''Server'' = Some ''x'' \<and>
     received_data_continue (\<lambda>s. False) web_session_new
       (response_head 200 [(''Server'', ''x''), (''Transfer-Encoding'', ''chunked'')]) = (True, t, [])"
  using response_head_roundtrip[of 200 "[(''Server'', ''x''), (''Transfer-Encoding'', ''chunked'')]" "\<lambda>s. False" "''''"]
  by (auto simp: field_ok_def is_blank_def is_chunked_def handle_body_def)

section \<open>Finding a tagged section\<close>

lemma feed_token_tail:
  assumes "token_str p = tok" "0 < i" "i < length tok" "token_pos p = i"
    and "p' = p\<lparr>token_pos := length tok - 1, parser_content := parser_content p @ (if intoken p then take (length tok - 1 - i) (drop i tok) else [])\<rparr>"
  shows "g_web_parser_feed_data p (drop i tok @ rest) = g_web_parser_feed_data p' (drop (length tok - 1) tok @ rest)"
  using assms
proof (induction "length tok - i" arbitrary: i p)
  case 0
  then show ?case by simp
next
  case (Suc d)
  show ?case
  proof (cases "i = length tok - 1")
    case True
    then show ?thesis using Suc.prems by (cases p) simp
  next
    case False
    then have i: "i + 1 < length tok" "i < length tok - 1" using Suc.prems(3) by simp_all
    let ?p = "p\<lparr>token_pos := i + 1, parser_content := parser_content p @ (if intoken p then [tok ! i] else [])\<rparr>"
    have d: "drop i tok @ rest = tok ! i # drop (i + 1) tok @ rest"
      using Suc.prems(3) by (simp add: Cons_nth_drop_Suc)
    have "feed_step p (drop i tok @ rest) = (?p, drop (i + 1) tok @ rest, None)"
      using Suc.prems i unfolding d by (auto simp: feed_step_def Let_def)
    then have "g_web_parser_feed_data p (drop i tok @ rest) = g_web_parser_feed_data ?p (drop (i + 1) tok @ rest)"
      using d by (subst g_web_parser_feed_data.simps) (auto split: prod.split)
    also have "\<dots> = g_web_parser_feed_data p' (drop (length tok - 1) tok @ rest)"
    proof (rule Suc.hyps(1)[where p = ?p])
      show "d = length tok - (i + 1)" using Suc.hyps(2) by simp
      have "take (length tok - 1 - i) (drop i tok) = tok ! i # take (length tok - 1 - (i + 1)) (drop (i + 1) tok)"
        using i by (subst Cons_nth_drop_Suc[symmetric]) (simp_all add: take_Cons' )
      then show "p' = ?p\<lparr>token_pos := length tok - 1,
          parser_content := parser_content ?p @ (if intoken ?p then take (length tok - 1 - (i + 1)) (drop (i + 1) tok) else [])\<rparr>"
        using Suc.prems(5) by simp
    qed (use Suc.prems i in simp_all)
    finally show ?thesis .
  qed
qed

lemma feed_token:
  assumes "token_str p = tok" "2 \<le> length tok" "token_pos p = 0" "hd tok \<notin> set pre"
  shows "g_web_parser_feed_data p (pre @ tok @ rest) =
    (if intoken p
     then let (q, more) = g_web_parser_feed_data (p\<lparr>parser_content := '''', intoken := False, token_str := begin_token p, token_pos := 0\<rparr>) rest
          in (q, (parser_content p @ pre @ tok) # more)
     else g_web_parser_feed_data (p\<lparr>parser_content := parser_content p @ tok, intoken := True, token_str := end_token p, token_pos := 0\<rparr>) rest)"
proof -
  obtain a as where tok: "tok = a # as" "as \<noteq> []" using assms(2) by (cases tok; cases "tl tok") auto
  have a: "a \<notin> set pre" using assms(4) tok by simp
  have tw: "takeWhile (\<lambda>c. c \<noteq> a) (pre @ a # as @ rest) = pre" using a by (induction pre) auto
  let ?p = "p\<lparr>token_pos := 1, parser_content := parser_content p @ (if intoken p then pre @ [a] else [])\<rparr>"
  let ?q = "?p\<lparr>token_pos := length tok - 1, parser_content := parser_content ?p @ (if intoken p then take (length tok - 2) as else [])\<rparr>"
  have "feed_step p (pre @ tok @ rest) = (?p, as @ rest, None)"
    using assms tok tw by (auto simp: feed_step_def Let_def)
  then have "g_web_parser_feed_data p (pre @ tok @ rest) = g_web_parser_feed_data ?p (drop 1 tok @ rest)"
    using tok by (subst g_web_parser_feed_data.simps) (auto split: prod.split)
  also have "\<dots> = g_web_parser_feed_data ?q (drop (length tok - 1) tok @ rest)"
    using assms(1,2) tok by (intro feed_token_tail) auto
  also have "drop (length tok - 1) tok = [last tok]" using tok(1)
    by (metis append_butlast_last_id append_eq_conv_conj length_butlast list.distinct(1))
  finally have step: "g_web_parser_feed_data p (pre @ tok @ rest) = g_web_parser_feed_data ?q (last tok # rest)" by simp
  have "take (length tok - 2) as @ [last tok] = as" using tok append_butlast_last_id[of as] by (simp add: butlast_conv_take)
  then show ?thesis
    unfolding step using assms(1,2) tok
    by (subst g_web_parser_feed_data.simps) (auto simp: feed_step_def Let_def last_conv_nth split: prod.split)
qed

text \<open>
  A page with one tagged section: the section is handed to the callback with its tags, when the
  first character of each tag does not occur before it.
\<close>

lemma web_parser_finds_section:
  assumes "2 \<le> length beg" "2 \<le> length fin" "hd beg \<notin> set pre" "hd fin \<notin> set mid" "hd beg \<notin> set post"
  shows "snd (g_web_parser_feed_data (g_web_parser_new beg fin) (pre @ beg @ mid @ fin @ post)) = [beg @ mid @ fin]"
proof -
  have "beg \<noteq> []" using assms(1) by auto
  then have "snd (g_web_parser_feed_data (g_web_parser_new beg fin) post) = []"
    using assms(5) by (subst g_web_parser_feed_data.simps)
      (auto simp: feed_step_def g_web_parser_new_def hd_conv_nth g_web_parser_feed_data.simps[of _ "[]"] split: prod.split)
  then show ?thesis
    using assms feed_token[of "g_web_parser_new beg fin" beg pre "mid @ fin @ post"]
      feed_token[of "g_web_parser_new beg fin\<lparr>parser_content := beg, intoken := True, token_str := fin, token_pos := 0\<rparr>" fin mid post]
    by (auto simp: g_web_parser_new_def split: prod.split)
qed

text \<open>A section whose first tag follows a copy of the tag's first character is missed.\<close>

lemma web_parser_misses_section:
  "snd (g_web_parser_feed_data (g_web_parser_new ''<W'' ''/W'') ''<<Wx/W'') = []"
  by (simp add: g_web_parser_feed_data.simps feed_step_def g_web_parser_new_def Let_def)

end
