(* ===== verification/GWebUrl.thy ===== *)
theory GWebUrl
  imports GWebHttp
begin

text \<open>
  The URLs of the HTTP client, \<open>src/gweb/gweb.c\<close>: the split of a URL into scheme, host, port and
  path, and the request that is made of it. A URL is a string without zero characters, the
  cursor of the C functions a position in it; each function returns the new cursor and the
  component it found. The address of a proxy is a pointer to a string that the code allocates and
  frees, so a string has an address and a lifetime.
\<close>

datatype url_errno = Url_EINVAL | Url_ERANGE

definition memchr :: "string \<Rightarrow> nat \<Rightarrow> char \<Rightarrow> nat option" where
  "memchr url cursor c =
     (let rest = drop cursor url in
      if c \<in> set rest then Some (cursor + length (takeWhile (\<lambda>x. x \<noteq> c) rest)) else None)"

fun memmem :: "string \<Rightarrow> string \<Rightarrow> nat option" where
  "memmem needle [] = (if needle = [] then Some 0 else None)"
| "memmem needle (c # cs) = (if take (length needle) (c # cs) = needle then Some 0 else map_option Suc (memmem needle cs))"

section \<open>The components of a URL\<close>

definition parse_url_scheme :: "string \<Rightarrow> nat \<Rightarrow> (url_errno + nat \<times> string option)" where
  "parse_url_scheme url cursor =
     (if url = [] then Inl Url_EINVAL
      else case memmem ''://'' (drop cursor url) of
        None \<Rightarrow> Inr (cursor, None)
      | Some n \<Rightarrow> Inr (cursor + n + 3, Some (take n (drop cursor url))))"

definition parse_url_host :: "string \<Rightarrow> nat \<Rightarrow> (url_errno + nat \<times> string)" where
  "parse_url_host url cursor =
     (if url = [] then Inl Url_EINVAL
      else case memchr url cursor CHR ''['' of
        Some opening \<Rightarrow>
          (case memchr url opening CHR '']'' of
             None \<Rightarrow> Inl Url_EINVAL
           | Some closing \<Rightarrow>
               let host_length = closing - opening - 1 in
               if host_length = 0 then Inl Url_EINVAL
               else Inr (cursor + host_length, take host_length (drop (opening + 1) url)))
      | None \<Rightarrow>
          let host_length =
                (case memchr url cursor CHR '':'' of
                   Some n \<Rightarrow> n - cursor
                 | None \<Rightarrow> (case memchr url cursor CHR ''/'' of Some n \<Rightarrow> n - cursor | None \<Rightarrow> length url - cursor))
          in if host_length = 0 then Inl Url_EINVAL
             else Inr (cursor + host_length, take host_length (drop cursor url)))"

text \<open>The port is stored in 16 bits with sign; minus one stands for no port.\<close>

definition to_int16 :: "int \<Rightarrow> int" where
  "to_int16 n = sint (word_of_int n :: 16 word)"

definition parse_url_port :: "string \<Rightarrow> nat \<Rightarrow> (url_errno + nat \<times> int)" where
  "parse_url_port url cursor =
     (if url = [] then Inl Url_EINVAL
      else case memchr url cursor CHR '':'' of
        None \<Rightarrow> Inr (cursor, to_int16 (-1))
      | Some n \<Rightarrow>
          let (tmp_port, used) = strtoul 10 (drop (n + 1) url) in
          if tmp_port = ULONG_MAX then Inl Url_ERANGE
          else if tmp_port > 65535 then Inl Url_ERANGE
          else if used = 0 then Inl Url_EINVAL
          else Inr (cursor + used, to_int16 (int tmp_port)))"

definition parse_url_host_and_port :: "string \<Rightarrow> nat \<Rightarrow> (url_errno + nat \<times> string \<times> int)" where
  "parse_url_host_and_port url cursor =
     (if url = [] then Inl Url_EINVAL
      else case parse_url_host url cursor of
        Inl e \<Rightarrow> Inl e
      | Inr (c1, host) \<Rightarrow>
          (case parse_url_port url c1 of
             Inl e \<Rightarrow> Inl e
           | Inr (c2, port) \<Rightarrow> Inr (c2, host, port)))"

definition parse_url_path :: "string \<Rightarrow> nat \<Rightarrow> (url_errno + nat \<times> string option)" where
  "parse_url_path url cursor =
     (if url = [] then Inl Url_EINVAL
      else case memchr url cursor CHR ''/'' of
        None \<Rightarrow> Inr (cursor, None)
      | Some n \<Rightarrow>
          let path_length = length url - (n + 1)
          in Inr (cursor + path_length + 1, Some (take path_length (drop (n + 1) url))))"

definition g_ascii_isspace :: "char \<Rightarrow> bool" where
  "g_ascii_isspace c \<longleftrightarrow> c \<in> {CHR '' '', TAB, LF, CHR 0x0C, CR}"

record url_parts =
  url_scheme :: "string option"
  url_host :: string
  url_port :: int
  url_path :: "string option"

definition parse_url_components :: "string \<Rightarrow> (url_errno + url_parts)" where
  "parse_url_components url =
     (if url = [] then Inl Url_EINVAL
      else
        let p = length (takeWhile g_ascii_isspace url) in
        case parse_url_scheme url p of
          Inl e \<Rightarrow> Inl e
        | Inr (c1, scheme) \<Rightarrow>
            (case parse_url_host_and_port url c1 of
               Inl e \<Rightarrow> Inl e
             | Inr (c2, host, port) \<Rightarrow>
                 (case parse_url_path url c2 of
                    Inl e \<Rightarrow> Inl e
                  | Inr (c3, path) \<Rightarrow>
                      Inr \<lparr>url_scheme = scheme, url_host = host, url_port = port, url_path = path\<rparr>)))"

section \<open>The request\<close>

text \<open>
  The address of a session is a pointer, \<open>None\<close> for \<open>NULL\<close>; \<open>req_strings\<close> are the strings of the
  proxy URL that are allocated, by address, and \<open>req_fresh\<close> is the next free address.
\<close>

record web_request =
  req_address :: "nat option"
  req_strings :: "nat \<rightharpoonup> string"
  req_fresh :: nat
  req_host :: string
  req_port :: nat
  req_text :: string

definition ascii_lower :: "char \<Rightarrow> char" where
  "ascii_lower c = (let n = of_char c :: nat in if 65 \<le> n \<and> n \<le> 90 then char_of (n + 32) else c)"

definition strcasecmp_eq :: "string \<Rightarrow> string \<Rightarrow> bool" where
  "strcasecmp_eq a b \<longleftrightarrow> map ascii_lower a = map ascii_lower b"

text \<open>A port is stored in the session in 16 bits without sign and printed with \<open>%u\<close> from a signed one.\<close>

definition parse_request_url :: "web_request \<Rightarrow> string \<Rightarrow> bool \<Rightarrow> (url_errno + web_request)" where
  "parse_request_url r request_url has_proxy_url =
     (case parse_url_components request_url of
        Inl e \<Rightarrow> Inl e
      | Inr u \<Rightarrow>
          (case (case url_scheme u of
                   None \<Rightarrow> Some 80
                 | Some s \<Rightarrow> if strcasecmp_eq s ''https'' then Some 443
                             else if strcasecmp_eq s ''http'' then Some 80 else None) of
             None \<Rightarrow> Inl Url_EINVAL
           | Some port \<Rightarrow>
               Inr (r\<lparr>req_port := (if url_port u \<noteq> -1 then nat (url_port u mod 2 ^ 16) else port),
                      req_host := (if url_port u \<noteq> -1 \<and> has_proxy_url
                                   then url_host u @ '':'' @ show_nat (nat (url_port u mod 2 ^ 32)) else url_host u),
                      req_text := (if \<not> has_proxy_url
                                   then ''/'' @ (case url_path u of None \<Rightarrow> '''' | Some path \<Rightarrow> path) else request_url)\<rparr>)))"

definition g_strdup :: "string \<Rightarrow> web_request \<Rightarrow> nat \<times> web_request" where
  "g_strdup str r = (req_fresh r, r\<lparr>req_strings := (req_strings r)(req_fresh r \<mapsto> str), req_fresh := req_fresh r + 1\<rparr>)"

definition g_free :: "nat \<Rightarrow> web_request \<Rightarrow> web_request" where
  "g_free a r = r\<lparr>req_strings := (req_strings r)(a := None)\<rparr>"

text \<open>
  \<open>parse_proxy_url\<close> gets the host as a new string in a local variable marked \<open>g_autofree\<close>, which is
  released on every return. The scheme, released likewise, is kept nowhere.
\<close>

definition parse_proxy_url :: "web_request \<Rightarrow> string \<Rightarrow> (url_errno + web_request)" where
  "parse_proxy_url r proxy_url =
     (case parse_url_scheme proxy_url 0 of
        Inl e \<Rightarrow> Inl e
      | Inr (c1, scheme) \<Rightarrow>
          (case parse_url_host_and_port proxy_url c1 of
             Inl e \<Rightarrow> Inl e
           | Inr (c2, host_text, port) \<Rightarrow>
               let (host, r1) = g_strdup host_text r in
               if scheme \<noteq> None \<and> \<not> strcasecmp_eq (the scheme) ''http'' then Inl Url_EINVAL
               else
                 let r2 = r1\<lparr>req_address := Some host, req_port := (if port \<noteq> -1 then nat (port mod 2 ^ 16) else req_port r1)\<rparr>
                 in Inr (g_free host r2)))"

definition parse_request_and_proxy_urls :: "web_request \<Rightarrow> string \<Rightarrow> string option \<Rightarrow> (url_errno + web_request)" where
  "parse_request_and_proxy_urls r url proxy =
     (case parse_request_url r url (proxy \<noteq> None) of
        Inl e \<Rightarrow> Inl e
      | Inr r1 \<Rightarrow> (case proxy of None \<Rightarrow> Inr r1 | Some p \<Rightarrow> parse_proxy_url r1 p))"

section \<open>Well-formed URLs\<close>

definition url_text :: "string option \<Rightarrow> string \<Rightarrow> nat option \<Rightarrow> string option \<Rightarrow> string" where
  "url_text scheme host port path =
     (case scheme of None \<Rightarrow> '''' | Some s \<Rightarrow> s @ ''://'') @ host @
     (case port of None \<Rightarrow> '''' | Some n \<Rightarrow> '':'' @ show_nat n) @
     (case path of None \<Rightarrow> '''' | Some p \<Rightarrow> ''/'' @ p)"

definition host_ok :: "string \<Rightarrow> bool" where
  "host_ok h \<longleftrightarrow> h \<noteq> [] \<and> \<not> g_ascii_isspace (hd h) \<and> CHR '':'' \<notin> set h \<and> CHR ''/'' \<notin> set h \<and> CHR ''['' \<notin> set h"

definition path_ok :: "string \<Rightarrow> bool" where
  "path_ok p \<longleftrightarrow> CHR '':'' \<notin> set p \<and> CHR ''['' \<notin> set p"

lemma memmem_skip:
  "CHR '':'' \<notin> set a \<Longrightarrow> memmem ''://'' (a @ t) = map_option (\<lambda>n. length a + n) (memmem ''://'' t)"
  by (induction a; cases "memmem ''://'' t") auto

lemma memmem_none: "CHR '':'' \<notin> set a \<Longrightarrow> memmem ''://'' a = None"
  using memmem_skip[of a "''''"] by simp

lemma takeWhile_neq: "c \<notin> set a \<Longrightarrow> takeWhile (\<lambda>x. x \<noteq> c) (a @ c # t) = a"
  by (induction a) auto

lemma memchr_at:
  "c \<notin> set a \<Longrightarrow> memchr (pre @ a @ c # t) (length pre) c = Some (length pre + length a)"
  by (simp add: memchr_def takeWhile_neq)

lemma memchr_none: "c \<notin> set a \<Longrightarrow> memchr (pre @ a) (length pre) c = None"
  by (simp add: memchr_def)

lemma show_nat_chars:
  "CHR '':'' \<notin> set (show_nat n)" "CHR ''/'' \<notin> set (show_nat n)" "CHR ''['' \<notin> set (show_nat n)" "show_nat n \<noteq> []"
proof -
  have d: "\<And>c. c \<in> set (show_nat n) \<Longrightarrow> digit_val c < 10" and ne: "show_nat n \<noteq> []" using show_nat_facts[of n] by auto
  have "digit_val CHR '':'' = 36" "digit_val CHR ''/'' = 36" "digit_val CHR ''['' = 36" by (simp_all add: digit_val_def)
  then show "CHR '':'' \<notin> set (show_nat n)" "CHR ''/'' \<notin> set (show_nat n)" "CHR ''['' \<notin> set (show_nat n)"
    using d[of "CHR '':''"] d[of "CHR ''/''"] d[of "CHR ''[''"] by auto
  show "show_nat n \<noteq> []" by (fact ne)
qed

lemma to_int16_port: "n < 65535 \<Longrightarrow> to_int16 (int n) \<noteq> -1 \<and> to_int16 (int n) mod 2 ^ 16 = int n"
proof -
  assume n: "n < 65535"
  have "to_int16 (int n) mod 2 ^ 16 = uint (word_of_int (int n) :: 16 word)"
    unfolding to_int16_def by (simp add: uint_sint take_bit_eq_mod)
  also have "\<dots> = int n" using n by (simp add: unsigned_of_nat take_bit_nat_eq_self)
  finally have m: "to_int16 (int n) mod 2 ^ 16 = int n" .
  show ?thesis using m n by auto
qed


lemma parse_host_text:
  assumes "host_ok host" "\<forall>n. port = Some n \<longrightarrow> n < 65535" "\<forall>p. path = Some p \<longrightarrow> path_ok p"
    and url: "url = pre @ url_text None host port path"
  shows "parse_url_host url (length pre) = Inr (length pre + length host, host)"
    and "parse_url_port url (length pre + length host) =
      Inr (length pre + length host + (case port of None \<Rightarrow> 0 | Some n \<Rightarrow> length (show_nat n)),
           case port of None \<Rightarrow> -1 | Some n \<Rightarrow> to_int16 (int n))"
    and "\<exists>c. parse_url_path url (length pre + length host + (case port of None \<Rightarrow> 0 | Some n \<Rightarrow> length (show_nat n))) = Inr (c, path)"
proof -
  have h: "host \<noteq> []" "CHR '':'' \<notin> set host" "CHR ''/'' \<notin> set host" "CHR ''['' \<notin> set host"
    using assms(1) by (auto simp: host_ok_def)
  have p: "CHR '':'' \<notin> set q" "CHR ''['' \<notin> set q" if "path = Some q" for q
    using assms(3) that by (auto simp: path_ok_def)
  let ?tail = "(case port of None \<Rightarrow> '''' | Some n \<Rightarrow> '':'' @ show_nat n) @ (case path of None \<Rightarrow> '''' | Some p \<Rightarrow> ''/'' @ p)"
  have u: "url = pre @ host @ ?tail" "url \<noteq> []" using h(1) by (simp_all add: url url_text_def)
  have nb: "memchr url (length pre) CHR ''['' = None"
    unfolding u(1) using h(4) p(2) show_nat_chars by (intro memchr_none) (auto split: option.split)
  have len: "(case memchr url (length pre) CHR '':'' of Some n \<Rightarrow> n - length pre
      | None \<Rightarrow> (case memchr url (length pre) CHR ''/'' of Some n \<Rightarrow> n - length pre | None \<Rightarrow> length url - length pre)) = length host"
    using h p(1) memchr_at[OF h(2), of pre] memchr_at[OF h(3), of pre]
      memchr_none[of "CHR '':''" "host @ ?tail" pre] memchr_none[of "CHR ''/''" host pre]
    unfolding u(1) by (cases port; cases path) simp_all
  show "parse_url_host url (length pre) = Inr (length pre + length host, host)"
    using nb len u(2) h(1) unfolding parse_url_host_def Let_def by (simp add: u(1))
  let ?pre = "pre @ host"
  have u': "url = ?pre @ ?tail" by (simp add: u(1))
  have port_none: "memchr url (length ?pre) CHR '':'' = None" if "port = None"
    unfolding u' using that p(1) by (intro memchr_none) (auto split: option.split)
  have port_some: "memchr url (length ?pre) CHR '':'' = Some (length ?pre)" if "port = Some n" for n
    using that memchr_at[of "CHR '':''" "''''" ?pre] unfolding u' by simp
  have st: "strtoul 10 (show_nat n @ (case path of None \<Rightarrow> '''' | Some p \<Rightarrow> ''/'' @ p)) = (n, length (show_nat n))"
    if "port = Some n" for n
    using assms(2) that by (intro strtoul_show_nat) (auto simp: digit_val_def split: option.split)
  show "parse_url_port url (length pre + length host) =
      Inr (length pre + length host + (case port of None \<Rightarrow> 0 | Some n \<Rightarrow> length (show_nat n)),
           case port of None \<Rightarrow> -1 | Some n \<Rightarrow> to_int16 (int n))"
    using port_none port_some st assms(2) u(2) show_nat_chars(4)
    by (cases port) (auto simp: parse_url_port_def u' to_int16_def)
  define pl where "pl = (case port of None \<Rightarrow> 0 | Some n \<Rightarrow> length (show_nat n))"
  have "\<exists>a b. url = a @ b @ (case path of None \<Rightarrow> '''' | Some p \<Rightarrow> ''/'' @ p) \<and> length a = length ?pre + pl \<and> CHR ''/'' \<notin> set b"
  proof (cases port)
    case None
    then show ?thesis by (intro exI[of _ ?pre] exI[of _ "''''"]) (simp add: u' pl_def)
  next
    case (Some n)
    obtain ds d where s: "show_nat n = ds @ [d]" using show_nat_chars(4)[of n] by (metis rev_exhaust)
    show ?thesis
      using Some s show_nat_chars(2)[of n]
      by (intro exI[of _ "?pre @ '':'' @ ds"] exI[of _ "[d]"]) (simp add: u' pl_def)
  qed
  then obtain a b where ab: "url = a @ b @ (case path of None \<Rightarrow> '''' | Some p \<Rightarrow> ''/'' @ p)"
    "length a = length ?pre + pl" "CHR ''/'' \<notin> set b" by blast
  then show "\<exists>c. parse_url_path url (length pre + length host + (case port of None \<Rightarrow> 0 | Some n \<Rightarrow> length (show_nat n))) = Inr (c, path)"
    using memchr_at[OF ab(3), of a] memchr_none[OF ab(3), of a] u(2)
    by (cases path) (simp_all add: parse_url_path_def flip: pl_def)
qed

lemma parse_scheme_text:
  assumes "host_ok host" "\<forall>p. path = Some p \<longrightarrow> path_ok p" "\<forall>s. scheme = Some s \<longrightarrow> CHR '':'' \<notin> set s"
  shows "parse_url_scheme (url_text scheme host port path) 0 =
    Inr (case scheme of None \<Rightarrow> 0 | Some s \<Rightarrow> length s + 3, scheme)"
proof -
  have h: "host \<noteq> []" "CHR '':'' \<notin> set host" using assms(1) by (auto simp: host_ok_def)
  have p: "CHR '':'' \<notin> set (case path of None \<Rightarrow> '''' | Some p \<Rightarrow> ''/'' @ p)"
    using assms(2) by (auto simp: path_ok_def split: option.split)
  have ne: "url_text scheme host port path \<noteq> []" using h(1) by (simp add: url_text_def)
  show ?thesis
  proof (cases scheme)
    case (Some s)
    then have "memmem ''://'' (url_text scheme host port path) = Some (length s)"
      using assms(3) by (simp add: url_text_def memmem_skip)
    then show ?thesis using Some ne by (simp add: parse_url_scheme_def) (simp add: url_text_def)
  next
    case None
    have "memmem ''://'' (url_text scheme host port path) = None"
    proof (cases port)
      case None
      then show ?thesis
        using \<open>scheme = None\<close> memmem_none[of "host @ (case path of None \<Rightarrow> '''' | Some p \<Rightarrow> ''/'' @ p)"] h p by (simp add: url_text_def)
    next
      case (Some n)
      obtain d ds where s: "show_nat n = d # ds" using show_nat_chars(4)[of n] by (cases "show_nat n") auto
      have "d \<noteq> CHR ''/''" using show_nat_chars(2)[of n] s by auto
      moreover have "memmem ''://'' (show_nat n @ (case path of None \<Rightarrow> '''' | Some p \<Rightarrow> ''/'' @ p)) = None"
        using p show_nat_chars(1)[of n] by (intro memmem_none) simp
      ultimately show ?thesis
        using \<open>scheme = None\<close> Some h(2) s by (simp add: url_text_def memmem_skip)
    qed
    then show ?thesis using None ne by (simp add: parse_url_scheme_def)
  qed
qed

lemma parse_url_text:
  assumes "host_ok host" "\<forall>n. port = Some n \<longrightarrow> n < 65535" "\<forall>p. path = Some p \<longrightarrow> path_ok p"
    and "\<forall>s. scheme = Some s \<longrightarrow> s \<noteq> [] \<and> CHR '':'' \<notin> set s \<and> \<not> g_ascii_isspace (hd s)"
  shows "parse_url_components (url_text scheme host port path) =
    Inr \<lparr>url_scheme = scheme, url_host = host,
         url_port = (case port of None \<Rightarrow> -1 | Some n \<Rightarrow> to_int16 (int n)), url_path = path\<rparr>"
proof -
  let ?url = "url_text scheme host port path"
  define pre where "pre = (case scheme of None \<Rightarrow> '''' | Some s \<Rightarrow> s @ ''://'')"
  have url: "?url = pre @ url_text None host port path" by (simp add: url_text_def pre_def)
  have c: "(case scheme of None \<Rightarrow> 0 | Some s \<Rightarrow> length s + 3) = length pre" by (simp add: pre_def split: option.split)
  have s: "parse_url_scheme ?url 0 = Inr (length pre, scheme)"
    using parse_scheme_text[of host path scheme port] assms(1,3,4) unfolding c by auto
  have ne: "?url \<noteq> []" and h: "\<not> g_ascii_isspace (hd ?url)"
    using assms(1,4) by (auto simp: url_text_def host_ok_def split: option.split)
  have "takeWhile g_ascii_isspace ?url = []" using ne h by (cases ?url) auto
  moreover obtain c3 where "parse_url_path ?url (length pre + length host + (case port of None \<Rightarrow> 0 | Some n \<Rightarrow> length (show_nat n))) = Inr (c3, path)"
    using parse_host_text(3)[OF assms(1-3) url] by blast
  ultimately show ?thesis
    using s ne parse_host_text(1,2)[OF assms(1-3) url]
    by (simp add: parse_url_components_def parse_url_host_and_port_def)
qed

text \<open>
  C36. The request of a well-formed URL goes to its host, to its port (80 or 443 when it names
  none) and asks for its path. The host has no colon, slash or bracket, the path no colon and no
  opening bracket, and the port is below 65535.
\<close>

theorem request_url_roundtrip:
  assumes "host_ok host" "\<forall>n. port = Some n \<longrightarrow> n < 65535" "\<forall>p. path = Some p \<longrightarrow> path_ok p"
    and "scheme \<in> {None, Some ''http'', Some ''https''}"
  shows "parse_request_and_proxy_urls r (url_text scheme host port path) None =
    Inr (r\<lparr>req_host := host,
           req_port := (case port of Some n \<Rightarrow> n | None \<Rightarrow> if scheme = Some ''https'' then 443 else 80),
           req_text := ''/'' @ (case path of None \<Rightarrow> '''' | Some p \<Rightarrow> p)\<rparr>)"
proof -
  have sp: "\<forall>s. scheme = Some s \<longrightarrow> s \<noteq> [] \<and> CHR '':'' \<notin> set s \<and> \<not> g_ascii_isspace (hd s)"
    using assms(4) by (auto simp: g_ascii_isspace_def)
  have eq: "strcasecmp_eq ''http'' ''http''" "\<not> strcasecmp_eq ''http'' ''https''" "strcasecmp_eq ''https'' ''https''"
    by (simp_all add: strcasecmp_eq_def ascii_lower_def)
  show ?thesis
    using assms(2,4) to_int16_port eq
    unfolding parse_request_and_proxy_urls_def parse_request_url_def parse_url_text[OF assms(1-3) sp]
    by (auto split: option.split)
qed

definition demo_request :: web_request where
  "demo_request = \<lparr>req_address = None, req_strings = Map.empty, req_fresh = 1, req_host = '''', req_port = 0, req_text = ''''\<rparr>"

theorem request_url_roundtrip_witness:
  "\<exists>r. parse_request_and_proxy_urls demo_request (url_text (Some ''http'') ''ipv4.connman.net'' (Some 40000) (Some ''online/status.html'')) None = Inr r \<and>
     req_port r = 40000 \<and> req_text r = ''/online/status.html''"
  using request_url_roundtrip[of "''ipv4.connman.net''" "Some 40000" "Some ''online/status.html''" "Some ''http''" demo_request]
  by (simp add: host_ok_def path_ok_def g_ascii_isspace_def)

text \<open>
  A request through a proxy keeps a pointer to freed memory: the session takes over the address of
  the host, but the local variable still owns the string.
\<close>

lemma proxy_address_dangling:
  assumes "parse_request_and_proxy_urls r url (Some proxy) = Inr r'"
  shows "\<exists>a. req_address r' = Some a \<and> req_strings r' a = None"
  using assms
  by (auto simp: parse_request_and_proxy_urls_def parse_proxy_url_def g_strdup_def g_free_def Let_def split: sum.splits if_splits)

text \<open>
  What the conditions on well-formed URLs exclude: a colon in the path is taken for the port
  delimiter, so the host swallows the path up to it, and an IPv6 address that ends in colons is
  refused.
\<close>

lemma url_colon_in_path:
  "parse_url_components ''http://h/a:80'' = Inr \<lparr>url_scheme = Some ''http'', url_host = ''h/a'', url_port = 80, url_path = None\<rparr>"
  by (simp add: parse_url_components_def parse_url_scheme_def parse_url_host_and_port_def parse_url_host_def parse_url_port_def
      parse_url_path_def memchr_def g_ascii_isspace_def to_int16_def strtoul_def c_isspace_def digit_val_def Let_def)

lemma url_ipv6_trailing_colons:
  "parse_url_components ''http://[fe80::]/'' = Inl Url_EINVAL"
  by (simp add: parse_url_components_def parse_url_scheme_def parse_url_host_and_port_def parse_url_host_def parse_url_port_def
      memchr_def g_ascii_isspace_def strtoul_def c_isspace_def digit_val_def Let_def)

end
