(* ===== verification/Stats.thy ===== *)
theory Stats
  imports Prelude "HOL-Library.Monad_Syntax"
begin

text \<open>
  The statistics of a service, \<open>src/src/stats.c\<close>: a ring buffer of records in a mapped file and a
  history file with the summarised records. A pointer into a mapping is its byte offset; every
  remapping recomputes the cached pointers, so the base address plays no part. The records of a
  mapping are a function from offsets, which is faithful while the offsets of the header are
  those of slots. What the calls of the system give is a record \<open>stats_env\<close>; the calendar of the
  container library is part of it. The result \<open>None\<close> stands for undefined behaviour: the use of a
  mapping that does not exist, or the release of a structure on the stack.
\<close>

unbundle bit_operations_syntax

section \<open>State\<close>

abbreviation "HDR_SIZE \<equiv> 20 :: nat"
abbreviation "REC_SIZE \<equiv> 48 :: nat"
abbreviation "MAGIC \<equiv> 0xFA00B916 :: nat"
abbreviation "UINT_MAX \<equiv> 2 ^ 32 - 1 :: nat"

record stats_data =
  rx_packets :: u32
  tx_packets :: u32
  rx_bytes :: u32
  tx_bytes :: u32
  rx_errors :: u32
  tx_errors :: u32
  rx_dropped :: u32
  tx_dropped :: u32
  stats_time :: u32

record stats_record =
  rec_ts :: int
  rec_roaming :: bool
  rec_data :: stats_data

record stats_file =
  hdr_magic :: nat
  hdr_begin :: nat
  hdr_end :: nat
  hdr_home :: nat
  hdr_roaming :: nat
  records :: "nat \<Rightarrow> stats_record"
  file_len :: nat
  max_len :: nat
  first_rec :: nat
  last_rec :: nat
  home_rec :: "nat option"
  roaming_rec :: "nat option"

record stats_env =
  page_size :: "64 word"
  ftruncate_ok :: bool
  mmap_ok :: bool
  fstat_ok :: bool
  open_history_ok :: bool
  open_temp_ok :: bool
  link_ok :: bool
  stats_max_len :: nat
  time_now :: int
  date_of :: "int \<Rightarrow> int"
  date_day :: "int \<Rightarrow> nat"
  date_month :: "int \<Rightarrow> nat"
  date_subtract_months :: "int \<Rightarrow> nat \<Rightarrow> int"
  date_set_day :: "int \<Rightarrow> nat \<Rightarrow> int"

section \<open>The ring buffer\<close>

definition get_home :: "stats_file \<Rightarrow> nat option" where
  "get_home f = (if hdr_home f = UINT_MAX then None else Some (hdr_home f))"

definition get_roaming :: "stats_file \<Rightarrow> nat option" where
  "get_roaming f = (if hdr_roaming f = UINT_MAX then None else Some (hdr_roaming f))"

definition set_end :: "nat \<Rightarrow> stats_file \<Rightarrow> stats_file" where
  "set_end p f = f\<lparr>hdr_end := p mod 2 ^ 32\<rparr>"

definition set_home :: "nat \<Rightarrow> stats_file \<Rightarrow> stats_file" where
  "set_home p f = f\<lparr>hdr_home := p mod 2 ^ 32\<rparr>"

definition set_roaming :: "nat \<Rightarrow> stats_file \<Rightarrow> stats_file" where
  "set_roaming p f = f\<lparr>hdr_roaming := p mod 2 ^ 32\<rparr>"

definition get_next :: "stats_file \<Rightarrow> nat \<Rightarrow> nat" where
  "get_next f cur = (if cur + REC_SIZE > last_rec f then first_rec f else cur + REC_SIZE)"

definition get_iterator_begin :: "stats_file \<Rightarrow> nat" where
  "get_iterator_begin f = get_next f (hdr_begin f)"

definition get_iterator_end :: "stats_file \<Rightarrow> nat" where
  "get_iterator_end f = get_next f (hdr_end f)"

definition update_first :: "stats_file \<Rightarrow> stats_file" where
  "update_first f = f\<lparr>first_rec := HDR_SIZE\<rparr>"

definition update_last :: "stats_file \<Rightarrow> stats_file" where
  "update_last f =
     (let max_entries = (file_len f - HDR_SIZE) div REC_SIZE mod 2 ^ 32
      in f\<lparr>last_rec := first_rec f + max_entries * REC_SIZE - REC_SIZE\<rparr>)"

definition update_home :: "stats_file \<Rightarrow> stats_file" where
  "update_home f = f\<lparr>home_rec := get_home f\<rparr>"

definition update_roaming :: "stats_file \<Rightarrow> stats_file" where
  "update_roaming f = f\<lparr>roaming_rec := get_roaming f\<rparr>"

definition stats_file_update_cache :: "stats_file \<Rightarrow> stats_file" where
  "stats_file_update_cache f = update_roaming (update_home (update_last (update_first f)))"

definition stats_file_remap :: "stats_env \<Rightarrow> nat \<Rightarrow> stats_file \<Rightarrow> unit result \<times> stats_file" where
  "stats_file_remap e sz f =
     (let new_size = (word_of_nat sz + page_size e - 1) AND NOT (page_size e - 1) in
      if \<not> ftruncate_ok e then (Inl EIO, f)
      else if \<not> mmap_ok e then (Inl EIO, f)
      else (Inr (), stats_file_update_cache (f\<lparr>file_len := unat new_size\<rparr>)))"

text \<open>The header is written anew unless it looks like one that this code has written.\<close>

definition hdr_invalid :: "stats_file \<Rightarrow> bool" where
  "hdr_invalid f \<longleftrightarrow> hdr_magic f \<noteq> MAGIC \<or> hdr_begin f < HDR_SIZE \<or> hdr_end f < HDR_SIZE \<or> hdr_home f < HDR_SIZE \<or>
     hdr_roaming f < HDR_SIZE \<or> hdr_begin f > file_len f \<or> hdr_end f > file_len f"

definition stats_file_setup :: "stats_env \<Rightarrow> stats_file \<Rightarrow> unit result \<times> stats_file" where
  "stats_file_setup e f =
     (if \<not> fstat_ok e then (Inl EIO, f)
      else
        let f1 = f\<lparr>max_len := stats_max_len e\<rparr>;
            sz = (if file_len f < unat (page_size e) then unat (page_size e) else file_len f)
        in case stats_file_remap e sz f1 of
             (Inl err, f2) \<Rightarrow> (Inl err, f2)
           | (Inr _, f2) \<Rightarrow>
               (Inr (), if hdr_invalid f2
                        then stats_file_update_cache
                          (f2\<lparr>hdr_magic := MAGIC, hdr_begin := HDR_SIZE, hdr_end := HDR_SIZE, hdr_home := UINT_MAX, hdr_roaming := UINT_MAX\<rparr>)
                        else f2))"

definition append_record :: "stats_env \<Rightarrow> stats_record \<Rightarrow> stats_file \<Rightarrow> unit result \<times> stats_file" where
  "append_record e r f =
     (case (if last_rec f = hdr_end f
            then (case stats_file_remap e (file_len f + unat (page_size e)) f of
                    (Inl err, f1) \<Rightarrow> (Inl err, f1)
                  | (Inr u, f1) \<Rightarrow> (Inr u, stats_file_update_cache f1))
            else (Inr (), f)) of
        (Inl err, f1) \<Rightarrow> (Inl err, f1)
      | (Inr _, f1) \<Rightarrow>
          let next = get_next f1 (hdr_end f1)
          in (Inr (), set_end next (f1\<lparr>records := (records f1)(next := r)\<rparr>)))"

section \<open>The history\<close>

text \<open>
  \<open>get_next_record\<close> of an iterator at \<open>it\<close> that ends at \<open>fin\<close>: the record under the iterator and the
  iterator moved on, or none.
\<close>

definition get_next_record :: "stats_file \<Rightarrow> nat \<Rightarrow> nat \<Rightarrow> (stats_record \<times> nat) option" where
  "get_next_record f fin it = (if it \<noteq> fin then Some (records f it, get_next f it) else None)"

text \<open>
  The dates are those of GLib, as day numbers: \<open>date_of\<close> is \<open>g_date_set_time_t\<close>, \<open>date_day\<close> and
  \<open>date_month\<close> read the day and the month of a date. \<open>summarize\<close> first computes the date from
  which on the periods are days: the start of an accounting period, two periods back.
\<close>

definition date_change_step_size :: "stats_env \<Rightarrow> nat \<Rightarrow> int" where
  "date_change_step_size e account_period_offset =
     (let today = date_of e (time_now e)
      in date_set_day e
           (date_subtract_months e today (if int (date_day e today) - int account_period_offset \<ge> 0 then 2 else 3))
           account_period_offset)"

text \<open>Whether the period of a record ends before the next one: a month for old records, else a day.\<close>

definition period_ends :: "stats_env \<Rightarrow> nat \<Rightarrow> stats_record \<Rightarrow> stats_record \<Rightarrow> bool" where
  "period_ends e account_period_offset cur next =
     (let date_cur = date_of e (rec_ts cur);
          date_next = date_of e (rec_ts next)
      in if date_cur < date_change_step_size e account_period_offset then
           (date_day e date_cur = date_day e date_next \<and> date_month e date_cur \<noteq> date_month e date_next) \<or>
           (date_day e date_cur < account_period_offset \<and> date_day e date_next \<ge> account_period_offset)
         else date_next - date_cur > 0)"

definition append_opt :: "stats_env \<Rightarrow> stats_record option \<Rightarrow> stats_file \<Rightarrow> stats_file" where
  "append_opt e r f = (case r of None \<Rightarrow> f | Some r \<Rightarrow> snd (append_record e r f))"

text \<open>
  The loop of \<open>process_file\<close>: the pending home and roaming records, the current record, the next
  one (if any) and the iterator. It may run forever when the end of the iterator is not on its
  way, which is \<open>None\<close>.
\<close>

partial_function (option) process_loop ::
  "stats_env \<Rightarrow> nat \<Rightarrow> stats_file \<Rightarrow> nat \<Rightarrow> stats_record option \<Rightarrow> stats_record option \<Rightarrow> stats_record \<Rightarrow>
     (stats_record \<times> nat) option \<Rightarrow> stats_file \<Rightarrow> (stats_record \<times> stats_file) option" where
  "process_loop e off f fin home roaming cur nxt temp =
     (case nxt of
        None \<Rightarrow> Some (cur, temp)
      | Some (next, it) \<Rightarrow>
          let roaming1 = (if rec_roaming cur then Some cur else roaming);
              home1 = (if rec_roaming cur then home else Some cur);
              app = period_ends e off cur next;
              temp1 = (if app then append_opt e roaming1 (append_opt e home1 temp) else temp)
          in process_loop e off f fin (if app then None else home1) (if app then None else roaming1) next
               (get_next_record f fin it) temp1)"

definition process_file ::
  "stats_env \<Rightarrow> nat \<Rightarrow> stats_file \<Rightarrow> nat \<Rightarrow> nat \<Rightarrow> stats_file \<Rightarrow> stats_record option \<Rightarrow> (stats_record option \<times> stats_file) option" where
  "process_file e off f fin it temp cur =
     (case (case cur of Some c \<Rightarrow> Some (c, it) | None \<Rightarrow> get_next_record f fin it) of
        None \<Rightarrow> Some (None, temp)
      | Some (c, it1) \<Rightarrow>
          map_option (\<lambda>(c', t). (Some c', t)) (process_loop e off f fin None None c (get_next_record f fin it1) temp))"

text \<open>The records of the data file that are older than the last of the history are skipped.\<close>

partial_function (option) skip_old :: "stats_file \<Rightarrow> nat \<Rightarrow> stats_record \<Rightarrow> (stats_record \<times> nat) option \<Rightarrow> nat \<Rightarrow> nat option" where
  "skip_old f fin cur nxt it =
     (case nxt of
        None \<Rightarrow> Some it
      | Some (next, it1) \<Rightarrow>
          if rec_ts cur > rec_ts next then skip_old f fin cur (get_next_record f fin it1) it1 else Some it1)"

definition summarize :: "stats_env \<Rightarrow> nat \<Rightarrow> stats_file \<Rightarrow> stats_file \<Rightarrow> stats_file \<Rightarrow> stats_file option" where
  "summarize e off data_file history_file temp_file =
     do {
       (cur, temp1) \<leftarrow> process_file e off history_file (get_iterator_end history_file) (get_iterator_begin history_file) temp_file None;
       let it = get_iterator_begin data_file;
       let fin = get_iterator_end data_file;
       it1 \<leftarrow> (case cur of
                 None \<Rightarrow> Some it
               | Some c \<Rightarrow> skip_old data_file fin c (get_next_record data_file fin it) it);
       (cur2, temp2) \<leftarrow> process_file e off data_file fin it1 temp1 cur;
       Some (append_opt e cur2 temp2)
     }"

text \<open>A file that does not exist yet.\<close>

definition stats_file_empty :: stats_file where
  "stats_file_empty = \<lparr>hdr_magic = 0, hdr_begin = 0, hdr_end = 0, hdr_home = 0, hdr_roaming = 0,
     records = (\<lambda>_. \<lparr>rec_ts = 0, rec_roaming = False, rec_data = \<lparr>rx_packets = 0, tx_packets = 0, rx_bytes = 0, tx_bytes = 0,
       rx_errors = 0, tx_errors = 0, rx_dropped = 0, tx_dropped = 0, stats_time = 0\<rparr>\<rparr>),
     file_len = 0, max_len = 0, first_rec = 0, last_rec = 0, home_rec = None, roaming_rec = None\<rparr>"

text \<open>
  \<open>stats_file_close_swap\<close> unlinks the history before it links the new one in its place; a
  failure to link leaves no history.
\<close>

definition stats_file_close_swap :: "stats_env \<Rightarrow> stats_file \<Rightarrow> unit result \<times> stats_file" where
  "stats_file_close_swap e temp = (if link_ok e then (Inr (), temp) else (Inl EIO, stats_file_empty))"

text \<open>
  \<open>stats_file_history_update\<close> keeps both file structures on its stack. When the temporary file
  cannot be opened it hands the one of the history to \<open>stats_free\<close>, which ends with \<open>g_free\<close> of
  that structure: the behaviour is undefined, \<open>None\<close>. A mapping that failed goes unnoticed, and
  the summary then works without an address, \<open>None\<close> as well.
\<close>

definition stats_file_history_update ::
  "stats_env \<Rightarrow> nat \<Rightarrow> stats_file \<Rightarrow> stats_file \<Rightarrow> (unit result \<times> stats_file) option" where
  "stats_file_history_update e off data_file history =
     (if \<not> open_history_ok e then Some (Inl EIO, history)
      else
        case stats_file_setup e history of
          (Inl _, _) \<Rightarrow> None
        | (Inr _, history1) \<Rightarrow>
            if \<not> open_temp_ok e then None
            else case stats_file_setup e stats_file_empty of
                   (Inl _, _) \<Rightarrow> None
                 | (Inr _, temp) \<Rightarrow>
                     map_option (stats_file_close_swap e) (summarize e off data_file history1 temp))"

section \<open>The services\<close>

record stats_store =
  data_file :: stats_file
  history_file :: stats_file
  period_offset :: nat

type_synonym stats_hash = "ptr \<rightharpoonup> stats_store"

text \<open>
  Registering a service maps its file; \<open>disk\<close> holds the files of its directory, \<open>dir_ok\<close> and
  \<open>open_ok\<close> say whether the directory and the file could be opened.
\<close>

definition stats_service_register ::
  "stats_env \<Rightarrow> bool \<Rightarrow> bool \<Rightarrow> bool \<Rightarrow> stats_file \<times> stats_file \<Rightarrow> ptr \<Rightarrow> stats_hash \<Rightarrow> unit result \<times> stats_hash" where
  "stats_service_register e dir_ok mem_ok open_ok disk service h =
     (if \<not> dir_ok then (Inl EACCES, h(service := None))
      else if h service \<noteq> None then (Inl EALREADY, h)
      else if \<not> mem_ok then (Inl ENOMEM, h)
      else if \<not> open_ok then (Inl EIO, h(service := None))
      else case stats_file_setup e (fst disk) of
        (Inl err, _) \<Rightarrow> (Inl err, h(service := None))
      | (Inr _, f) \<Rightarrow> (Inr (), h(service \<mapsto> \<lparr>data_file = f, history_file = snd disk, period_offset = 1\<rparr>)))"

definition stats_service_unregister :: "ptr \<Rightarrow> stats_hash \<Rightarrow> stats_hash" where
  "stats_service_unregister service h = h(service := None)"

definition store_record :: "stats_env \<Rightarrow> bool \<Rightarrow> stats_data \<Rightarrow> nat \<Rightarrow> stats_file \<Rightarrow> stats_file" where
  "store_record e roaming d next f =
     (let f1 = f\<lparr>records := (records f)(next := \<lparr>rec_ts = time_now e, rec_roaming = roaming, rec_data = d\<rparr>)\<rparr>;
          f2 = (if \<not> roaming then set_home next f1 else set_roaming next f1)
      in set_end next f2)"

definition stats_update :: "stats_env \<Rightarrow> ptr \<Rightarrow> bool \<Rightarrow> stats_data \<Rightarrow> stats_hash \<Rightarrow> (unit result \<times> stats_hash) option" where
  "stats_update e service roaming d h =
     (case h service of
        None \<Rightarrow> Some (Inl EEXIST, h)
      | Some st \<Rightarrow>
          let f = data_file st in
          case (if file_len f < max_len f \<and> last_rec f = hdr_end f
                then stats_file_remap e (file_len f + unat (page_size e)) f else (Inr (), f)) of
            (Inl err, f1) \<Rightarrow> Some (Inl err, h(service \<mapsto> st\<lparr>data_file := f1\<rparr>))
          | (Inr _, f1) \<Rightarrow>
              let next = get_next f1 (hdr_end f1) in
              do {
                hist \<leftarrow> (if next = hdr_begin f1
                         then map_option snd (stats_file_history_update e (period_offset st) f1 (history_file st))
                         else Some (history_file st));
                Some (Inr (), h(service \<mapsto> st\<lparr>data_file := store_record e roaming d next f1, history_file := hist\<rparr>))
              })"

definition stats_get :: "ptr \<Rightarrow> bool \<Rightarrow> stats_hash \<Rightarrow> stats_data option result" where
  "stats_get service roaming h =
     (case h service of
        None \<Rightarrow> Inl EEXIST
      | Some st \<Rightarrow>
          let f = data_file st in
          Inr (map_option (\<lambda>p. rec_data (records f p)) (if \<not> roaming then home_rec f else roaming_rec f)))"

section \<open>Well-formed files\<close>

definition slot :: "nat \<Rightarrow> nat" where
  "slot i = HDR_SIZE + REC_SIZE * i"

definition slots :: "stats_file \<Rightarrow> nat" where
  "slots f = (file_len f - HDR_SIZE) div REC_SIZE"

definition end_ix :: "stats_file \<Rightarrow> nat" where
  "end_ix f = (hdr_end f - HDR_SIZE) div REC_SIZE"

definition stats_wf :: "stats_file \<Rightarrow> bool" where
  "stats_wf f \<longleftrightarrow> hdr_magic f = MAGIC \<and> 2 \<le> slots f \<and> file_len f < 2 ^ 32 \<and> first_rec f = slot 0 \<and>
     last_rec f = slot (slots f - 1) \<and> hdr_begin f = slot 0 \<and> hdr_end f = slot (end_ix f) \<and> end_ix f < slots f \<and>
     (hdr_home f = UINT_MAX \<or> (\<exists>i< slots f. hdr_home f = slot i)) \<and>
     (hdr_roaming f = UINT_MAX \<or> (\<exists>i< slots f. hdr_roaming f = slot i))"

text \<open>The records of a file, the oldest first: those after the begin up to the end.\<close>

definition ring :: "stats_file \<Rightarrow> stats_record list" where
  "ring f = map (\<lambda>i. records f (slot i)) [1..<end_ix f + 1]"

definition page_ok :: "stats_env \<Rightarrow> bool" where
  "page_ok e \<longleftrightarrow> (\<exists>k. 8 \<le> k \<and> k \<le> 24 \<and> page_size e = 2 ^ k)"

definition map_ok :: "stats_env \<Rightarrow> bool" where
  "map_ok e \<longleftrightarrow> ftruncate_ok e \<and> mmap_ok e \<and> fstat_ok e"

abbreviation "page e \<equiv> unat (page_size e)"

definition mapped :: "stats_env \<Rightarrow> stats_file \<Rightarrow> bool" where
  "mapped e f \<longleftrightarrow> stats_wf f \<and> page e dvd file_len f"

lemma slot_simps [simp]: "slot i = slot j \<longleftrightarrow> i = j" "slot i + REC_SIZE = slot (i + 1)" "slot i < slot j \<longleftrightarrow> i < j"
  "(slot i - HDR_SIZE) div REC_SIZE = i" "HDR_SIZE \<le> slot i" "slot 0 = HDR_SIZE"
  by (auto simp: slot_def)

lemma slot_in_file: "i < slots f \<Longrightarrow> slot i + REC_SIZE \<le> file_len f"
proof -
  assume "i < slots f"
  then have "(i + 1) * REC_SIZE \<le> slots f * REC_SIZE" by simp
  also have "\<dots> \<le> file_len f - HDR_SIZE" by (simp add: slots_def)
  finally show ?thesis using \<open>i < slots f\<close> by (auto simp: slot_def slots_def)
qed

lemma slot_mod: "i < slots f \<Longrightarrow> file_len f < 2 ^ 32 \<Longrightarrow> slot i mod 2 ^ 32 = slot i"
  using slot_in_file[of i f] by (intro mod_less) (simp add: slot_def)

lemma page_cases: "page_ok e \<Longrightarrow> \<exists>k. 8 \<le> k \<and> k \<le> 24 \<and> page_size e = 2 ^ k \<and> page e = 2 ^ k \<and> 256 \<le> page e \<and> page e \<le> 2 ^ 24"
proof -
  assume "page_ok e"
  then obtain k where k: "8 \<le> k" "k \<le> 24" "page_size e = 2 ^ k" by (auto simp: page_ok_def)
  have b: "(2::nat) ^ 8 \<le> 2 ^ k" "(2::nat) ^ k \<le> 2 ^ 24" 
    using power_increasing[OF k(1), of "2::nat"] power_increasing[OF k(2), of "2::nat"] by simp_all
  have "(2 :: 64 word) ^ k = word_of_nat (2 ^ k)" by simp
  then have "page e = 2 ^ k mod 2 ^ 64" unfolding k(3) by (simp only: unat_of_nat) simp
  also have "\<dots> = 2 ^ k" using b(2) by (intro mod_less) simp
  finally have "page e = 2 ^ k" .
  moreover note b
  ultimately show ?thesis using k by auto
qed

lemma div_round_up: "0 < p \<Longrightarrow> (p * j + p - 1) div p = (j :: nat)"
  by (rule div_nat_eqI) (auto simp: algebra_simps)

text \<open>Rounding up to pages leaves a multiple of the page size alone.\<close>

lemma round_to_page:
  assumes "page_ok e" "page e dvd n" "n + page e < 2 ^ 63"
  shows "unat ((word_of_nat n + page_size e - 1) AND NOT (page_size e - 1)) = n"
proof -
  obtain k where k: "k \<le> 24" "page_size e = 2 ^ k" "page e = 2 ^ k" using page_cases[OF assms(1)] by auto
  have m: "page_size e - 1 = mask k" by (simp add: k(2) mask_eq_exp_minus_1)
  obtain j where j: "n = 2 ^ k * j" using assms(2) k(3) by auto
  have u: "unat (word_of_nat n + page_size e - 1 :: 64 word) = n + 2 ^ k - 1"
  proof -
    have "word_of_nat n + page_size e - 1 = (word_of_nat (n + 2 ^ k - 1) :: 64 word)"
      using of_nat_diff[of 1 "n + 2 ^ k", where ?'a = "64 word"] by (simp add: k(2) Suc_le_eq)
    then show ?thesis using assms(3) k(3) by (simp add: unat_of_nat)
  qed
  have "(word_of_nat n + page_size e - 1) AND NOT (mask k) = push_bit k (drop_bit k (word_of_nat n + page_size e - 1 :: 64 word))"
    by (rule bit_eqI) (auto simp: bit_simps)
  then have "unat ((word_of_nat n + page_size e - 1) AND NOT (page_size e - 1)) = (n + 2 ^ k - 1) div 2 ^ k * 2 ^ k mod 2 ^ 64"
    unfolding m by (simp only: unat_push_bit unat_drop_bit u) simp
  also have "(n + 2 ^ k - 1) div 2 ^ k = j"
    unfolding j by (rule div_round_up) simp
  finally show ?thesis using assms(3) by (simp add: j mult.commute)
qed

lemma cache_simps [simp]:
  "hdr_magic (stats_file_update_cache f) = hdr_magic f" "hdr_begin (stats_file_update_cache f) = hdr_begin f"
  "hdr_end (stats_file_update_cache f) = hdr_end f" "hdr_home (stats_file_update_cache f) = hdr_home f"
  "hdr_roaming (stats_file_update_cache f) = hdr_roaming f" "records (stats_file_update_cache f) = records f"
  "file_len (stats_file_update_cache f) = file_len f" "max_len (stats_file_update_cache f) = max_len f"
  "first_rec (stats_file_update_cache f) = slot 0" "slots (stats_file_update_cache f) = slots f"
  "end_ix (stats_file_update_cache f) = end_ix f" "ring (stats_file_update_cache f) = ring f"
  by (simp_all add: stats_file_update_cache_def update_first_def update_last_def update_home_def update_roaming_def
      Let_def slots_def end_ix_def ring_def)

lemma cache_last [simp]:
  "file_len f < 2 ^ 32 \<Longrightarrow> 1 \<le> slots f \<Longrightarrow> last_rec (stats_file_update_cache f) = slot (slots f - 1)"
proof -
  assume a: "file_len f < 2 ^ 32" "1 \<le> slots f"
  have "(file_len f - HDR_SIZE) div REC_SIZE < 2 ^ 32" using a(1) by (simp add: div_less_iff_less_mult)
  then show ?thesis
    using a(2) by (simp add: stats_file_update_cache_def update_first_def update_last_def update_home_def update_roaming_def
      Let_def slots_def slot_def algebra_simps)
qed

lemma cache_wf: "stats_wf f \<Longrightarrow> stats_wf (stats_file_update_cache f)"
  by (auto simp: stats_wf_def)

text \<open>Growing a file by a page.\<close>

lemma remap_grow:
  assumes "page_ok e" "map_ok e" "mapped e f" "file_len f + page e < 2 ^ 32"
  shows "\<exists>g. stats_file_remap e (file_len f + page e) f = (Inr (), g) \<and> mapped e g \<and> ring g = ring f \<and> end_ix g = end_ix f \<and>
    slots f < slots g \<and> file_len g = file_len f + page e \<and> max_len g = max_len f"
proof -
  let ?h = "f\<lparr>file_len := file_len f + page e\<rparr>"
  have wf: "stats_wf f" and d: "page e dvd file_len f" using assms(3) by (auto simp: mapped_def)
  have p: "256 \<le> page e" using page_cases[OF assms(1)] by auto
  have r: "unat ((word_of_nat (file_len f + page e) + page_size e - 1) AND NOT (page_size e - 1)) = file_len f + page e"
    using d assms(4) p page_cases[OF assms(1)] by (intro round_to_page[OF assms(1)]) auto
  have s: "slots f < slots ?h"
  proof -
    have "slots f + 1 \<le> (file_len f - HDR_SIZE + REC_SIZE) div REC_SIZE" by (simp add: slots_def)
    also have "\<dots> \<le> (file_len ?h - HDR_SIZE) div REC_SIZE"
      using p wf slot_in_file[of 0 f] by (intro div_le_mono) (simp add: stats_wf_def)
    finally show ?thesis by (simp add: slots_def)
  qed
  have e: "end_ix ?h = end_ix f" "ring ?h = ring f" by (simp_all add: end_ix_def ring_def)
  have home: "hdr_home f = slot i \<Longrightarrow> i < slots f \<Longrightarrow> \<exists>i < slots ?h. hdr_home f = slot i" for i using s less_trans by blast
  have roam: "hdr_roaming f = slot i \<Longrightarrow> i < slots f \<Longrightarrow> \<exists>i < slots ?h. hdr_roaming f = slot i" for i using s less_trans by blast
  have "stats_wf (stats_file_update_cache ?h)"
    using wf assms(4) s e(1) home roam unfolding stats_wf_def by auto
  then show ?thesis
    using assms(2) r s e d by (simp add: stats_file_remap_def map_ok_def mapped_def)
qed

lemma remap_keeps:
  "\<not> (ftruncate_ok e \<and> mmap_ok e) \<Longrightarrow> stats_file_remap e sz f = (Inl EIO, f)"
  by (simp add: stats_file_remap_def Let_def)

section \<open>Moving in the ring\<close>

lemma get_next_slot: "stats_wf f \<Longrightarrow> i < slots f \<Longrightarrow> get_next f (slot i) = slot (if i + 1 = slots f then 0 else i + 1)"
  by (auto simp: get_next_def stats_wf_def)

lemma last_is_end: "stats_wf f \<Longrightarrow> last_rec f = hdr_end f \<longleftrightarrow> end_ix f + 1 = slots f"
  by (auto simp: stats_wf_def)

lemma upd_simps [simp]:
  "slots (f\<lparr>records := rs\<rparr>) = slots f" "slots (f\<lparr>hdr_end := n\<rparr>) = slots f" "slots (f\<lparr>hdr_home := n\<rparr>) = slots f"
  "slots (f\<lparr>hdr_roaming := n\<rparr>) = slots f" "end_ix (f\<lparr>records := rs\<rparr>) = end_ix f" "end_ix (f\<lparr>hdr_home := n\<rparr>) = end_ix f"
  "end_ix (f\<lparr>hdr_roaming := n\<rparr>) = end_ix f" "end_ix (f\<lparr>hdr_end := slot i\<rparr>) = i"
  by (simp_all add: slots_def end_ix_def)

lemma set_slot:
  "i < slots f \<Longrightarrow> file_len f < 2 ^ 32 \<Longrightarrow> set_end (slot i) f = f\<lparr>hdr_end := slot i\<rparr>"
  "i < slots f \<Longrightarrow> file_len f < 2 ^ 32 \<Longrightarrow> set_home (slot i) f = f\<lparr>hdr_home := slot i\<rparr>"
  "i < slots f \<Longrightarrow> file_len f < 2 ^ 32 \<Longrightarrow> set_roaming (slot i) f = f\<lparr>hdr_roaming := slot i\<rparr>"
  using slot_mod[of i f] by (simp_all only: set_end_def set_home_def set_roaming_def)

lemma ring_push: "end_ix g = end_ix f + 1 \<Longrightarrow> records g = (records f)(slot (end_ix f + 1) := r) \<Longrightarrow> ring g = ring f @ [r]"
  by (simp add: ring_def)

lemma stats_wf_upd:
  "stats_wf f \<Longrightarrow> stats_wf (f\<lparr>records := rs\<rparr>)"
  "stats_wf f \<Longrightarrow> i < slots f \<Longrightarrow> stats_wf (f\<lparr>hdr_end := slot i\<rparr>)"
  "stats_wf f \<Longrightarrow> i < slots f \<Longrightarrow> stats_wf (f\<lparr>hdr_home := slot i\<rparr>)"
  "stats_wf f \<Longrightarrow> i < slots f \<Longrightarrow> stats_wf (f\<lparr>hdr_roaming := slot i\<rparr>)"
  by (auto simp: stats_wf_def)

lemma append_ok:
  assumes "page_ok e" "map_ok e" "mapped e f" "file_len f + page e < 2 ^ 32"
  shows "\<exists>g. append_record e r f = (Inr (), g) \<and> mapped e g \<and> ring g = ring f @ [r] \<and> file_len g \<le> file_len f + page e"
proof -
  have "\<exists>f1. (if last_rec f = hdr_end f
            then (case stats_file_remap e (file_len f + unat (page_size e)) f of
                    (Inl err, f1) \<Rightarrow> (Inl err, f1)
                  | (Inr u, f1) \<Rightarrow> (Inr u, stats_file_update_cache f1))
            else (Inr (), f)) = (Inr (), f1) \<and> mapped e f1 \<and> ring f1 = ring f \<and> end_ix f1 + 1 < slots f1 \<and> file_len f1 \<le> file_len f + page e"
  proof (cases "last_rec f = hdr_end f")
    case True
    then have "end_ix f + 1 = slots f" using assms(3) by (simp add: mapped_def last_is_end)
    then show ?thesis
      using True remap_grow[OF assms] by (auto simp: mapped_def cache_wf)
  next
    case False
    then have "end_ix f + 1 < slots f" using assms(3) last_is_end[of f] by (auto simp: mapped_def stats_wf_def)
    then show ?thesis using False assms(3) by simp
  qed
  then obtain f1 where f1: "(if last_rec f = hdr_end f
            then (case stats_file_remap e (file_len f + unat (page_size e)) f of
                    (Inl err, f1) \<Rightarrow> (Inl err, f1)
                  | (Inr u, f1) \<Rightarrow> (Inr u, stats_file_update_cache f1))
            else (Inr (), f)) = (Inr (), f1)" and wf: "stats_wf f1" "page e dvd file_len f1" and
    r: "ring f1 = ring f" and i: "end_ix f1 + 1 < slots f1" and l: "file_len f1 \<le> file_len f + page e" by (auto simp: mapped_def)
  let ?n = "slot (end_ix f1 + 1)"
  let ?g = "f1\<lparr>records := (records f1)(?n := r), hdr_end := ?n\<rparr>"
  have n: "get_next f1 (hdr_end f1) = ?n"
    using get_next_slot[OF wf(1), of "end_ix f1"] wf(1) i by (simp add: stats_wf_def)
  have s: "set_end ?n (f1\<lparr>records := (records f1)(?n := r)\<rparr>) = ?g" using i wf(1) by (intro set_slot) (simp_all add: stats_wf_def)
  have "ring ?g = ring f @ [r]" using ring_push[of ?g f1 r] r by simp
  moreover have "stats_wf ?g" using i wf(1) by (intro stats_wf_upd) simp_all
  moreover have "append_record e r f = (Inr (), ?g)"
    by (simp only: append_record_def f1 n s Let_def prod.case sum.case)
  ultimately show ?thesis using l wf(2) by (simp add: mapped_def)
qed

lemma append_keeps:
  assumes "page_ok e" "mapped e f" "file_len f + page e < 2 ^ 32"
  shows "mapped e (snd (append_record e r f)) \<and> file_len (snd (append_record e r f)) \<le> file_len f + page e"
proof (cases "last_rec f = hdr_end f \<and> \<not> (ftruncate_ok e \<and> mmap_ok e)")
  case True
  then show ?thesis using assms(2) by (simp add: append_record_def remap_keeps)
next
  case False
  let ?e = "e\<lparr>fstat_ok := True, ftruncate_ok := True, mmap_ok := True\<rparr>"
  have "append_record e r f = append_record ?e r f"
    using False by (auto simp: append_record_def stats_file_remap_def)
  moreover have "page_ok ?e" "map_ok ?e" "mapped ?e f" using assms by (simp_all add: page_ok_def map_ok_def mapped_def)
  ultimately show ?thesis using append_ok[of ?e f r] assms(3) by (auto simp: mapped_def)
qed

section \<open>The history as a function on lists\<close>

fun opt_list :: "'a option \<Rightarrow> 'a list" where
  "opt_list None = []"
| "opt_list (Some x) = [x]"

definition append_all :: "stats_env \<Rightarrow> stats_record list \<Rightarrow> stats_file \<Rightarrow> stats_file" where
  "append_all e rs f = fold (\<lambda>r f. snd (append_record e r f)) rs f"

fun process_list ::
  "stats_env \<Rightarrow> nat \<Rightarrow> stats_record option \<Rightarrow> stats_record option \<Rightarrow> stats_record \<Rightarrow> stats_record list \<Rightarrow> stats_record \<times> stats_record list" where
  "process_list e off home roaming cur [] = (cur, [])"
| "process_list e off home roaming cur (next # rs) =
     (let roaming1 = (if rec_roaming cur then Some cur else roaming);
          home1 = (if rec_roaming cur then home else Some cur)
      in if period_ends e off cur next
         then map_prod id (append (opt_list home1 @ opt_list roaming1)) (process_list e off None None next rs)
         else process_list e off home1 roaming1 next rs)"

definition process_records :: "stats_env \<Rightarrow> nat \<Rightarrow> stats_record option \<Rightarrow> stats_record list \<Rightarrow> stats_record option \<times> stats_record list" where
  "process_records e off cur rs =
     (case opt_list cur @ rs of
        [] \<Rightarrow> (None, [])
      | c # cs \<Rightarrow> map_prod Some id (process_list e off None None c cs))"

text \<open>
  What a summary of a history and of the records of a data file is. When there is a history, the
  records before its last one are dropped, and with them the first one that is not.
\<close>

definition summary :: "stats_env \<Rightarrow> nat \<Rightarrow> stats_record list \<Rightarrow> stats_record list \<Rightarrow> stats_record list" where
  "summary e off hs ds =
     (case process_records e off None hs of
        (cur, out1) \<Rightarrow>
          (case process_records e off cur (case cur of None \<Rightarrow> ds | Some c \<Rightarrow> tl (dropWhile (\<lambda>r. rec_ts r < rec_ts c) ds)) of
             (cur2, out2) \<Rightarrow> out1 @ out2 @ opt_list cur2))"

lemma append_opt_all: "append_opt e r f = append_all e (opt_list r) f"
  by (cases r) (simp_all add: append_opt_def append_all_def)

lemma append_all_simps [simp]: "append_all e [] f = f" "append_all e (xs @ ys) f = append_all e ys (append_all e xs f)"
  by (simp_all add: append_all_def)

text \<open>The iterator at the record with the given index, and the records it still has to give.\<close>

definition it_at :: "stats_file \<Rightarrow> nat \<Rightarrow> nat" where
  "it_at f i = (if i = slots f then slot 0 else slot i)"

definition rest :: "stats_file \<Rightarrow> nat \<Rightarrow> stats_record list" where
  "rest f i = map (\<lambda>i. records f (slot i)) [i..<end_ix f + 1]"

lemma ring_rest: "ring f = rest f 1"
  by (simp add: ring_def rest_def)

lemma rest_step: "i \<le> end_ix f \<Longrightarrow> rest f i = records f (slot i) # rest f (i + 1)" "end_ix f < i \<Longrightarrow> rest f i = []"
  by (simp_all add: rest_def upt_conv_Cons del: upt_Suc)

lemma iterators:
  assumes "stats_wf f"
  shows "get_iterator_begin f = it_at f 1" "get_iterator_end f = it_at f (end_ix f + 1)"
  using assms get_next_slot[OF assms, of 0] get_next_slot[OF assms, of "end_ix f"]
  by (auto simp: get_iterator_begin_def get_iterator_end_def it_at_def stats_wf_def)

lemma get_next_record_at:
  assumes "stats_wf f" "1 \<le> i" "i \<le> end_ix f + 1"
  shows "get_next_record f (it_at f (end_ix f + 1)) (it_at f i) =
    (if i \<le> end_ix f then Some (records f (slot i), it_at f (i + 1)) else None)"
proof -
  have e: "end_ix f < slots f" using assms(1) by (simp add: stats_wf_def)
  then have "i \<le> end_ix f \<Longrightarrow> it_at f i = slot i \<and> get_next f (slot i) = it_at f (i + 1)"
    using get_next_slot[OF assms(1), of i] by (simp add: it_at_def)
  moreover have "i \<le> end_ix f \<Longrightarrow> it_at f i \<noteq> it_at f (end_ix f + 1)"
    using e assms(2) by (simp add: it_at_def del: slot_simps(6))
  moreover have "\<not> i \<le> end_ix f \<Longrightarrow> i = end_ix f + 1" using assms(3) by simp
  ultimately show ?thesis by (simp add: get_next_record_def)
qed

lemma process_loop_list:
  assumes "stats_wf f" "1 \<le> i" "i \<le> end_ix f + 1"
  shows "process_loop e off f (it_at f (end_ix f + 1)) home roaming cur
      (get_next_record f (it_at f (end_ix f + 1)) (it_at f i)) temp =
    (case process_list e off home roaming cur (rest f i) of (c, out) \<Rightarrow> Some (c, append_all e out temp))"
  using assms
proof (induction "end_ix f + 1 - i" arbitrary: i home roaming cur temp)
  case 0
  then have "i = end_ix f + 1" by simp
  then show ?case
    using get_next_record_at[OF assms(1), of "end_ix f + 1"] by (simp add: rest_step process_loop.simps)
next
  case (Suc n)
  then have i: "i \<le> end_ix f" by simp
  have n: "get_next_record f (it_at f (end_ix f + 1)) (it_at f i) = Some (records f (slot i), it_at f (i + 1))"
    using get_next_record_at[OF assms(1)] Suc i by simp
  have IH: "process_loop e off f (it_at f (end_ix f + 1)) home roaming cur
      (get_next_record f (it_at f (end_ix f + 1)) (it_at f (i + 1))) temp =
    (case process_list e off home roaming cur (rest f (i + 1)) of (c, out) \<Rightarrow> Some (c, append_all e out temp))" for home roaming cur temp
    using Suc i by (intro Suc.hyps) simp_all
  show ?case
    by (simp only: n process_loop.simps[of e off f _ home roaming cur "Some _"] option.case prod.case Let_def IH rest_step(1)[OF i]
          process_list.simps append_opt_all)
       (simp add: append_all_def split: prod.splits)
qed

lemma process_file_list:
  assumes "stats_wf f" "1 \<le> i" "i \<le> end_ix f + 1"
  shows "process_file e off f (it_at f (end_ix f + 1)) (it_at f i) temp cur =
    (case process_records e off cur (rest f i) of (c, out) \<Rightarrow> Some (c, append_all e out temp))"
proof (cases cur)
  case (Some c)
  then show ?thesis
    by (simp add: process_file_def process_loop_list[OF assms, simplified] process_records_def split: prod.splits)
next
  case None
  show ?thesis
  proof (cases "i \<le> end_ix f")
    case True
    then show ?thesis
      using None process_loop_list[OF assms(1), of "i + 1"] get_next_record_at[OF assms]
      by (simp add: process_file_def process_records_def rest_step(1) split: prod.splits)
  next
    case False
    then show ?thesis
      using None get_next_record_at[OF assms] by (simp add: process_file_def process_records_def rest_step(2))
  qed
qed

lemma skip_old_list:
  assumes "stats_wf f" "1 \<le> i" "i \<le> end_ix f + 1"
  shows "\<exists>j. skip_old f (it_at f (end_ix f + 1)) c (get_next_record f (it_at f (end_ix f + 1)) (it_at f i)) (it_at f i) = Some (it_at f j) \<and>
    1 \<le> j \<and> j \<le> end_ix f + 1 \<and> rest f j = tl (dropWhile (\<lambda>r. rec_ts r < rec_ts c) (rest f i))"
  using assms
proof (induction "end_ix f + 1 - i" arbitrary: i)
  case 0
  then have "i = end_ix f + 1" by simp
  then show ?case
    using get_next_record_at[OF assms(1), of "end_ix f + 1"] by (auto simp: rest_step skip_old.simps)
next
  case (Suc n)
  then have i: "i \<le> end_ix f" by simp
  have n: "get_next_record f (it_at f (end_ix f + 1)) (it_at f i) = Some (records f (slot i), it_at f (i + 1))"
    using get_next_record_at[OF assms(1)] Suc i by simp
  show ?case
  proof (cases "rec_ts (records f (slot i)) < rec_ts c")
    case True
    then show ?thesis
      using Suc.hyps(1)[of "i + 1"] Suc i unfolding n by (subst skip_old.simps) (simp add: rest_step(1))
  next
    case False
    then show ?thesis
      using Suc i unfolding n by (subst skip_old.simps) (auto simp: rest_step(1))
  qed
qed

lemma summarize_list:
  assumes "stats_wf d" "stats_wf h"
  shows "summarize e off d h t = Some (append_all e (summary e off (ring h) (ring d)) t)"
proof -
  obtain cur out1 where o1: "process_records e off None (rest h 1) = (cur, out1)" by force
  let ?ds = "case cur of None \<Rightarrow> rest d 1 | Some c \<Rightarrow> tl (dropWhile (\<lambda>r. rec_ts r < rec_ts c) (rest d 1))"
  have "\<exists>j. (case cur of None \<Rightarrow> Some (it_at d 1)
      | Some c \<Rightarrow> skip_old d (it_at d (end_ix d + 1)) c (get_next_record d (it_at d (end_ix d + 1)) (it_at d 1)) (it_at d 1)) = Some (it_at d j) \<and>
    1 \<le> j \<and> j \<le> end_ix d + 1 \<and> rest d j = ?ds"
    using skip_old_list[OF assms(1), of 1] by (cases cur) auto
  then obtain j where j: "(case cur of None \<Rightarrow> Some (it_at d 1)
      | Some c \<Rightarrow> skip_old d (it_at d (end_ix d + 1)) c (get_next_record d (it_at d (end_ix d + 1)) (it_at d 1)) (it_at d 1)) = Some (it_at d j)"
    "1 \<le> j" "j \<le> end_ix d + 1" "rest d j = ?ds" by blast
  obtain cur2 out2 where o2: "process_records e off cur ?ds = (cur2, out2)" by force
  have p1: "process_file e off h (it_at h (end_ix h + 1)) (it_at h 1) t None = Some (cur, append_all e out1 t)"
    using process_file_list[OF assms(2), of 1] o1 by simp
  have p2: "process_file e off d (it_at d (end_ix d + 1)) (it_at d j) u cur = Some (cur2, append_all e out2 u)" for u
    using process_file_list[OF assms(1) j(2,3)] j(4) o2 by simp
  have "summarize e off d h t = Some (append_all e (out1 @ out2 @ opt_list cur2) t)"
    by (simp only: summarize_def iterators[OF assms(1)] iterators[OF assms(2)] p1 p2 j(1) Let_def bind.bind_lunit prod.case)
       (simp add: append_opt_all)
  then show ?thesis using o1 o2 by (simp only: summary_def ring_rest prod.case)
qed

text \<open>What a summary holds comes from the history and the data, and no more of it.\<close>

lemma process_list_bound:
  "process_list e off home roaming cur rs = (c, out) \<Longrightarrow>
     set out \<subseteq> set (opt_list home) \<union> set (opt_list roaming) \<union> {cur} \<union> set rs \<and> c \<in> {cur} \<union> set rs \<and>
     length out \<le> length (opt_list home) + length (opt_list roaming) + length rs"
proof (induction e off home roaming cur rs arbitrary: c out rule: process_list.induct)
  case (2 e off home roaming cur nxt rs)
  let ?r = "if rec_roaming cur then Some cur else roaming" and ?h = "if rec_roaming cur then home else Some cur"
  have b: "length (opt_list ?h) + length (opt_list ?r) \<le> length (opt_list home) + length (opt_list roaming) + 1"
    "set (opt_list ?h) \<union> set (opt_list ?r) \<subseteq> set (opt_list home) \<union> set (opt_list roaming) \<union> {cur}"
    by auto
  show ?case
  proof (cases "period_ends e off cur nxt")
    case True
    then obtain o1 where o: "process_list e off None None nxt rs = (c, o1)" "out = opt_list ?h @ opt_list ?r @ o1"
      using "2.prems" by (auto simp: Let_def map_prod_def split: prod.splits if_splits)
    show ?thesis using "2.IH"(1)[OF refl refl True o(1)] b o(2) by auto
  next
    case False
    then have "process_list e off ?h ?r nxt rs = (c, out)" using "2.prems" by (simp add: Let_def)
    from "2.IH"(2)[OF refl refl False this] show ?thesis using b by auto
  qed
qed simp

lemma process_records_bound:
  "process_records e off cur rs = (c, out) \<Longrightarrow>
     set out \<union> set (opt_list c) \<subseteq> set (opt_list cur) \<union> set rs \<and>
     length out + length (opt_list c) \<le> length (opt_list cur) + length rs"
  by (cases "opt_list cur @ rs"; cases cur; cases rs)
     (auto simp: process_records_def map_prod_def simp del: process_list.simps dest!: process_list_bound split: prod.splits)

lemma tl_dropWhile_bound: "set (tl (dropWhile P xs)) \<subseteq> set xs \<and> length (tl (dropWhile P xs)) \<le> length xs"
  by (induction xs) auto

lemma summary_bound: "set (summary e off hs ds) \<subseteq> set hs \<union> set ds \<and> length (summary e off hs ds) \<le> length hs + length ds"
proof -
  obtain cur out1 where o1: "process_records e off None hs = (cur, out1)" by force
  let ?ds = "case cur of None \<Rightarrow> ds | Some c \<Rightarrow> tl (dropWhile (\<lambda>r. rec_ts r < rec_ts c) ds)"
  obtain cur2 out2 where o2: "process_records e off cur ?ds = (cur2, out2)" by force
  have d: "set ?ds \<subseteq> set ds \<and> length ?ds \<le> length ds" using tl_dropWhile_bound by (cases cur) auto
  show ?thesis
    using process_records_bound[OF o1] process_records_bound[OF o2] d o1 o2 by (auto simp: summary_def)
qed

section \<open>Setting up and updating files\<close>

text \<open>A file on disk: one that was mapped before or one without a header.\<close>

definition file_ok :: "stats_env \<Rightarrow> stats_file \<Rightarrow> bool" where
  "file_ok e f \<longleftrightarrow> mapped e f \<or> (hdr_magic f \<noteq> MAGIC \<and> file_len f \<le> page e)"

definition contents :: "stats_file \<Rightarrow> stats_record list" where
  "contents f = (if hdr_magic f = MAGIC then ring f else [])"

lemma file_ok_empty [simp]: "file_ok e stats_file_empty" "contents stats_file_empty = []"
  by (simp_all add: file_ok_def stats_file_empty_def contents_def)

lemma mapped_contents: "mapped e f \<Longrightarrow> contents f = ring f"
  by (simp add: contents_def mapped_def stats_wf_def)

lemma page_slots: "page_ok e \<Longrightarrow> 4 \<le> (page e - HDR_SIZE) div REC_SIZE"
proof -
  assume "page_ok e"
  then have "4 * REC_SIZE \<le> page e - HDR_SIZE" using page_cases[of e] by auto
  then show ?thesis by (simp add: less_eq_div_iff_mult_less_eq)
qed

lemma setup_ok:
  assumes "page_ok e" "map_ok e" "file_ok e f"
  shows "\<exists>g. stats_file_setup e f = (Inr (), g) \<and> mapped e g \<and> ring g = contents f \<and> file_len g \<le> max (page e) (file_len f)"
proof (cases "mapped e f")
  case True
  let ?g = "stats_file_update_cache (f\<lparr>max_len := stats_max_len e\<rparr>)"
  have wf: "stats_wf f" and d: "page e dvd file_len f" and l: "file_len f < 2 ^ 32"
    using True by (auto simp: mapped_def stats_wf_def)
  have "0 < file_len f" using slot_in_file[of 0 f] wf by (simp add: stats_wf_def)
  then have p: "page e \<le> file_len f" using d by (simp add: dvd_imp_le)
  have r: "unat ((word_of_nat (file_len f) + page_size e - 1) AND NOT (page_size e - 1)) = file_len f"
    using l page_cases[OF assms(1)] by (intro round_to_page[OF assms(1) d]) auto
  have wf': "stats_wf (f\<lparr>max_len := stats_max_len e\<rparr>)" "ring (f\<lparr>max_len := stats_max_len e\<rparr>) = ring f"
    using wf by (simp_all add: stats_wf_def slots_def end_ix_def ring_def)
  have "\<not> hdr_invalid ?g"
    using wf l slot_in_file[of "end_ix f" f] slot_in_file[of 0 f] by (auto simp: hdr_invalid_def stats_wf_def slot_def)
  then have "stats_file_setup e f = (Inr (), ?g)"
    using assms(2) p r by (simp add: stats_file_setup_def stats_file_remap_def map_ok_def Let_def not_less)
  then show ?thesis
    using cache_wf[OF wf'(1)] wf' d mapped_contents[OF True] by (simp add: mapped_def)
next
  case False
  then have m: "hdr_magic f \<noteq> MAGIC" "file_len f \<le> page e" using assms(3) by (auto simp: file_ok_def)
  let ?f = "f\<lparr>max_len := stats_max_len e, file_len := page e\<rparr>"
  let ?h = "stats_file_update_cache ?f\<lparr>hdr_magic := MAGIC, hdr_begin := HDR_SIZE, hdr_end := HDR_SIZE, hdr_home := UINT_MAX, hdr_roaming := UINT_MAX\<rparr>"
  have pc: "page e \<le> 2 ^ 24" using page_cases[OF assms(1)] by auto
  then have r: "unat ((word_of_nat (page e) + page_size e - 1) AND NOT (page_size e - 1)) = page e"
    by (intro round_to_page[OF assms(1)]) auto
  have "hdr_invalid (stats_file_update_cache ?f)" using m by (simp add: hdr_invalid_def)
  then have "stats_file_setup e f = (Inr (), stats_file_update_cache ?h)"
    using assms(2) m r by (cases "file_len f = page e") (simp_all add: stats_file_setup_def stats_file_remap_def map_ok_def Let_def)
  moreover have "stats_wf (stats_file_update_cache ?h)" "end_ix ?h = 0"
    using page_slots[OF assms(1)] pc cache_last[of ?h] by (auto simp: stats_wf_def slots_def end_ix_def)
  ultimately show ?thesis
    using m by (simp add: mapped_def contents_def ring_def)
qed

lemma setup_failed: "\<not> map_ok e \<Longrightarrow> \<exists>g. stats_file_setup e f = (Inl EIO, g) \<and> (file_ok e f \<longrightarrow> file_ok e g)"
  by (auto simp: map_ok_def stats_file_setup_def remap_keeps Let_def file_ok_def mapped_def stats_wf_def slots_def end_ix_def)

lemma append_all_keeps:
  "page_ok e \<Longrightarrow> mapped e f \<Longrightarrow> file_len f + length rs * page e < 2 ^ 32 \<Longrightarrow> mapped e (append_all e rs f)"
proof (induction rs arbitrary: f)
  case (Cons r rs)
  have "mapped e (snd (append_record e r f)) \<and> file_len (snd (append_record e r f)) \<le> file_len f + page e"
    using Cons.prems by (intro append_keeps) auto
  then show ?case using Cons.prems Cons.IH[of "snd (append_record e r f)"] by (simp add: append_all_def)
qed simp

lemma append_all_ring:
  "page_ok e \<Longrightarrow> map_ok e \<Longrightarrow> mapped e f \<Longrightarrow> file_len f + length rs * page e < 2 ^ 32 \<Longrightarrow> ring (append_all e rs f) = ring f @ rs"
proof (induction rs arbitrary: f)
  case (Cons r rs)
  obtain g where g: "append_record e r f = (Inr (), g)" "mapped e g" "ring g = ring f @ [r]" "file_len g \<le> file_len f + page e"
    using append_ok[OF Cons.prems(1,2,3), of r] Cons.prems(4) by auto
  have "append_all e (r # rs) f = append_all e rs g" by (simp add: append_all_def g(1))
  moreover have "ring (append_all e rs g) = ring g @ rs" using Cons.prems g(2,4) by (intro Cons.IH) auto
  ultimately show ?case using g(3) by simp
qed simp

definition hist_fits :: "stats_env \<Rightarrow> stats_file \<Rightarrow> stats_file \<Rightarrow> bool" where
  "hist_fits e d h \<longleftrightarrow> (length (ring d) + length (contents h) + 1) * page e < 2 ^ 32"

lemma history_update_ok:
  assumes "page_ok e" "map_ok e" "open_history_ok e" "open_temp_ok e" "mapped e d" "file_ok e h" "hist_fits e d h"
  shows "\<exists>g. stats_file_history_update e off d h = Some (if link_ok e then (Inr (), g) else (Inl EIO, stats_file_empty)) \<and>
    mapped e g \<and> ring g = summary e off (contents h) (ring d)"
proof -
  obtain h1 where h1: "stats_file_setup e h = (Inr (), h1)" "mapped e h1" "ring h1 = contents h"
    using setup_ok[OF assms(1,2,6)] by auto
  obtain t where t: "stats_file_setup e stats_file_empty = (Inr (), t)" "mapped e t" "ring t = []" "file_len t \<le> page e"
    using setup_ok[OF assms(1,2), of stats_file_empty] by (auto simp: stats_file_empty_def file_ok_def contents_def)
  let ?s = "summary e off (contents h) (ring d)"
  have "file_len t + length ?s * page e \<le> (length (ring d) + length (contents h) + 1) * page e"
    using t(4) mult_le_mono1[OF conjunct2[OF summary_bound[of e off "contents h" "ring d"]], of "page e"] by (simp add: algebra_simps)
  then have f: "file_len t + length ?s * page e < 2 ^ 32" using assms(7) by (simp add: hist_fits_def)
  have "summarize e off d h1 t = Some (append_all e ?s t)"
    using summarize_list[of d h1] assms(5) h1(2,3) by (simp add: mapped_def)
  then show ?thesis
    using append_all_keeps[OF assms(1) t(2) f] append_all_ring[OF assms(1,2) t(2) f] assms(3,4) h1(1) t(1,3)
    by (intro exI[of _ "append_all e ?s t"]) (simp add: stats_file_history_update_def stats_file_close_swap_def)
qed

lemma history_update_keeps:
  assumes "page_ok e" "mapped e d" "file_ok e h" "hist_fits e d h" "stats_file_history_update e off d h = Some (r, g)"
  shows "file_ok e g"
proof (cases "open_history_ok e \<and> open_temp_ok e \<and> map_ok e")
  case True
  then obtain g1 where "stats_file_history_update e off d h = Some (if link_ok e then (Inr (), g1) else (Inl EIO, stats_file_empty))"
      "mapped e g1"
    using history_update_ok[OF assms(1) _ _ _ assms(2-4), of off] by auto
  then show ?thesis using assms(5) by (auto simp: file_ok_def split: if_splits) (simp add: stats_file_empty_def)+
next
  case False
  have "open_history_ok e \<Longrightarrow> stats_file_history_update e off d h = None"
  proof -
    assume o: "open_history_ok e"
    show ?thesis
    proof (cases "map_ok e")
      case True
      then show ?thesis
        using setup_ok[OF assms(1) _ assms(3)] False o by (auto simp: stats_file_history_update_def)
    next
      case False
      then show ?thesis
        using setup_failed[of e h] o by (auto simp: stats_file_history_update_def)
    qed
  qed
  then show ?thesis using assms(3,5) by (cases "open_history_ok e") (simp_all add: stats_file_history_update_def)
qed

section \<open>The services\<close>

definition new_record :: "stats_env \<Rightarrow> bool \<Rightarrow> stats_data \<Rightarrow> stats_record" where
  "new_record e roaming d = \<lparr>rec_ts = time_now e, rec_roaming = roaming, rec_data = d\<rparr>"

lemma store_record_slot:
  assumes "stats_wf f" "i < slots f"
  shows "stats_wf (store_record e roaming d (slot i) f) \<and> end_ix (store_record e roaming d (slot i) f) = i \<and>
    records (store_record e roaming d (slot i) f) = (records f)(slot i := new_record e roaming d) \<and>
    file_len (store_record e roaming d (slot i) f) = file_len f \<and> max_len (store_record e roaming d (slot i) f) = max_len f \<and>
    (if roaming then hdr_roaming else hdr_home) (store_record e roaming d (slot i) f) = slot i"
proof -
  have l: "file_len f < 2 ^ 32" using assms(1) by (simp add: stats_wf_def)
  let ?f1 = "f\<lparr>records := (records f)(slot i := new_record e roaming d)\<rparr>"
  have "store_record e roaming d (slot i) f = (if roaming then ?f1\<lparr>hdr_roaming := slot i, hdr_end := slot i\<rparr> else ?f1\<lparr>hdr_home := slot i, hdr_end := slot i\<rparr>)"
    using assms(2) l set_slot[of i ?f1] set_slot(1)[of i "?f1\<lparr>hdr_roaming := slot i\<rparr>"] set_slot(1)[of i "?f1\<lparr>hdr_home := slot i\<rparr>"]
    by (cases roaming) (simp_all add: store_record_def new_record_def Let_def)
  then show ?thesis using assms stats_wf_upd[of ?f1] stats_wf_upd(1)[OF assms(1)]
      stats_wf_upd(2)[of "?f1\<lparr>hdr_roaming := slot i\<rparr>" i] stats_wf_upd(2)[of "?f1\<lparr>hdr_home := slot i\<rparr>" i] by auto
qed

lemma next_of_end: "stats_wf f \<Longrightarrow> get_next f (hdr_end f) = slot (if end_ix f + 1 = slots f then 0 else end_ix f + 1)"
  using get_next_slot[of f "end_ix f"] by (simp add: stats_wf_def)

text \<open>The room for a record: a free slot, or a file that may still grow.\<close>

definition has_room :: "stats_file \<Rightarrow> bool" where
  "has_room f \<longleftrightarrow> end_ix f + 1 < slots f \<or> file_len f < max_len f"

lemma grow_if_needed:
  assumes "page_ok e" "map_ok e" "mapped e f" "file_len f + page e < 2 ^ 32"
  shows "\<exists>g. (if file_len f < max_len f \<and> last_rec f = hdr_end f then stats_file_remap e (file_len f + page e) f else (Inr (), f)) = (Inr (), g) \<and>
    mapped e g \<and> ring g = ring f \<and> max_len g = max_len f \<and> (if has_room f then end_ix g + 1 < slots g else g = f \<and> end_ix g + 1 = slots g)"
proof (cases "file_len f < max_len f \<and> last_rec f = hdr_end f")
  case True
  then have "end_ix f + 1 = slots f" using assms(3) by (simp add: mapped_def last_is_end)
  then show ?thesis using True remap_grow[OF assms] by (auto simp: has_room_def)
next
  case False
  then have "if has_room f then end_ix f + 1 < slots f else end_ix f + 1 = slots f"
    using assms(3) last_is_end[of f] by (auto simp: has_room_def mapped_def stats_wf_def)
  then show ?thesis using False assms(3) by (cases "has_room f") auto
qed

lemma update_with_room:
  assumes "page_ok e" "map_ok e" "h service = Some st" "mapped e (data_file st)" "file_len (data_file st) + page e < 2 ^ 32" "has_room (data_file st)"
  shows "\<exists>g. stats_update e service roaming d h = Some (Inr (), h(service \<mapsto> st\<lparr>data_file := g\<rparr>)) \<and> mapped e g \<and>
    ring g = ring (data_file st) @ [new_record e roaming d] \<and> (if roaming then hdr_roaming g else hdr_home g) = hdr_end g"
proof -
  let ?f = "data_file st"
  obtain f1 where f1: "(if file_len ?f < max_len ?f \<and> last_rec ?f = hdr_end ?f then stats_file_remap e (file_len ?f + page e) ?f else (Inr (), ?f)) = (Inr (), f1)"
      "stats_wf f1" "page e dvd file_len f1" "ring f1 = ring ?f" "end_ix f1 + 1 < slots f1"
    using grow_if_needed[OF assms(1,2,4,5)] assms(6) by (auto simp: mapped_def)
  have n: "get_next f1 (hdr_end f1) = slot (end_ix f1 + 1)" using next_of_end[OF f1(2)] f1(5) by simp
  have b: "slot (end_ix f1 + 1) \<noteq> hdr_begin f1" using f1(2) by (simp add: stats_wf_def del: slot_simps(6))
  let ?g = "store_record e roaming d (slot (end_ix f1 + 1)) f1"
  note s = store_record_slot[OF f1(2,5), of e roaming d]
  have "stats_update e service roaming d h = Some (Inr (), h(service \<mapsto> st\<lparr>data_file := ?g\<rparr>))"
    using assms(3) b by (simp only: stats_update_def option.case Let_def f1(1) prod.case sum.case n if_False) simp
  moreover have "ring ?g = ring ?f @ [new_record e roaming d]" using ring_push[of ?g f1] s f1(4) by simp
  moreover have "(if roaming then hdr_roaming ?g else hdr_home ?g) = hdr_end ?g" using s by (simp add: stats_wf_def split: if_splits)
  ultimately show ?thesis using s f1(3) by (intro exI[of _ ?g]) (simp add: mapped_def)
qed

lemma update_when_full:
  assumes "page_ok e" "map_ok e" "h service = Some st" "mapped e (data_file st)" "file_len (data_file st) + page e < 2 ^ 32" "\<not> has_room (data_file st)"
    and "stats_file_history_update e (period_offset st) (data_file st) (history_file st) = Some (r, hist)"
  shows "\<exists>g. stats_update e service roaming d h = Some (Inr (), h(service \<mapsto> st\<lparr>data_file := g, history_file := hist\<rparr>)) \<and> mapped e g \<and> ring g = []"
proof -
  let ?f = "data_file st"
  have f1: "(if file_len ?f < max_len ?f \<and> last_rec ?f = hdr_end ?f then stats_file_remap e (file_len ?f + page e) ?f else (Inr (), ?f)) = (Inr (), ?f)"
      "stats_wf ?f" "page e dvd file_len ?f" "end_ix ?f + 1 = slots ?f"
    using grow_if_needed[OF assms(1,2,4,5)] assms(4,6) by (auto simp: mapped_def)
  have n: "get_next ?f (hdr_end ?f) = slot 0" using next_of_end[OF f1(2)] f1(4) by simp
  have b: "slot 0 = hdr_begin ?f" "0 < slots ?f" using f1(2) by (simp_all add: stats_wf_def)
  let ?g = "store_record e roaming d (slot 0) ?f"
  note s = store_record_slot[OF f1(2) b(2), of e roaming d]
  have "stats_update e service roaming d h = Some (Inr (), h(service \<mapsto> st\<lparr>data_file := ?g, history_file := hist\<rparr>))"
    using assms(3,7) b(1) by (simp only: stats_update_def option.case Let_def f1(1) prod.case sum.case n if_True) simp
  then show ?thesis using s f1(3) by (intro exI[of _ ?g]) (simp add: mapped_def ring_def)
qed

text \<open>The state of the services over the calls of the daemon, with the files an earlier run may have left.\<close>

definition update_fits :: "stats_env \<Rightarrow> ptr \<Rightarrow> stats_hash \<Rightarrow> bool" where
  "update_fits e service h =
     (case h service of
        None \<Rightarrow> True
      | Some st \<Rightarrow> file_len (data_file st) + page e < 2 ^ 32 \<and> hist_fits e (data_file st) (history_file st))"

inductive stats_reach :: "64 word \<Rightarrow> stats_hash \<Rightarrow> bool" for pg where
  init: "stats_reach pg (\<lambda>_. None)"
| register: "stats_reach pg h \<Longrightarrow> page_size e = pg \<Longrightarrow> file_ok e (fst disk) \<Longrightarrow> file_ok e (snd disk) \<Longrightarrow>
    stats_reach pg (snd (stats_service_register e dir_ok mem_ok open_ok disk service h))"
| unregister: "stats_reach pg h \<Longrightarrow> stats_reach pg (stats_service_unregister service h)"
| update: "stats_reach pg h \<Longrightarrow> page_size e = pg \<Longrightarrow> update_fits e service h \<Longrightarrow>
    stats_update e service roaming d h = Some (r, h') \<Longrightarrow> stats_reach pg h'"

definition hash_ok :: "stats_env \<Rightarrow> stats_hash \<Rightarrow> bool" where
  "hash_ok e h \<longleftrightarrow> (\<forall>service st. h service = Some st \<longrightarrow> mapped e (data_file st) \<and> file_ok e (history_file st))"

lemma hash_ok_upd:
  "hash_ok e h \<Longrightarrow> hash_ok e (h(service := None))"
  "hash_ok e h \<Longrightarrow> mapped e (data_file st) \<Longrightarrow> file_ok e (history_file st) \<Longrightarrow> hash_ok e (h(service \<mapsto> st))"
  by (auto simp: hash_ok_def)

lemma hash_ok_cong: "page_size e = page_size e' \<Longrightarrow> hash_ok e h = hash_ok e' h \<and> page_ok e = page_ok e'"
  by (simp add: hash_ok_def mapped_def file_ok_def page_ok_def)

lemma hash_ok_register:
  assumes "page_ok e" "hash_ok e h" "file_ok e (fst disk)" "file_ok e (snd disk)"
  shows "hash_ok e (snd (stats_service_register e dir_ok mem_ok open_ok disk service h))"
proof (cases "map_ok e")
  case True
  then show ?thesis
    using setup_ok[OF assms(1) _ assms(3)] assms by (auto simp: stats_service_register_def intro!: hash_ok_upd)
next
  case False
  then show ?thesis
    using setup_failed[of e "fst disk"] assms(2) by (auto simp: stats_service_register_def intro!: hash_ok_upd)
qed

text \<open>An update that fails to grow the file changes nothing.\<close>

lemma update_failed:
  "h service = Some st \<Longrightarrow> file_len (data_file st) < max_len (data_file st) \<Longrightarrow> last_rec (data_file st) = hdr_end (data_file st) \<Longrightarrow>
   \<not> (ftruncate_ok e \<and> mmap_ok e) \<Longrightarrow> stats_update e service roaming d h = Some (Inl EIO, h(service \<mapsto> st\<lparr>data_file := data_file st\<rparr>))"
  by (simp add: stats_update_def remap_keeps)

lemma hash_ok_update:
  assumes "page_ok e" "hash_ok e h" "update_fits e service h" "stats_update e service roaming d h = Some (r, h')"
  shows "hash_ok e h'"
proof (cases "h service")
  case None
  then show ?thesis using assms(2,4) by (simp add: stats_update_def)
next
  case (Some st)
  let ?f = "data_file st" and ?u = "e\<lparr>ftruncate_ok := True, mmap_ok := True, fstat_ok := True\<rparr>"
  have m: "mapped e ?f" "file_ok e (history_file st)" using assms(2) Some by (auto simp: hash_ok_def)
  have fit: "file_len ?f + page e < 2 ^ 32" "hist_fits e ?f (history_file st)" using assms(3) Some by (auto simp: update_fits_def)
  show ?thesis
  proof (cases "file_len ?f < max_len ?f \<and> last_rec ?f = hdr_end ?f \<and> \<not> (ftruncate_ok e \<and> mmap_ok e)")
    case True
    then show ?thesis using update_failed[of h service st e roaming d, OF Some] assms(2,4) Some by (simp add: fun_upd_idem)
  next
    case False
    obtain f1 where f1: "(if file_len ?f < max_len ?f \<and> last_rec ?f = hdr_end ?f then stats_file_remap e (file_len ?f + page e) ?f else (Inr (), ?f)) = (Inr (), f1)"
      "mapped e f1" "ring f1 = ring ?f"
      using grow_if_needed[of ?u ?f] False m(1) fit(1) assms(1)
      by (auto simp: page_ok_def map_ok_def mapped_def stats_file_remap_def split: if_splits)
    have wf: "stats_wf f1" and fit1: "hist_fits e f1 (history_file st)" using f1 fit(2) by (simp_all add: mapped_def hist_fits_def)
    have "(if end_ix f1 + 1 = slots f1 then 0 else end_ix f1 + 1) < slots f1" using wf by (simp add: stats_wf_def)
    then obtain i where i: "i < slots f1" "get_next f1 (hdr_end f1) = slot i" using next_of_end[OF wf] by blast
    have g: "mapped e (store_record e roaming d (slot i) f1)"
      using store_record_slot[OF wf i(1), of e roaming d] f1(2) by (simp add: mapped_def)
    let ?st = "\<lambda>hist. st\<lparr>data_file := store_record e roaming d (slot i) f1, history_file := hist\<rparr>"
    have "(if slot i = hdr_begin f1 then map_option snd (stats_file_history_update e (period_offset st) f1 (history_file st))
        else Some (history_file st)) \<bind> (\<lambda>hist. Some (Inr (), h(service \<mapsto> ?st hist))) = Some (r, h')"
      using assms(4) Some by (simp only: stats_update_def option.case Let_def f1(1) prod.case sum.case i(2))
    then obtain hist where hist: "(if slot i = hdr_begin f1 then map_option snd (stats_file_history_update e (period_offset st) f1 (history_file st))
        else Some (history_file st)) = Some hist" and h': "h' = h(service \<mapsto> ?st hist)"
      unfolding bind_eq_Some_conv by blast
    have "file_ok e hist"
      using hist m(2) history_update_keeps[OF assms(1) f1(2) m(2) fit1, of "period_offset st"] by (auto split: if_splits)
    then show ?thesis using assms(2) g h' by (simp add: hash_ok_upd)
  qed
qed

lemma stats_reach_ok: "stats_reach pg h \<Longrightarrow> page_ok e \<Longrightarrow> page_size e = pg \<Longrightarrow> hash_ok e h"
proof (induction rule: stats_reach.induct)
  case init
  then show ?case by (simp add: hash_ok_def)
next
  case (register h e' disk dir_ok mem_ok open_ok service)
  have c: "page_size e = page_size e'" using register.prems(2) register.hyps(2) by simp
  show ?case
    using hash_ok_register[of e' h disk] register.IH[OF register.prems] register.prems(1) register.hyps(3,4) hash_ok_cong[OF c] by blast
next
  case (unregister h service)
  then show ?case using hash_ok_upd(1)[of e h service] by (simp only: stats_service_unregister_def)
next
  case (update h e' service roaming d r h')
  have c: "page_size e = page_size e'" using update.prems(2) update.hyps(2) by simp
  show ?case
    using hash_ok_update[OF _ _ update.hyps(3,4)] update.IH[OF update.prems] update.prems(1) hash_ok_cong[OF c] by blast
qed

lemma process_list_last: "fst (process_list e off home roaming cur rs) = last (cur # rs)"
  by (induction e off home roaming cur rs rule: process_list.induct) (simp_all add: Let_def)

lemma process_records_last: "fst (process_records e off None rs) = (if rs = [] then None else Some (last rs))"
  using process_list_last by (cases rs) (auto simp: process_records_def simp del: process_list.simps)

lemma summary_ignores_first:
  assumes "hs \<noteq> []" "rec_ts (last hs) \<le> rec_ts d" "rec_ts (last hs) \<le> rec_ts d'"
  shows "summary e off hs (d # ds) = summary e off hs (d' # ds)"
  using assms process_records_last[of e off hs] by (cases "process_records e off None hs") (simp add: summary_def)

section \<open>Properties\<close>

text \<open>
  C13. While there is room, updating the statistics of a service appends the record to its ring
  and makes it the current one of its kind; the history stays as it is.
\<close>
theorem stats_update_appends:
  assumes "page_ok e" "map_ok e" "h service = Some st" "mapped e (data_file st)" "file_len (data_file st) + page e < 2 ^ 32"
    and "has_room (data_file st)"
  shows "\<exists>st'. stats_update e service roaming d h = Some (Inr (), h(service \<mapsto> st')) \<and>
    ring (data_file st') = ring (data_file st) @ [new_record e roaming d] \<and> mapped e (data_file st') \<and>
    (if roaming then hdr_roaming (data_file st') else hdr_home (data_file st')) = hdr_end (data_file st') \<and> history_file st' = history_file st"
proof -
  obtain g where "stats_update e service roaming d h = Some (Inr (), h(service \<mapsto> st\<lparr>data_file := g\<rparr>))" "mapped e g"
    "ring g = ring (data_file st) @ [new_record e roaming d]" "(if roaming then hdr_roaming g else hdr_home g) = hdr_end g"
    using update_with_room[of e h service st roaming d, OF assms] by blast
  then show ?thesis by (intro exI[of _ "st\<lparr>data_file := g\<rparr>"]) (cases roaming, simp_all)
qed

text \<open>
  C30. Updating the statistics of a service whose ring is full writes the summary of its history and
  its ring as the new history and leaves the ring empty: the begin of the ring never moves, so
  the new record lies in the slot that the ring does not count, and neither the ring nor the
  history has it.
\<close>
theorem stats_update_full:
  assumes "page_ok e" "map_ok e" "open_history_ok e" "open_temp_ok e" "link_ok e" "h service = Some st"
    and "mapped e (data_file st)" "file_ok e (history_file st)" "hist_fits e (data_file st) (history_file st)"
    and "file_len (data_file st) + page e < 2 ^ 32" "\<not> has_room (data_file st)"
  shows "\<exists>st'. stats_update e service roaming d h = Some (Inr (), h(service \<mapsto> st')) \<and> ring (data_file st') = [] \<and>
    contents (history_file st') = summary e (period_offset st) (contents (history_file st)) (ring (data_file st)) \<and>
    set (contents (history_file st')) \<subseteq> set (contents (history_file st)) \<union> set (ring (data_file st))"
proof -
  let ?s = "summary e (period_offset st) (contents (history_file st)) (ring (data_file st))"
  obtain hist where u: "stats_file_history_update e (period_offset st) (data_file st) (history_file st) = Some (Inr (), hist)"
      "contents hist = ?s"
    using history_update_ok[OF assms(1-4,7-9), of "period_offset st"] assms(5) by (auto simp: mapped_contents)
  obtain g where g: "stats_update e service roaming d h = Some (Inr (), h(service \<mapsto> st\<lparr>data_file := g, history_file := hist\<rparr>))" "ring g = []"
    using update_when_full[of e h service st _ hist roaming d, OF assms(1,2,6,7,10,11) u(1)] by blast
  then show ?thesis
    using u(2) summary_bound[of e "period_offset st" "contents (history_file st)" "ring (data_file st)"]
    by (intro exI[of _ "st\<lparr>data_file := g, history_file := hist\<rparr>"]) simp
qed

text \<open>
  C11. In every state that registrations, removals and updates reach, the file of a registered
  service is a mapping of whole pages with at least two slots, and all that its header points to
  lies on a slot inside the mapping. The runs are those in which the files found on the disk at a
  registration are new, foreign and of at most one page, or were left by an earlier run of the
  code, in which no file would grow to 4 GiB, and in which every step is defined: calls of the
  system may fail, but a failure to open the temporary file or to map the files of a summary is
  undefined behaviour and ends the run.
\<close>
theorem stats_files_wellformed:
  assumes "stats_reach (page_size e) h" "page_ok e" "h service = Some st"
  shows "stats_wf (data_file st) \<and> page e dvd file_len (data_file st) \<and>
    hdr_end (data_file st) + REC_SIZE \<le> file_len (data_file st) \<and>
    (\<forall>p. get_home (data_file st) = Some p \<longrightarrow> (\<exists>i. p = slot i \<and> p + REC_SIZE \<le> file_len (data_file st))) \<and>
    (\<forall>p. get_roaming (data_file st) = Some p \<longrightarrow> (\<exists>i. p = slot i \<and> p + REC_SIZE \<le> file_len (data_file st)))"
proof -
  have m: "mapped e (data_file st)" using stats_reach_ok[OF assms(1,2) refl] assms(3) by (auto simp: hash_ok_def)
  then have "slot (end_ix (data_file st)) + REC_SIZE \<le> file_len (data_file st)"
    by (intro slot_in_file) (simp add: mapped_def stats_wf_def)
  then show ?thesis
    using m slot_in_file[of _ "data_file st"]
    unfolding mapped_def stats_wf_def get_home_def get_roaming_def by (simp del: slot_simps(2)) metis
qed

text \<open>
  C38. The summary of a data file into a history that is not empty does not depend on the oldest
  record of the data file that is no older than the history: the loop that skips older records
  has consumed it, so what it counted reaches no history.
\<close>
theorem summarize_ignores_first_record:
  assumes "stats_wf data" "stats_wf data'" "stats_wf history" "ring history \<noteq> []"
    and "ring data = r # rs" "ring data' = r' # rs" "rec_ts (last (ring history)) \<le> rec_ts r" "rec_ts (last (ring history)) \<le> rec_ts r'"
  shows "\<exists>t'. summarize e off data history t = Some t' \<and> summarize e off data' history t = Some t'"
  using summarize_list[OF assms(1,3)] summarize_list[OF assms(2,3)] summary_ignores_first[OF assms(4,7,8)] assms(5,6) by simp

text \<open>
  Reading the statistics of a service goes through pointers that only a remapping refreshes: a
  service that had no current record of a kind still has none to read after an update of that
  kind that did not have to grow the file.
\<close>
lemma stats_get_stale:
  assumes "h service = Some st" "stats_wf (data_file st)" "end_ix (data_file st) + 1 < slots (data_file st)"
    and "stats_get service roaming h = Inr None"
  shows "\<exists>h'. stats_update e service roaming d h = Some (Inr (), h') \<and> stats_get service roaming h' = Inr None"
proof -
  let ?f = "data_file st"
  have n: "get_next ?f (hdr_end ?f) = slot (end_ix ?f + 1)" using next_of_end[OF assms(2)] assms(3) by simp
  have b: "slot (end_ix ?f + 1) \<noteq> hdr_begin ?f" using assms(2) by (simp add: stats_wf_def del: slot_simps(6))
  have l: "last_rec ?f \<noteq> hdr_end ?f" using assms(2,3) last_is_end[of ?f] by simp
  have "stats_update e service roaming d h = Some (Inr (), h(service \<mapsto> st\<lparr>data_file := store_record e roaming d (slot (end_ix ?f + 1)) ?f\<rparr>))"
    using assms(1) b l n by (simp add: stats_update_def Let_def)
  then show ?thesis
    using assms(1,4) by (auto simp: stats_get_def store_record_def set_home_def set_roaming_def set_end_def Let_def split: if_splits)
qed

section \<open>Examples\<close>

text \<open>A system with pages of 256 bytes, in which a page has four slots.\<close>

definition demo_env :: stats_env where
  "demo_env = \<lparr>page_size = 256, ftruncate_ok = True, mmap_ok = True, fstat_ok = True, open_history_ok = True, open_temp_ok = True,
     link_ok = True, stats_max_len = 256, time_now = 1000, date_of = (\<lambda>t. t), date_day = (\<lambda>d. nat (d mod 30) + 1),
     date_month = (\<lambda>d. nat (d div 30) mod 12 + 1), date_subtract_months = (\<lambda>d n. d - 30 * int n),
     date_set_day = (\<lambda>d n. d - d mod 30 + int n - 1)\<rparr>"

definition demo_data :: stats_data where
  "demo_data = \<lparr>rx_packets = 1, tx_packets = 2, rx_bytes = 3, tx_bytes = 4, rx_errors = 0, tx_errors = 0, rx_dropped = 0, tx_dropped = 0, stats_time = 9\<rparr>"

definition demo_file :: "nat \<Rightarrow> int \<Rightarrow> stats_file" where
  "demo_file n t = \<lparr>hdr_magic = MAGIC, hdr_begin = 20, hdr_end = 20 + 48 * n, hdr_home = UINT_MAX, hdr_roaming = UINT_MAX,
     records = (\<lambda>p. \<lparr>rec_ts = t + int p, rec_roaming = False, rec_data = demo_data\<rparr>),
     file_len = 256, max_len = 256, first_rec = 20, last_rec = 164, home_rec = None, roaming_rec = None\<rparr>"

definition demo_hash :: "nat \<Rightarrow> stats_hash" where
  "demo_hash n = [7 \<mapsto> \<lparr>data_file = demo_file n 600, history_file = demo_file 1 100, period_offset = 1\<rparr>]"

lemma demo_env_ok: "page_ok demo_env" "map_ok demo_env" "page demo_env = 256"
  "open_history_ok demo_env" "open_temp_ok demo_env" "link_ok demo_env"
  by (simp_all add: page_ok_def map_ok_def demo_env_def exI[of _ 8])

lemma demo_file_wf: "n < 4 \<Longrightarrow> stats_wf (demo_file n t)" "slots (demo_file n t) = 4" "end_ix (demo_file n t) = n"
  by (simp_all add: stats_wf_def slots_def end_ix_def slot_def demo_file_def)

lemma demo_file_mapped: "n < 4 \<Longrightarrow> mapped demo_env (demo_file n t)"
  using demo_file_wf(1)[of n t] by (simp add: mapped_def demo_env_ok) (simp add: demo_file_def)

lemma demo_hash_7: "demo_hash n 7 = Some \<lparr>data_file = demo_file n 600, history_file = demo_file 1 100, period_offset = 1\<rparr>"
  by (simp add: demo_hash_def)

lemma demo_ring: "ring (demo_file n t) = map (\<lambda>i. \<lparr>rec_ts = t + int (20 + 48 * i), rec_roaming = False, rec_data = demo_data\<rparr>) [1..<n + 1]"
  unfolding ring_def demo_file_wf(3) by (simp add: demo_file_def slot_def del: upt_Suc)

lemma demo_fields: "file_len (demo_file n t) = 256" "max_len (demo_file n t) = 256" "hdr_magic (demo_file n t) = MAGIC"
  by (simp_all add: demo_file_def)

lemmas demo_simps = demo_file_mapped has_room_def demo_file_wf demo_env_ok demo_fields

theorem stats_update_appends_witness:
  "\<exists>st'. stats_update demo_env 7 False demo_data (demo_hash 2) = Some (Inr (), (demo_hash 2)(7 \<mapsto> st')) \<and> length (ring (data_file st')) = 3"
  using stats_update_appends[of demo_env "demo_hash 2" 7 _ False demo_data, OF demo_env_ok(1,2) demo_hash_7]
  by (simp add: demo_simps demo_ring) (elim exE conjE, intro exI conjI, assumption, simp)

theorem stats_update_full_witness:
  "\<exists>st'. stats_update demo_env 7 False demo_data (demo_hash 3) = Some (Inr (), (demo_hash 3)(7 \<mapsto> st')) \<and> ring (data_file st') = []"
proof -
  have "hist_fits demo_env (demo_file 3 600) (demo_file 1 100)" "file_ok demo_env (demo_file 1 100)"
    by (simp_all add: hist_fits_def contents_def demo_simps demo_ring file_ok_def)
  then show ?thesis
    using stats_update_full[of demo_env "demo_hash 3" 7 _ False demo_data, OF demo_env_ok(1,2,4-6) demo_hash_7]
    by (simp add: demo_simps) blast
qed

lemma demo_stats_reach: "stats_reach (page_size demo_env) (snd (stats_service_register demo_env True True True (stats_file_empty, stats_file_empty) 7 (\<lambda>_. None)))"
  by (intro stats_reach.register[OF stats_reach.init]) simp_all

theorem stats_files_wellformed_witness:
  "\<exists>st. snd (stats_service_register demo_env True True True (stats_file_empty, stats_file_empty) 7 (\<lambda>_. None)) 7 = Some st \<and> stats_wf (data_file st)"
proof -
  obtain g where "stats_file_setup demo_env stats_file_empty = (Inr (), g)" using setup_ok[OF demo_env_ok(1,2), of stats_file_empty] by auto
  then have s: "snd (stats_service_register demo_env True True True (stats_file_empty, stats_file_empty) 7 (\<lambda>_. None)) 7 =
      Some \<lparr>data_file = g, history_file = stats_file_empty, period_offset = 1\<rparr>"
    by (simp add: stats_service_register_def)
  then show ?thesis using stats_files_wellformed[OF demo_stats_reach demo_env_ok(1) s] by blast
qed

theorem summarize_ignores_first_record_witness:
  "summarize demo_env 1 (demo_file 1 600) (demo_file 1 100) stats_file_empty =
   summarize demo_env 1 (demo_file 1 900) (demo_file 1 100) stats_file_empty"
proof -
  have r: "ring (demo_file 1 t) = [\<lparr>rec_ts = t + 68, rec_roaming = False, rec_data = demo_data\<rparr>]" for t by (simp add: demo_ring)
  show ?thesis
    using summarize_ignores_first_record[of "demo_file 1 600" "demo_file 1 900" "demo_file 1 100" _ "[]" _ demo_env 1 stats_file_empty, OF _ _ _ _ r r]
      demo_file_wf(1)[of 1] by (force simp add: r simp del: One_nat_def)
qed

lemma stats_get_stale_example:
  "\<exists>h'. stats_update demo_env 7 False demo_data (demo_hash 0) = Some (Inr (), h') \<and> stats_get 7 False h' = Inr None"
proof -
  have "stats_get 7 False (demo_hash 0) = Inr None" by (simp add: stats_get_def demo_hash_7 demo_file_def)
  then show ?thesis using stats_get_stale[of "demo_hash 0" 7 _ False demo_env demo_data, OF demo_hash_7] by (simp add: demo_file_wf)
qed

end
