(* ===== verification/Service.thy ===== *)
theory Service
  imports GLibList "HOL-Library.Monad_Syntax"
begin

text \<open>
  The states of a service, their names and the order of the service list, from
  \<open>src/src/service.c\<close>, \<open>src/include/service.h\<close> and \<open>src/src/main.c\<close>. A string that may be
  \<open>NULL\<close> is an option. A service is the part of \<open>struct connman_service\<close> that the comparison of
  two services reads; its provider, if it has one, is the identifier of the service that carries
  it. The sorting of a list is a function of the container library and a parameter.
\<close>

section \<open>Enumerations and their names\<close>

datatype service_type =
  SERVICE_TYPE_UNKNOWN | SERVICE_TYPE_SYSTEM | SERVICE_TYPE_ETHERNET | SERVICE_TYPE_WIFI | SERVICE_TYPE_BLUETOOTH |
  SERVICE_TYPE_CELLULAR | SERVICE_TYPE_GPS | SERVICE_TYPE_VPN | SERVICE_TYPE_GADGET | SERVICE_TYPE_P2P

datatype service_security =
  SERVICE_SECURITY_UNKNOWN | SERVICE_SECURITY_NONE | SERVICE_SECURITY_WEP | SERVICE_SECURITY_PSK | SERVICE_SECURITY_8021X |
  SERVICE_SECURITY_WPA | SERVICE_SECURITY_RSN

datatype service_state =
  SERVICE_STATE_UNKNOWN | SERVICE_STATE_IDLE | SERVICE_STATE_ASSOCIATION | SERVICE_STATE_CONFIGURATION | SERVICE_STATE_READY |
  SERVICE_STATE_ONLINE | SERVICE_STATE_DISCONNECT | SERVICE_STATE_FAILURE

datatype service_error =
  SERVICE_ERROR_UNKNOWN | SERVICE_ERROR_OUT_OF_RANGE | SERVICE_ERROR_PIN_MISSING | SERVICE_ERROR_DHCP_FAILED |
  SERVICE_ERROR_CONNECT_FAILED | SERVICE_ERROR_LOGIN_FAILED | SERVICE_ERROR_AUTH_FAILED | SERVICE_ERROR_INVALID_KEY |
  SERVICE_ERROR_BLOCKED | SERVICE_ERROR_ONLINE_CHECK_FAILED

datatype service_proxy_method =
  SERVICE_PROXY_METHOD_UNKNOWN | SERVICE_PROXY_METHOD_DIRECT | SERVICE_PROXY_METHOD_MANUAL | SERVICE_PROXY_METHOD_AUTO

datatype service_connect_reason =
  SERVICE_CONNECT_REASON_NONE | SERVICE_CONNECT_REASON_AUTO | SERVICE_CONNECT_REASON_USER | SERVICE_CONNECT_REASON_SESSION |
  SERVICE_CONNECT_REASON_NATIVE

fun reason2string :: "service_connect_reason \<Rightarrow> string" where
  "reason2string SERVICE_CONNECT_REASON_NONE = ''none''"
| "reason2string SERVICE_CONNECT_REASON_USER = ''user''"
| "reason2string SERVICE_CONNECT_REASON_AUTO = ''auto''"
| "reason2string SERVICE_CONNECT_REASON_SESSION = ''session''"
| "reason2string SERVICE_CONNECT_REASON_NATIVE = ''native''"

fun type2string :: "service_type \<Rightarrow> string option" where
  "type2string SERVICE_TYPE_UNKNOWN = None"
| "type2string SERVICE_TYPE_SYSTEM = Some ''system''"
| "type2string SERVICE_TYPE_ETHERNET = Some ''ethernet''"
| "type2string SERVICE_TYPE_WIFI = Some ''wifi''"
| "type2string SERVICE_TYPE_BLUETOOTH = Some ''bluetooth''"
| "type2string SERVICE_TYPE_CELLULAR = Some ''cellular''"
| "type2string SERVICE_TYPE_GPS = Some ''gps''"
| "type2string SERVICE_TYPE_VPN = Some ''vpn''"
| "type2string SERVICE_TYPE_GADGET = Some ''gadget''"
| "type2string SERVICE_TYPE_P2P = Some ''p2p''"

definition string2type :: "string option \<Rightarrow> service_type" where
  "string2type str =
     (if str = None then SERVICE_TYPE_UNKNOWN
      else if str = Some ''ethernet'' then SERVICE_TYPE_ETHERNET
      else if str = Some ''gadget'' then SERVICE_TYPE_GADGET
      else if str = Some ''wifi'' then SERVICE_TYPE_WIFI
      else if str = Some ''cellular'' then SERVICE_TYPE_CELLULAR
      else if str = Some ''bluetooth'' then SERVICE_TYPE_BLUETOOTH
      else if str = Some ''vpn'' then SERVICE_TYPE_VPN
      else if str = Some ''gps'' then SERVICE_TYPE_GPS
      else if str = Some ''system'' then SERVICE_TYPE_SYSTEM
      else if str = Some ''p2p'' then SERVICE_TYPE_P2P
      else SERVICE_TYPE_UNKNOWN)"

definition string2security :: "string option \<Rightarrow> service_security" where
  "string2security str =
     (if str = None then SERVICE_SECURITY_UNKNOWN
      else if str = Some ''psk'' then SERVICE_SECURITY_PSK
      else if str = Some ''ieee8021x'' \<or> str = Some ''8021x'' then SERVICE_SECURITY_8021X
      else if str = Some ''none'' \<or> str = Some ''open'' then SERVICE_SECURITY_NONE
      else if str = Some ''wep'' then SERVICE_SECURITY_WEP
      else SERVICE_SECURITY_UNKNOWN)"

fun security2string :: "service_security \<Rightarrow> string option" where
  "security2string SERVICE_SECURITY_UNKNOWN = None"
| "security2string SERVICE_SECURITY_NONE = Some ''none''"
| "security2string SERVICE_SECURITY_WEP = Some ''wep''"
| "security2string SERVICE_SECURITY_PSK = Some ''psk''"
| "security2string SERVICE_SECURITY_WPA = Some ''psk''"
| "security2string SERVICE_SECURITY_RSN = Some ''psk''"
| "security2string SERVICE_SECURITY_8021X = Some ''ieee8021x''"

fun state2string :: "service_state \<Rightarrow> string option" where
  "state2string SERVICE_STATE_UNKNOWN = None"
| "state2string SERVICE_STATE_IDLE = Some ''idle''"
| "state2string SERVICE_STATE_ASSOCIATION = Some ''association''"
| "state2string SERVICE_STATE_CONFIGURATION = Some ''configuration''"
| "state2string SERVICE_STATE_READY = Some ''ready''"
| "state2string SERVICE_STATE_ONLINE = Some ''online''"
| "state2string SERVICE_STATE_DISCONNECT = Some ''disconnect''"
| "state2string SERVICE_STATE_FAILURE = Some ''failure''"

fun error2string :: "service_error \<Rightarrow> string option" where
  "error2string SERVICE_ERROR_UNKNOWN = None"
| "error2string SERVICE_ERROR_OUT_OF_RANGE = Some ''out-of-range''"
| "error2string SERVICE_ERROR_PIN_MISSING = Some ''pin-missing''"
| "error2string SERVICE_ERROR_DHCP_FAILED = Some ''dhcp-failed''"
| "error2string SERVICE_ERROR_CONNECT_FAILED = Some ''connect-failed''"
| "error2string SERVICE_ERROR_LOGIN_FAILED = Some ''login-failed''"
| "error2string SERVICE_ERROR_AUTH_FAILED = Some ''auth-failed''"
| "error2string SERVICE_ERROR_INVALID_KEY = Some ''invalid-key''"
| "error2string SERVICE_ERROR_BLOCKED = Some ''blocked''"
| "error2string SERVICE_ERROR_ONLINE_CHECK_FAILED = Some ''online-check-failed''"

fun proxymethod2string :: "service_proxy_method \<Rightarrow> string option" where
  "proxymethod2string SERVICE_PROXY_METHOD_DIRECT = Some ''direct''"
| "proxymethod2string SERVICE_PROXY_METHOD_MANUAL = Some ''manual''"
| "proxymethod2string SERVICE_PROXY_METHOD_AUTO = Some ''auto''"
| "proxymethod2string SERVICE_PROXY_METHOD_UNKNOWN = None"

definition string2proxymethod :: "string option \<Rightarrow> service_proxy_method" where
  "string2proxymethod method =
     (if method = Some ''direct'' then SERVICE_PROXY_METHOD_DIRECT
      else if method = Some ''auto'' then SERVICE_PROXY_METHOD_AUTO
      else if method = Some ''manual'' then SERVICE_PROXY_METHOD_MANUAL
      else SERVICE_PROXY_METHOD_UNKNOWN)"

text \<open>The types of a list of names in the configuration; names that are not known are left out.\<close>

definition parse_service_types :: "string list \<Rightarrow> service_type list" where
  "parse_service_types strs = filter (\<lambda>t. t \<noteq> SERVICE_TYPE_UNKNOWN) (map (\<lambda>s. string2type (Some s)) strs)"

section \<open>States\<close>

definition combine_state :: "service_state \<Rightarrow> service_state \<Rightarrow> service_state" where
  "combine_state state_a state_b =
     (if state_a = state_b then state_a
      else if state_a = SERVICE_STATE_UNKNOWN then state_b
      else if state_b = SERVICE_STATE_UNKNOWN then state_a
      else if state_a = SERVICE_STATE_IDLE then state_b
      else if state_b = SERVICE_STATE_IDLE then state_a
      else if state_a = SERVICE_STATE_ONLINE then state_a
      else if state_b = SERVICE_STATE_ONLINE then state_b
      else if state_a = SERVICE_STATE_READY then state_a
      else if state_b = SERVICE_STATE_READY then state_b
      else if state_a = SERVICE_STATE_CONFIGURATION then state_a
      else if state_b = SERVICE_STATE_CONFIGURATION then state_b
      else if state_a = SERVICE_STATE_ASSOCIATION then state_a
      else if state_b = SERVICE_STATE_ASSOCIATION then state_b
      else if state_a = SERVICE_STATE_DISCONNECT then state_a
      else if state_b = SERVICE_STATE_DISCONNECT then state_b
      else SERVICE_STATE_FAILURE)"

definition is_connecting :: "service_state \<Rightarrow> bool" where
  "is_connecting state =
     (case state of SERVICE_STATE_ASSOCIATION \<Rightarrow> True | SERVICE_STATE_CONFIGURATION \<Rightarrow> True | _ \<Rightarrow> False)"

definition is_connected :: "service_state \<Rightarrow> bool" where
  "is_connected state = (case state of SERVICE_STATE_READY \<Rightarrow> True | SERVICE_STATE_ONLINE \<Rightarrow> True | _ \<Rightarrow> False)"

definition is_online :: "service_state \<Rightarrow> bool" where
  "is_online state \<longleftrightarrow> state = SERVICE_STATE_ONLINE"

definition is_idle :: "service_state \<Rightarrow> bool" where
  "is_idle state =
     (case state of SERVICE_STATE_IDLE \<Rightarrow> True | SERVICE_STATE_DISCONNECT \<Rightarrow> True | SERVICE_STATE_FAILURE \<Rightarrow> True | _ \<Rightarrow> False)"

section \<open>The order of the service list\<close>

record service =
  s_ident :: string
  s_type :: service_type
  s_state :: service_state
  s_strength :: u8
  s_favorite :: bool
  s_order :: u32
  s_name :: "string option"
  s_provider :: "string option option"
  s_threshold_met :: bool

type_synonym service_hash = "string \<rightharpoonup> service"

fun strcmp :: "string \<Rightarrow> string \<Rightarrow> int" where
  "strcmp [] [] = 0"
| "strcmp [] (_ # _) = -1"
| "strcmp (_ # _) [] = 1"
| "strcmp (c # cs) (d # ds) =
     (if of_char c < (of_char d :: int) then -1 else if of_char c > (of_char d :: int) then 1 else strcmp cs ds)"

fun g_strcmp0 :: "string option \<Rightarrow> string option \<Rightarrow> int" where
  "g_strcmp0 None b = (if b = None then 0 else -1)"
| "g_strcmp0 (Some a) None = 1"
| "g_strcmp0 (Some a) (Some b) = strcmp a b"

text \<open>
  \<open>service_compare_vpn\<close> compares the transport of the one that has a provider with the other
  service: it gives the two services that it goes on to compare, or nothing when its result is 0.
\<close>

definition service_compare_vpn :: "service_hash \<Rightarrow> service \<Rightarrow> service \<Rightarrow> (service \<times> service) option" where
  "service_compare_vpn hash a b =
     (case s_provider a of
        Some ident \<Rightarrow> map_option (\<lambda>transport. (transport, b)) (Option.bind ident hash)
      | None \<Rightarrow>
          (case s_provider b of
             Some ident \<Rightarrow> map_option (\<lambda>transport. (a, transport)) (Option.bind ident hash)
           | None \<Rightarrow> None))"

fun compare_preferred :: "service_type \<Rightarrow> service_type \<Rightarrow> service_type list \<Rightarrow> int" where
  "compare_preferred ta tb [] = 0"
| "compare_preferred ta tb (t # ts) = (if t = ta then -1 else if t = tb then 1 else compare_preferred ta tb ts)"

text \<open>The array of the setting ends with the type 0; the list here is what stands before it.\<close>

definition service_compare_preferred :: "service_type list option \<Rightarrow> service \<Rightarrow> service \<Rightarrow> int" where
  "service_compare_preferred pref a b =
     (case pref of
        Some tech_array \<Rightarrow> (if s_type a \<noteq> s_type b then compare_preferred (s_type a) (s_type b) tech_array else 0)
      | None \<Rightarrow> 0)"

text \<open>What follows the comparison of two connected services.\<close>

definition service_compare_types :: "service_type list option \<Rightarrow> service \<Rightarrow> service \<Rightarrow> int" where
  "service_compare_types pref a b =
     (if service_compare_preferred pref a b \<noteq> 0 then service_compare_preferred pref a b
      else if s_type a = SERVICE_TYPE_ETHERNET then -1 else if s_type b = SERVICE_TYPE_ETHERNET then 1
      else if s_type a = SERVICE_TYPE_WIFI then -1 else if s_type b = SERVICE_TYPE_WIFI then 1
      else if s_type a = SERVICE_TYPE_CELLULAR then -1 else if s_type b = SERVICE_TYPE_CELLULAR then 1
      else if s_type a = SERVICE_TYPE_BLUETOOTH then -1 else if s_type b = SERVICE_TYPE_BLUETOOTH then 1
      else if s_type a = SERVICE_TYPE_VPN then -1 else if s_type b = SERVICE_TYPE_VPN then 1
      else if s_type a = SERVICE_TYPE_GADGET then -1 else if s_type b = SERVICE_TYPE_GADGET then 1
      else 0)"

definition service_compare_rest :: "service_type list option \<Rightarrow> service \<Rightarrow> service \<Rightarrow> int" where
  "service_compare_rest pref a b =
     (let state_a = s_state a; state_b = s_state b; a_connected = is_connected state_a; b_connected = is_connected state_b;
          strength = uint (s_strength b) - uint (s_strength a);
          types = (if s_type a \<noteq> s_type b then service_compare_types pref a b else 0)
      in
      if state_a \<noteq> state_b \<and> a_connected \<and> b_connected \<and> is_online state_a then -1
      else if state_a \<noteq> state_b \<and> a_connected \<and> b_connected \<and> is_online state_b then 1
      else if state_a \<noteq> state_b \<and> a_connected then -1
      else if state_a \<noteq> state_b \<and> b_connected then 1
      else if state_a \<noteq> state_b \<and> is_connecting state_a then -1
      else if state_a \<noteq> state_b \<and> is_connecting state_b then 1
      else if s_favorite a \<and> \<not> s_favorite b then -1
      else if \<not> s_favorite a \<and> s_favorite b then 1
      else if types \<noteq> 0 then types
      else if strength \<noteq> 0 then strength
      else g_strcmp0 (s_name a) (s_name b))"

definition service_compare_order :: "service_type list option \<Rightarrow> service \<Rightarrow> service \<Rightarrow> int" where
  "service_compare_order pref a b =
     (if s_order a > s_order b then -1
      else if s_order a < s_order b then 1
      else if service_compare_preferred pref a b \<noteq> 0 then service_compare_preferred pref a b
      else service_compare_rest pref a b)"

text \<open>
  \<open>service_compare\<close> calls itself for the transport of a VPN; it does not return, which is \<open>None\<close>,
  when the chain of transports does not end.
\<close>

partial_function (option) service_compare ::
  "service_hash \<Rightarrow> service_type list option \<Rightarrow> service \<Rightarrow> service \<Rightarrow> int option" where
  "service_compare hash pref a b =
     (if is_connected (s_state a) \<and> is_connected (s_state b) then
        (if \<not> s_threshold_met a \<and> s_threshold_met b then Some (-1)
         else if s_threshold_met a \<and> \<not> s_threshold_met b then Some 1
         else
           do {
             rval \<leftarrow> (if (s_type a = SERVICE_TYPE_VPN \<or> s_type b = SERVICE_TYPE_VPN) \<and> s_type b \<noteq> s_type a
                       then (case service_compare_vpn hash a b of
                               None \<Rightarrow> Some 0
                             | Some (x, y) \<Rightarrow> service_compare hash pref x y)
                       else Some 0);
             Some (if rval \<noteq> 0 then rval else service_compare_order pref a b)
           })
      else Some (service_compare_rest pref a b))"

text \<open>
  Sorting the list, and whether the signal \<open>ServicesChanged\<close> is scheduled; \<open>sort_list\<close> is the
  sorting function of the container library, which calls the comparison.
\<close>

definition service_list_sort ::
  "((service \<Rightarrow> service \<Rightarrow> int option) \<Rightarrow> service list \<Rightarrow> service list option) \<Rightarrow> service_hash \<Rightarrow> service_type list option \<Rightarrow>
     service list \<Rightarrow> (service list \<times> bool) option" where
  "service_list_sort sort_list hash pref service_list =
     (if service_list \<noteq> [] \<and> tl service_list \<noteq> []
      then map_option (\<lambda>l. (l, True)) (sort_list (service_compare hash pref) service_list)
      else Some (service_list, False))"

definition service_get_default :: "service list \<Rightarrow> service option" where
  "service_get_default service_list =
     (case service_list of
        [] \<Rightarrow> None
      | service # _ \<Rightarrow> if \<not> is_connected (s_state service) then None else Some service)"

section \<open>Names and states\<close>

lemma string2type_type2string: "string2type (type2string t) = t"
  by (cases t) (simp_all add: string2type_def)

lemma string2proxymethod_proxymethod2string: "string2proxymethod (proxymethod2string m) = m"
  by (cases m) (simp_all add: string2proxymethod_def)

text \<open>The security of a network is read back but for the two that share the name of a pre-shared key.\<close>

lemma string2security_security2string:
  "string2security (security2string s) = (if s \<in> {SERVICE_SECURITY_WPA, SERVICE_SECURITY_RSN} then SERVICE_SECURITY_PSK else s)"
  by (cases s) (simp_all add: string2security_def)

text \<open>The combination of two states is the one that is further on the way to being online.\<close>

definition state_rank :: "service_state \<Rightarrow> nat" where
  "state_rank s = (case s of SERVICE_STATE_UNKNOWN \<Rightarrow> 0 | SERVICE_STATE_IDLE \<Rightarrow> 1 | SERVICE_STATE_FAILURE \<Rightarrow> 2 | SERVICE_STATE_DISCONNECT \<Rightarrow> 3 |
     SERVICE_STATE_ASSOCIATION \<Rightarrow> 4 | SERVICE_STATE_CONFIGURATION \<Rightarrow> 5 | SERVICE_STATE_READY \<Rightarrow> 6 | SERVICE_STATE_ONLINE \<Rightarrow> 7)"

lemma combine_state_rank: "combine_state a b = (if state_rank a \<le> state_rank b then b else a)"
  by (cases a; cases b; simp add: combine_state_def state_rank_def)

lemma combine_state_connected: "is_connected (combine_state a b) \<longleftrightarrow> is_connected a \<or> is_connected b"
  by (cases a; cases b; simp add: combine_state_def is_connected_def)

section \<open>The order as a key\<close>

definition pref_rank :: "service_type list option \<Rightarrow> service_type \<Rightarrow> int" where
  "pref_rank pref t = (case pref of None \<Rightarrow> 0 | Some ts \<Rightarrow> int (length (takeWhile (\<lambda>u. u \<noteq> t) ts)))"

definition type_rank :: "service_type \<Rightarrow> int" where
  "type_rank t = (case t of SERVICE_TYPE_ETHERNET \<Rightarrow> 0 | SERVICE_TYPE_WIFI \<Rightarrow> 1 | SERVICE_TYPE_CELLULAR \<Rightarrow> 2 | SERVICE_TYPE_BLUETOOTH \<Rightarrow> 3 |
     SERVICE_TYPE_VPN \<Rightarrow> 4 | SERVICE_TYPE_GADGET \<Rightarrow> 5 | _ \<Rightarrow> 6)"

definition name_key :: "string option \<Rightarrow> int list" where
  "name_key n = (case n of None \<Rightarrow> [] | Some cs \<Rightarrow> 1 # map of_char cs)"

definition rest_key :: "service_type list option \<Rightarrow> service \<Rightarrow> int list" where
  "rest_key pref s = of_bool (\<not> s_favorite s) # pref_rank pref (s_type s) # type_rank (s_type s) # - uint (s_strength s) # name_key (s_name s)"

text \<open>
  A connected service comes before one that connects and that before the others. Connected
  services are ordered by the failure of their online checks, their order, the preferred
  technologies and whether they are online; then all by favourite, type, strength and name.
\<close>

definition service_key :: "service_type list option \<Rightarrow> service \<Rightarrow> int list" where
  "service_key pref s =
     (if is_connected (s_state s)
      then 0 # of_bool (s_threshold_met s) # - uint (s_order s) # pref_rank pref (s_type s) # of_bool (\<not> is_online (s_state s)) # rest_key pref s
      else (if is_connecting (s_state s) then 1 else 2) # rest_key pref s)"

lemma strcmp_cmp3: "strcmp a b = cmp3 (map of_char a) (map of_char b :: int list)"
  by (induction a b rule: strcmp.induct) (simp_all add: cmp3_Cons, simp_all add: cmp3_def)

lemma g_strcmp0_cmp3: "g_strcmp0 a b = cmp3 (name_key a) (name_key b)"
  by (cases a; cases b) (simp_all add: name_key_def strcmp_cmp3 cmp3_Cons, simp_all add: cmp3_def)

lemma compare_preferred_rank:
  "ta \<noteq> tb \<Longrightarrow> compare_preferred ta tb ts = cmp3 (int (length (takeWhile (\<lambda>u. u \<noteq> ta) ts))) (int (length (takeWhile (\<lambda>u. u \<noteq> tb) ts)))"
  by (induction ts) (auto simp: cmp3_def)

lemma preferred_rank: "service_compare_preferred pref a b = cmp3 (pref_rank pref (s_type a)) (pref_rank pref (s_type b))"
  by (auto simp: service_compare_preferred_def pref_rank_def compare_preferred_rank cmp3_def split: option.split)

lemma types_rank:
  "(if s_type a \<noteq> s_type b then service_compare_types pref a b else 0) =
   (if cmp3 (pref_rank pref (s_type a)) (pref_rank pref (s_type b)) \<noteq> 0 then cmp3 (pref_rank pref (s_type a)) (pref_rank pref (s_type b))
    else cmp3 (type_rank (s_type a)) (type_rank (s_type b)))"
proof (cases "s_type a = s_type b")
  case False
  have "cmp3 (type_rank (s_type a)) (type_rank (s_type b)) =
      (if s_type a = SERVICE_TYPE_ETHERNET then -1 else if s_type b = SERVICE_TYPE_ETHERNET then 1
      else if s_type a = SERVICE_TYPE_WIFI then -1 else if s_type b = SERVICE_TYPE_WIFI then 1
      else if s_type a = SERVICE_TYPE_CELLULAR then -1 else if s_type b = SERVICE_TYPE_CELLULAR then 1
      else if s_type a = SERVICE_TYPE_BLUETOOTH then -1 else if s_type b = SERVICE_TYPE_BLUETOOTH then 1
      else if s_type a = SERVICE_TYPE_VPN then -1 else if s_type b = SERVICE_TYPE_VPN then 1
      else if s_type a = SERVICE_TYPE_GADGET then -1 else if s_type b = SERVICE_TYPE_GADGET then 1
      else 0)"
    using False by (cases "s_type a"; cases "s_type b"; simp add: type_rank_def cmp3_def)
  then show ?thesis using False by (simp add: service_compare_types_def preferred_rank)
qed (simp add: cmp3_def)

text \<open>The last part of the comparison, when the states do not decide.\<close>

lemma rest_of_equal_states:
  "sgn (if s_favorite a \<and> \<not> s_favorite b then -1
      else if \<not> s_favorite a \<and> s_favorite b then 1
      else if (if s_type a \<noteq> s_type b then service_compare_types pref a b else 0) \<noteq> 0
        then (if s_type a \<noteq> s_type b then service_compare_types pref a b else 0)
      else if uint (s_strength b) - uint (s_strength a) \<noteq> 0 then uint (s_strength b) - uint (s_strength a)
      else g_strcmp0 (s_name a) (s_name b)) = cmp3 (rest_key pref a) (rest_key pref b)"
  unfolding types_rank g_strcmp0_cmp3 rest_key_def cmp3_Cons by (simp add: cmp3_def)

lemma rest_connected:
  "is_connected (s_state a) \<Longrightarrow> is_connected (s_state b) \<Longrightarrow>
   sgn (service_compare_rest pref a b) = cmp3 (of_bool (\<not> is_online (s_state a)) # rest_key pref a) (of_bool (\<not> is_online (s_state b)) # rest_key pref b)"
  using rest_of_equal_states[of a b pref]
  by (cases "s_state a"; cases "s_state b") (simp_all add: service_compare_rest_def Let_def is_connected_def is_online_def is_connecting_def cmp3_Cons, simp_all add: cmp3_def)

text \<open>Two services that connect and are not in the same state.\<close>

definition mixed_connecting :: "service \<Rightarrow> service \<Rightarrow> bool" where
  "mixed_connecting a b \<longleftrightarrow> is_connecting (s_state a) \<and> is_connecting (s_state b) \<and> s_state a \<noteq> s_state b"

lemma rest_not_connected:
  "\<not> (is_connected (s_state a) \<and> is_connected (s_state b)) \<Longrightarrow> \<not> mixed_connecting a b \<Longrightarrow>
   sgn (service_compare_rest pref a b) = cmp3 (service_key pref a) (service_key pref b)"
  using rest_of_equal_states[of a b pref]
  by (cases "s_state a"; cases "s_state b")
    (simp_all add: service_compare_rest_def Let_def is_connected_def is_online_def is_connecting_def service_key_def mixed_connecting_def cmp3_Cons,
     simp_all add: cmp3_def)

lemma order_connected:
  "is_connected (s_state a) \<Longrightarrow> is_connected (s_state b) \<Longrightarrow> s_threshold_met a = s_threshold_met b \<Longrightarrow>
   sgn (service_compare_order pref a b) = cmp3 (service_key pref a) (service_key pref b)"
  by (simp add: service_compare_order_def preferred_rank rest_connected service_key_def cmp3_Cons word_less_def)
     (simp add: cmp3_def)

lemma service_compare_key:
  assumes "s_type a \<noteq> SERVICE_TYPE_VPN" "s_type b \<noteq> SERVICE_TYPE_VPN" "\<not> mixed_connecting a b"
  shows "\<exists>r. service_compare hash pref a b = Some r \<and> sgn r = cmp3 (service_key pref a) (service_key pref b)"
proof (cases "is_connected (s_state a) \<and> is_connected (s_state b)")
  case False
  then show ?thesis using rest_not_connected[OF _ assms(3)] by (subst service_compare.simps) auto
next
  case True
  show ?thesis
  proof (cases "s_threshold_met a = s_threshold_met b")
    case eq: True
    have "service_compare hash pref a b = Some (service_compare_order pref a b)"
      using True eq assms(1,2) by (subst service_compare.simps) simp
    then show ?thesis using order_connected[of a b pref] True eq by simp
  next
    case ne: False
    have "service_compare hash pref a b = Some (if s_threshold_met b then -1 else 1)"
      using True ne by (subst service_compare.simps) auto
    moreover have "cmp3 (service_key pref a) (service_key pref b) = (if s_threshold_met b then -1 else 1)"
      using True ne by (simp add: service_key_def cmp3_Cons) (simp add: cmp3_def)
    ultimately show ?thesis by simp
  qed
qed

lemma key_first: "service_key pref a \<le> service_key pref b \<Longrightarrow> is_connected (s_state b) \<Longrightarrow> is_connected (s_state a)"
  by (auto simp: service_key_def less_le[symmetric] split: if_splits)

lemma default_of_sorted:
  assumes "sorted (map (service_key pref) l)"
  shows "(service_get_default l = None \<longleftrightarrow> (\<forall>s \<in> set l. \<not> is_connected (s_state s))) \<and>
    (\<forall>d. service_get_default l = Some d \<longrightarrow> d \<in> set l \<and> is_connected (s_state d) \<and> (\<forall>s \<in> set l. service_key pref d \<le> service_key pref s))"
  using assms key_first[of pref] by (cases l) (auto simp: service_get_default_def)

section \<open>Properties\<close>

text \<open>
  C20. Sorting the service list returns and gives a permutation of the list in the order of the
  key, whenever the list has no VPN and no two services that connect and are in different
  states. The default service is then the one with the least key: there is one just when some
  service is connected, and no service that is connected comes before it in the order of failed
  online checks, order, preferred technology, state, favourite, type, strength and name. These are
  the criteria that \<open>service_compare\<close> compares; its comment starts with the state, and the overview
  of the interfaces has another order of the types and sorts networks of the same strength by
  their security.
\<close>
theorem service_list_sorted:
  assumes "list_sorting sort_list" "\<forall>s \<in> set l. s_type s \<noteq> SERVICE_TYPE_VPN" "\<forall>a \<in> set l. \<forall>b \<in> set l. \<not> mixed_connecting a b"
  shows "\<exists>l' changed. service_list_sort sort_list hash pref l = Some (l', changed) \<and> mset l' = mset l \<and> sorted (map (service_key pref) l') \<and>
    (service_get_default l' = None \<longleftrightarrow> (\<forall>s \<in> set l. \<not> is_connected (s_state s))) \<and>
    (\<forall>d. service_get_default l' = Some d \<longrightarrow> d \<in> set l \<and> is_connected (s_state d) \<and> (\<forall>s \<in> set l. service_key pref d \<le> service_key pref s))"
proof -
  have "\<exists>l' changed. service_list_sort sort_list hash pref l = Some (l', changed) \<and> mset l' = mset l \<and> sorted (map (service_key pref) l')"
  proof (cases "l \<noteq> [] \<and> tl l \<noteq> []")
    case True
    have "\<exists>ys. sort_list (service_compare hash pref) l = Some ys \<and> mset ys = mset l \<and> sorted (map (service_key pref) ys)"
      using assms(2,3) by (intro list_sorting.sorts_by_key[OF assms(1)] service_compare_key) auto
    then show ?thesis using True by (auto simp: service_list_sort_def)
  next
    case False
    then show ?thesis by (cases l) (auto simp: service_list_sort_def)
  qed
  then obtain l' changed where l': "service_list_sort sort_list hash pref l = Some (l', changed)" "mset l' = mset l" "sorted (map (service_key pref) l')"
    by blast
  have "set l' = set l" using l'(2) by (metis set_mset_mset)
  then show ?thesis using default_of_sorted[OF l'(3)] l' by auto
qed

text \<open>
  Two services that connect and are in different states each come before the other: the
  comparison is no order on them, and the place of the two in the list depends on how the
  sorting happens to call it.
\<close>
lemma service_compare_connecting_inconsistent:
  assumes "mixed_connecting a b"
  shows "service_compare hash pref a b = Some (-1) \<and> service_compare hash pref b a = Some (-1)"
proof -
  have f: "\<not> is_connected (s_state a)" "\<not> is_connected (s_state b)" "s_state a \<noteq> s_state b"
      "is_connecting (s_state a)" "is_connecting (s_state b)"
    using assms by (auto simp: mixed_connecting_def is_connecting_def is_connected_def split: service_state.splits)
  have "service_compare hash pref a b = Some (service_compare_rest pref a b)" "service_compare hash pref b a = Some (service_compare_rest pref b a)"
    using f(1,2) by (subst service_compare.simps, simp)+
  moreover have "service_compare_rest pref a b = -1" "service_compare_rest pref b a = -1"
    using f f(3)[symmetric] by (simp_all add: service_compare_rest_def)
  ultimately show ?thesis by simp
qed

section \<open>Examples\<close>

definition demo_service :: "service_type \<Rightarrow> service_state \<Rightarrow> string \<Rightarrow> service" where
  "demo_service t st n = \<lparr>s_ident = n, s_type = t, s_state = st, s_strength = 50, s_favorite = True, s_order = 0, s_name = Some n,
     s_provider = None, s_threshold_met = False\<rparr>"

definition demo_list :: "service list" where
  "demo_list = [demo_service SERVICE_TYPE_WIFI SERVICE_STATE_IDLE ''cafe'', demo_service SERVICE_TYPE_CELLULAR SERVICE_STATE_READY ''net'',
     demo_service SERVICE_TYPE_WIFI SERVICE_STATE_ONLINE ''home'']"

theorem service_list_sorted_witness:
  "\<exists>l' changed. service_list_sort ref_sort Map.empty None demo_list = Some (l', changed) \<and> mset l' = mset demo_list \<and>
     service_get_default l' \<noteq> None"
  using service_list_sorted[OF ref_sorting.list_sorting_axioms, of demo_list Map.empty None]
  by (auto simp: demo_list_def demo_service_def mixed_connecting_def is_connecting_def is_connected_def)

lemma service_compare_connecting_inconsistent_example:
  "service_compare Map.empty None (demo_service SERVICE_TYPE_WIFI SERVICE_STATE_ASSOCIATION ''a'')
     (demo_service SERVICE_TYPE_ETHERNET SERVICE_STATE_CONFIGURATION ''b'') = Some (-1)"
  using service_compare_connecting_inconsistent[of "demo_service SERVICE_TYPE_WIFI SERVICE_STATE_ASSOCIATION ''a''"
      "demo_service SERVICE_TYPE_ETHERNET SERVICE_STATE_CONFIGURATION ''b''" Map.empty None]
  by (simp add: mixed_connecting_def demo_service_def is_connecting_def)

end
