(* ===== verification/OnlineCheck.thy ===== *)
theory OnlineCheck
  imports Service
begin

text \<open>
  The online checks of a service, from \<open>src/src/service.c\<close>: the start, completion, repetition and
  cancellation of the reachability checks of the two IP configurations, the counters of
  successes and failures with their thresholds, and the change of the state of an IP
  configuration that they bring about. The state is what these functions read and write of one
  service, with the two variables of the reverse path filter; the calls into other parts of the
  program are recorded in \<open>oc_calls\<close>, and what such calls give comes from \<open>oc_env\<close>. One of them is
  the change of the combined state of the service, \<open>service_indicate_state\<close>, with all that it
  starts in the rest of the daemon. A timer is its identifier, 0 for none; \<open>sources\<close> are the timers
  of the service that the main loop holds, with the kind of check each of them repeats. The start
  of a check is the function of \<open>src/src/wispr.c\<close>, which answers a failure before it returns.
\<close>

section \<open>State\<close>

datatype online_check_mode =
  ONLINE_CHECK_MODE_UNKNOWN | ONLINE_CHECK_MODE_NONE | ONLINE_CHECK_MODE_ONE_SHOT | ONLINE_CHECK_MODE_CONTINUOUS

abbreviation "IPV4 \<equiv> CONNMAN_IPCONFIG_TYPE_IPV4"
abbreviation "IPV6 \<equiv> CONNMAN_IPCONFIG_TYPE_IPV6"

record online_check_state =
  oc_active :: bool
  oc_timeout :: nat
  oc_interval :: u32
  oc_successes :: u32
  oc_failures :: u32

datatype oc_call =
    Wispr_start ipconfig_type | Wispr_cancel ipconfig_type | Wpad_start | Timeout_add ipconfig_type u32 | Source_remove nat
  | Service_indicate_state | Set_rp_filter | Unset_rp_filter int | Set_mdns | Ipconfig_disable ipconfig_type
  | Nameserver_remove_all ipconfig_type | Nameserver_add_all ipconfig_type | Timeserver_sync
  | Service_list_sort | Gateway_update | Error_changed service_error | Proxy_changed | Notify_proxy_changed

record oc_service =
  refcount :: int
  hidden :: bool
  state :: service_state
  state_ipv4 :: service_state
  state_ipv6 :: service_state
  oc_error :: service_error
  proxy :: service_proxy_method
  proxy_config :: service_proxy_method
  pac :: "string option"
  online_check_state_ipv4 :: online_check_state
  online_check_state_ipv6 :: online_check_state
  failures_met_threshold :: bool
  connected_networks_count :: int
  original_rp_filter :: int
  sources :: "nat \<rightharpoonup> ipconfig_type"
  oc_calls :: "oc_call list"

text \<open>
  \<open>ipconfig_of\<close> is the method of the IP configuration of a kind, if the service has one;
  \<open>is_default\<close> says whether the service is the default one at the time the code asks, and
  \<open>allow_property_changed\<close> whether it has a path and its properties are announced.
  \<open>wispr_ready\<close> to \<open>wispr_portal_detect\<close> are what the start of a check depends on: the table of
  portals is there, the technology of the service is supported, the index of its interface, the
  memory for a portal, and the result of the preparations of the request. \<open>timer_id\<close> is the
  identifier that the main loop gives to a timer added for a kind of check.
\<close>

record oc_env =
  check_mode :: online_check_mode
  failures_threshold :: u32
  successes_threshold :: u32
  initial_interval :: u32
  max_interval :: u32
  interval_style :: string
  ipconfig_of :: "ipconfig_type \<Rightarrow> ipconfig_method option"
  is_default :: bool
  indicate_state_result :: "unit result"
  wispr_ready :: bool
  wispr_supported :: bool
  service_index :: int
  portal_allocated :: bool
  wispr_portal_detect :: "ipconfig_type \<Rightarrow> unit result"
  wpad_start_result :: int
  rp_filter_value :: int
  timer_id :: "ipconfig_type \<Rightarrow> nat"
  allow_property_changed :: bool

definition call :: "oc_call \<Rightarrow> oc_service \<Rightarrow> oc_service" where
  "call c s = s\<lparr>oc_calls := oc_calls s @ [c]\<rparr>"

definition oc_of :: "ipconfig_type \<Rightarrow> oc_service \<Rightarrow> online_check_state" where
  "oc_of t s = (if t = IPV4 then online_check_state_ipv4 s else online_check_state_ipv6 s)"

definition upd_oc :: "ipconfig_type \<Rightarrow> (online_check_state \<Rightarrow> online_check_state) \<Rightarrow> oc_service \<Rightarrow> oc_service" where
  "upd_oc t f s =
     (if t = IPV4 then s\<lparr>online_check_state_ipv4 := f (online_check_state_ipv4 s)\<rparr>
      else s\<lparr>online_check_state_ipv6 := f (online_check_state_ipv6 s)\<rparr>)"

definition unref :: "oc_service \<Rightarrow> oc_service" where
  "unref s = s\<lparr>refcount := refcount s - 1\<rparr>"

section \<open>Modes and timeouts\<close>

fun online_check_mode2string :: "online_check_mode \<Rightarrow> string option" where
  "online_check_mode2string ONLINE_CHECK_MODE_UNKNOWN = None"
| "online_check_mode2string ONLINE_CHECK_MODE_NONE = Some ''none''"
| "online_check_mode2string ONLINE_CHECK_MODE_ONE_SHOT = Some ''one-shot''"
| "online_check_mode2string ONLINE_CHECK_MODE_CONTINUOUS = Some ''continuous''"

definition online_check_string2mode :: "string option \<Rightarrow> online_check_mode" where
  "online_check_string2mode mode =
     (if mode = None then ONLINE_CHECK_MODE_UNKNOWN
      else if mode = Some ''none'' then ONLINE_CHECK_MODE_NONE
      else if mode = Some ''one-shot'' then ONLINE_CHECK_MODE_ONE_SHOT
      else if mode = Some ''continuous'' then ONLINE_CHECK_MODE_CONTINUOUS
      else ONLINE_CHECK_MODE_UNKNOWN)"

definition is_online_check_enabled :: "oc_env \<Rightarrow> bool" where
  "is_online_check_enabled e \<longleftrightarrow> check_mode e \<noteq> ONLINE_CHECK_MODE_UNKNOWN \<and> check_mode e \<noteq> ONLINE_CHECK_MODE_NONE"

definition is_online_check_mode :: "oc_env \<Rightarrow> online_check_mode \<Rightarrow> bool" where
  "is_online_check_mode e mode \<longleftrightarrow> check_mode e = mode"

fun fibonacci_loop :: "nat \<Rightarrow> u32 \<Rightarrow> u32 \<Rightarrow> u32 \<Rightarrow> u32" where
  "fibonacci_loop 0 first second timeout_seconds = timeout_seconds"
| "fibonacci_loop (Suc n) first second timeout_seconds = fibonacci_loop n second (second + first) first"

text \<open>The loop runs once more than the interval says.\<close>

definition online_check_timeout_compute_fibonacci :: "u32 \<Rightarrow> u32" where
  "online_check_timeout_compute_fibonacci interval = fibonacci_loop (unat interval + 1) 0 1 0"

definition online_check_timeout_compute_geometric :: "u32 \<Rightarrow> u32" where
  "online_check_timeout_compute_geometric interval = interval * interval"

definition online_check_timeout_compute_func :: "oc_env \<Rightarrow> u32 \<Rightarrow> u32" where
  "online_check_timeout_compute_func e =
     (if interval_style e = ''fibonacci'' then online_check_timeout_compute_fibonacci else online_check_timeout_compute_geometric)"

section \<open>The active state and the counters\<close>

definition online_check_is_active :: "oc_service \<Rightarrow> ipconfig_type \<Rightarrow> bool" where
  "online_check_is_active s t =
     (if t = IPV4 then oc_active (online_check_state_ipv4 s)
      else if t = IPV6 then oc_active (online_check_state_ipv6 s)
      else if t = CONNMAN_IPCONFIG_TYPE_ALL then oc_active (online_check_state_ipv4 s) \<or> oc_active (online_check_state_ipv6 s)
      else False)"

definition online_check_active_set_value :: "ipconfig_type \<Rightarrow> bool \<Rightarrow> oc_service \<Rightarrow> oc_service" where
  "online_check_active_set_value t active s =
     (let do_ipv4 = (t = IPV4 \<or> t = CONNMAN_IPCONFIG_TYPE_ALL);
          do_ipv6 = (t = IPV6 \<or> t = CONNMAN_IPCONFIG_TYPE_ALL);
          s1 = (if do_ipv4 then upd_oc IPV4 (\<lambda>c. c\<lparr>oc_active := active\<rparr>) s else s)
      in if do_ipv6 then upd_oc IPV6 (\<lambda>c. c\<lparr>oc_active := active\<rparr>) s1 else s1)"

definition online_check_active_set :: "ipconfig_type \<Rightarrow> oc_service \<Rightarrow> oc_service" where
  "online_check_active_set t = online_check_active_set_value t True"

definition online_check_active_clear :: "ipconfig_type \<Rightarrow> oc_service \<Rightarrow> oc_service" where
  "online_check_active_clear t = online_check_active_set_value t False"

definition set_error :: "oc_env \<Rightarrow> service_error \<Rightarrow> oc_service \<Rightarrow> oc_service" where
  "set_error e err s =
     (if oc_error s = err then s
      else let s1 = s\<lparr>oc_error := err\<rparr> in if \<not> allow_property_changed e then s1 else call (Error_changed err) s1)"

definition clear_error :: "oc_env \<Rightarrow> oc_service \<Rightarrow> oc_service" where
  "clear_error e = set_error e SERVICE_ERROR_UNKNOWN"

definition online_check_failures_reset :: "oc_service \<Rightarrow> oc_service" where
  "online_check_failures_reset s = upd_oc IPV6 (\<lambda>c. c\<lparr>oc_failures := 0\<rparr>) (upd_oc IPV4 (\<lambda>c. c\<lparr>oc_failures := 0\<rparr>) s)"

definition online_check_successes_reset :: "oc_service \<Rightarrow> oc_service" where
  "online_check_successes_reset s = upd_oc IPV6 (\<lambda>c. c\<lparr>oc_successes := 0\<rparr>) (upd_oc IPV4 (\<lambda>c. c\<lparr>oc_successes := 0\<rparr>) s)"

definition online_check_state_reset :: "oc_env \<Rightarrow> oc_service \<Rightarrow> oc_service" where
  "online_check_state_reset e s =
     clear_error e ((online_check_successes_reset (online_check_failures_reset s))\<lparr>failures_met_threshold := False\<rparr>)"

definition online_check_failures_threshold_is_met :: "oc_env \<Rightarrow> oc_service \<Rightarrow> bool" where
  "online_check_failures_threshold_is_met e s =
     (let ipv4_is_connected = is_connected (state_ipv4 s); ipv6_is_connected = is_connected (state_ipv6 s);
          f4 = oc_failures (online_check_state_ipv4 s) \<ge> failures_threshold e;
          f6 = oc_failures (online_check_state_ipv6 s) \<ge> failures_threshold e
      in (\<not> ipv6_is_connected \<and> ipv4_is_connected \<and> f4) \<or> (\<not> ipv4_is_connected \<and> ipv6_is_connected \<and> f6) \<or>
         (ipv4_is_connected \<and> f4 \<and> ipv6_is_connected \<and> f6))"

definition online_check_successes_threshold_is_met :: "oc_env \<Rightarrow> oc_service \<Rightarrow> bool" where
  "online_check_successes_threshold_is_met e s \<longleftrightarrow>
     (is_connected (state_ipv4 s) \<and> oc_successes (online_check_state_ipv4 s) \<ge> successes_threshold e) \<or>
     (is_connected (state_ipv6 s) \<and> oc_successes (online_check_state_ipv6 s) \<ge> successes_threshold e)"

section \<open>Cancelling\<close>

text \<open>
  Cancelling: the answer of the cancelled check is ignored but for marking the check as not active,
  which this function does itself at the end.
\<close>

definition source_remove :: "nat \<Rightarrow> oc_service \<Rightarrow> oc_service" where
  "source_remove tag s = (call (Source_remove tag) s)\<lparr>sources := (sources s)(tag := None)\<rparr>"

definition cancel_timer :: "ipconfig_type \<Rightarrow> oc_service \<Rightarrow> oc_service" where
  "cancel_timer t s =
     (if oc_timeout (oc_of t s) \<noteq> 0
      then unref (upd_oc t (\<lambda>c. c\<lparr>oc_timeout := 0\<rparr>) (source_remove (oc_timeout (oc_of t s)) s))
      else s)"

definition cancel_online_check :: "ipconfig_type \<Rightarrow> oc_service \<Rightarrow> oc_service" where
  "cancel_online_check t s =
     (let do_ipv4 = (t = IPV4 \<or> t = CONNMAN_IPCONFIG_TYPE_ALL); do_ipv6 = (t = IPV6 \<or> t = CONNMAN_IPCONFIG_TYPE_ALL) in
      if \<not> do_ipv4 \<and> \<not> do_ipv6 then s
      else
        let s1 = (if do_ipv4 then call (Wispr_cancel IPV4) s else s);
            s2 = (if do_ipv6 then call (Wispr_cancel IPV6) s1 else s1);
            s3 = (if do_ipv4 then cancel_timer IPV4 s2 else s2);
            s4 = (if do_ipv6 then cancel_timer IPV6 s3 else s3)
        in online_check_active_clear t s4)"

section \<open>The state of an IP configuration\<close>

text \<open>
  The reverse path filter is loosened while more than one network is connected. The count is of
  the whole program; it is kept with the service that changes it.
\<close>

definition service_rp_filter :: "oc_env \<Rightarrow> bool \<Rightarrow> oc_service \<Rightarrow> oc_service" where
  "service_rp_filter e connected s =
     (if ipconfig_of e IPV4 \<notin> {Some CONNMAN_IPCONFIG_METHOD_FIXED, Some CONNMAN_IPCONFIG_METHOD_MANUAL, Some CONNMAN_IPCONFIG_METHOD_DHCP} then s
      else if connected then
        (if connected_networks_count s = 1 then
           (let s1 = call Set_rp_filter s in
            if rp_filter_value e < 0 then s1
            else s1\<lparr>original_rp_filter := rp_filter_value e, connected_networks_count := connected_networks_count s + 1\<rparr>)
         else s\<lparr>connected_networks_count := connected_networks_count s + 1\<rparr>)
      else
        (let s1 = (if connected_networks_count s = 2 then call (Unset_rp_filter (original_rp_filter s)) s else s)
         in s1\<lparr>connected_networks_count := (if connected_networks_count s - 1 < 0 then 0 else connected_networks_count s - 1)\<rparr>))"

definition ip_state :: "oc_service \<Rightarrow> ipconfig_type \<Rightarrow> service_state" where
  "ip_state s t = (if t = IPV4 then state_ipv4 s else state_ipv6 s)"

definition enter_ip_state :: "oc_env \<Rightarrow> service_state \<Rightarrow> ipconfig_type \<Rightarrow> oc_service \<Rightarrow> oc_service" where
  "enter_ip_state e new_state t s =
     (case new_state of
        SERVICE_STATE_READY \<Rightarrow> call Set_mdns (if t = IPV4 then service_rp_filter e True s else s)
      | SERVICE_STATE_DISCONNECT \<Rightarrow> (if t = IPV4 then service_rp_filter e False s else s)
      | SERVICE_STATE_IDLE \<Rightarrow> call (Ipconfig_disable t) s
      | SERVICE_STATE_FAILURE \<Rightarrow> call (Ipconfig_disable t) s
      | _ \<Rightarrow> s)"

definition set_ip_state :: "oc_env \<Rightarrow> service_state \<Rightarrow> ipconfig_type \<Rightarrow> oc_service \<Rightarrow> oc_service" where
  "set_ip_state e new_state t s =
     (let old_state = ip_state s t;
          s1 = enter_ip_state e new_state t s;
          s2 = (if is_connected old_state \<and> \<not> is_connected new_state
                then cancel_online_check t (call (Nameserver_remove_all t) s1) else s1);
          s3 = (if t = IPV4 then s2\<lparr>state_ipv4 := new_state\<rparr> else s2\<lparr>state_ipv6 := new_state\<rparr>);
          s4 = (if \<not> is_connected old_state \<and> is_connected new_state
                then (let u = call (Nameserver_add_all t) s3 in if is_default e then call Timeserver_sync u else u) else s3)
      in call Service_indicate_state s4)"

definition ipconfig_indicate_state :: "oc_env \<Rightarrow> service_state \<Rightarrow> ipconfig_type \<Rightarrow> oc_service \<Rightarrow> unit result \<times> oc_service" where
  "ipconfig_indicate_state e new_state t s =
     (if t \<noteq> IPV4 \<and> t \<noteq> IPV6 then (Inl EINVAL, s)
      else case ipconfig_of e t of
        None \<Rightarrow> (Inl EINVAL, s)
      | Some method \<Rightarrow>
          let new_state = (if method = CONNMAN_IPCONFIG_METHOD_UNKNOWN \<or> method = CONNMAN_IPCONFIG_METHOD_OFF then SERVICE_STATE_IDLE else new_state) in
          if ip_state s t = new_state then (Inl EALREADY, s)
          else if new_state = SERVICE_STATE_DISCONNECT \<and> state s = SERVICE_STATE_IDLE then (Inl EINVAL, s)
          else (indicate_state_result e, set_ip_state e new_state t s))"

definition service_ipconfig_downgrade_online_state :: "oc_env \<Rightarrow> service_state \<Rightarrow> ipconfig_type \<Rightarrow> oc_service \<Rightarrow> bool \<times> oc_service" where
  "service_ipconfig_downgrade_online_state e st t s =
     (if is_online st then (True, snd (ipconfig_indicate_state e SERVICE_STATE_READY t s)) else (False, s))"

definition service_downgrade_online_state :: "oc_env \<Rightarrow> oc_service \<Rightarrow> bool \<times> oc_service" where
  "service_downgrade_online_state e s =
     (let (ipv4_downgraded, s1) = service_ipconfig_downgrade_online_state e (state_ipv4 s) IPV4 s;
          (ipv6_downgraded, s2) = service_ipconfig_downgrade_online_state e (state_ipv6 s1) IPV6 s1
      in (ipv4_downgraded \<or> ipv6_downgraded, s2))"

section \<open>Completing\<close>

definition reschedule_online_check :: "oc_env \<Rightarrow> ipconfig_type \<Rightarrow> oc_service \<Rightarrow> oc_service" where
  "reschedule_online_check e t s =
     (if t \<noteq> IPV4 \<and> t \<noteq> IPV6 then s
      else
        let seconds = online_check_timeout_compute_func e (oc_interval (oc_of t s));
            s1 = (call (Timeout_add t seconds) s)\<lparr>refcount := refcount s + 1, sources := (sources s)(timer_id e t \<mapsto> t)\<rparr>;
            s2 = upd_oc t (\<lambda>c. c\<lparr>oc_timeout := timer_id e t\<rparr>) s1
        in upd_oc t (\<lambda>c. if oc_interval c < max_interval e then c\<lparr>oc_interval := oc_interval c + 1\<rparr> else c) s2)"

definition handle_oneshot_online_check_success :: "oc_env \<Rightarrow> ipconfig_type \<Rightarrow> oc_service \<Rightarrow> bool \<times> oc_service" where
  "handle_oneshot_online_check_success e t s = (False, snd (ipconfig_indicate_state e SERVICE_STATE_ONLINE t s))"

definition handle_continuous_online_check_success :: "oc_env \<Rightarrow> ipconfig_type \<Rightarrow> oc_service \<Rightarrow> bool \<times> oc_service" where
  "handle_continuous_online_check_success e t s =
     (let s1 = upd_oc t (\<lambda>c. c\<lparr>oc_successes := oc_successes c + 1, oc_failures := 0\<rparr>) s;
          failures_threshold_was_met = failures_met_threshold s1;
          successes_threshold_is_met = online_check_successes_threshold_is_met e s1;
          s2 = (if failures_threshold_was_met \<and> oc_successes (oc_of t s1) = 1
                then upd_oc t (\<lambda>c. c\<lparr>oc_interval := initial_interval e\<rparr>) s1
                else if \<not> failures_threshold_was_met \<or> successes_threshold_is_met
                then upd_oc t (\<lambda>c. c\<lparr>oc_interval := max_interval e\<rparr>) s1
                else s1)
      in if \<not> failures_threshold_was_met then
           (True, if is_default e then snd (ipconfig_indicate_state e SERVICE_STATE_ONLINE t s2) else s2)
         else if successes_threshold_is_met then
           (let s3 = call Service_list_sort (online_check_state_reset e s2);
                s4 = (if is_default e then snd (ipconfig_indicate_state e SERVICE_STATE_ONLINE t s3) else s3)
            in (True, call Gateway_update s4))
         else (True, s2))"

definition handle_online_check_success :: "oc_env \<Rightarrow> ipconfig_type \<Rightarrow> bool \<Rightarrow> oc_service \<Rightarrow> bool \<times> oc_service" where
  "handle_online_check_success e t oneshot s =
     (if oneshot then handle_oneshot_online_check_success e t s else handle_continuous_online_check_success e t s)"

definition handle_oneshot_online_check_failure :: "oc_service \<Rightarrow> bool \<times> oc_service" where
  "handle_oneshot_online_check_failure s = (True, s)"

definition handle_continuous_online_check_failure :: "oc_env \<Rightarrow> ipconfig_type \<Rightarrow> oc_service \<Rightarrow> bool \<times> oc_service" where
  "handle_continuous_online_check_failure e t s =
     (let s1 = upd_oc t (\<lambda>c. c\<lparr>oc_failures := oc_failures c + 1, oc_successes := 0\<rparr>) s;
          s2 = (if oc_failures (oc_of t s1) = 1 then upd_oc t (\<lambda>c. c\<lparr>oc_interval := initial_interval e\<rparr>) s1 else s1);
          s3 = (if \<not> failures_met_threshold s2 \<and> online_check_failures_threshold_is_met e s2
                then call Gateway_update (call Service_list_sort (set_error e SERVICE_ERROR_ONLINE_CHECK_FAILED
                       (snd (service_downgrade_online_state e (online_check_successes_reset (s2\<lparr>failures_met_threshold := True\<rparr>))))))
                else s2)
      in (is_default e \<or> failures_met_threshold s3, s3))"

text \<open>A check that was cancelled is answered with \<open>-ECANCELED\<close> and ignored.\<close>

definition handle_online_check_failure :: "oc_env \<Rightarrow> ipconfig_type \<Rightarrow> bool \<Rightarrow> bool \<Rightarrow> oc_service \<Rightarrow> bool \<times> oc_service" where
  "handle_online_check_failure e t oneshot cancelled s =
     (if cancelled then (False, s)
      else if oneshot then handle_oneshot_online_check_failure s
      else handle_continuous_online_check_failure e t s)"

definition complete_online_check :: "oc_env \<Rightarrow> ipconfig_type \<Rightarrow> bool \<Rightarrow> bool \<Rightarrow> oc_service \<Rightarrow> oc_service" where
  "complete_online_check e t success cancelled s =
     (let oneshot = is_online_check_mode e ONLINE_CHECK_MODE_ONE_SHOT in
      if t \<noteq> IPV4 \<and> t \<noteq> IPV6 then s
      else
        let (reschedule, s1) =
              (if success then handle_online_check_success e t oneshot s
               else handle_online_check_failure e t oneshot cancelled s)
        in if reschedule then reschedule_online_check e t s1 else online_check_active_clear t s1)"

section \<open>Starting and repeating\<close>

text \<open>
  \<open>__connman_wispr_start\<close> of \<open>src/src/wispr.c\<close>. A failure of the preparations is answered at once:
  the callback, \<open>complete_online_check\<close>, runs before the function returns, with the error number
  without its sign, so that it never reads as a cancellation. The earlier returns answer nothing.
  The memory for the context of the request is taken to be there.
\<close>

definition connman_wispr_start :: "oc_env \<Rightarrow> ipconfig_type \<Rightarrow> oc_service \<Rightarrow> unit result \<times> oc_service" where
  "connman_wispr_start e t s =
     (let s1 = call (Wispr_start t) s in
      if \<not> wispr_ready e then (Inl EINVAL, s1)
      else if \<not> wispr_supported e then (Inl EOPNOTSUPP, s1)
      else if service_index e < 0 then (Inl EINVAL, s1)
      else if \<not> portal_allocated e then (Inl ENOMEM, s1)
      else case wispr_portal_detect e t of
             Inl err \<Rightarrow> (Inl err, complete_online_check e t False False s1)
           | Inr _ \<Rightarrow> (Inr (), s1))"

definition wispr_start :: "oc_env \<Rightarrow> ipconfig_type \<Rightarrow> oc_service \<Rightarrow> unit result \<times> oc_service" where
  "wispr_start e t s =
     (if t \<noteq> IPV4 \<and> t \<noteq> IPV6 then (Inl EINVAL, s)
      else if online_check_is_active s t then (Inl EALREADY, s)
      else
        case connman_wispr_start e t (upd_oc t (\<lambda>c. c\<lparr>oc_interval := initial_interval e\<rparr>) s) of
          (Inl err, s1) \<Rightarrow> (Inl err, s1)
        | (Inr _, s1) \<Rightarrow> (Inr (), online_check_active_set t s1))"

definition set_proxy_method :: "service_proxy_method \<Rightarrow> oc_service \<Rightarrow> oc_service" where
  "set_proxy_method method s =
     (if hidden s then s
      else let s1 = call Proxy_changed (s\<lparr>proxy := method\<rparr>)
           in if method \<noteq> SERVICE_PROXY_METHOD_AUTO then call Notify_proxy_changed s1 else s1)"

definition check_proxy_setup :: "oc_env \<Rightarrow> oc_service \<Rightarrow> bool \<times> oc_service" where
  "check_proxy_setup e s =
     (if proxy s \<noteq> SERVICE_PROXY_METHOD_UNKNOWN then (True, s)
      else if proxy_config s \<noteq> SERVICE_PROXY_METHOD_UNKNOWN \<and> (proxy_config s \<noteq> SERVICE_PROXY_METHOD_AUTO \<or> pac s \<noteq> None) then (True, s)
      else
        let s1 = call Wpad_start s in
        if wpad_start_result e < 0 then (True, set_proxy_method SERVICE_PROXY_METHOD_DIRECT s1) else (False, s1))"

definition start_online_check :: "oc_env \<Rightarrow> ipconfig_type \<Rightarrow> oc_service \<Rightarrow> unit result \<times> oc_service" where
  "start_online_check e t s =
     (if \<not> is_online_check_enabled e then (Inl EPERM, s)
      else
        let (go, s1) = (if t = IPV6 then (True, s) else check_proxy_setup e s) in
        if go then wispr_start e t (cancel_online_check t s1) else (Inr (), s1))"

definition is_connected_state :: "oc_service \<Rightarrow> ipconfig_type \<Rightarrow> bool" where
  "is_connected_state s t =
     (case t of
        CONNMAN_IPCONFIG_TYPE_UNKNOWN \<Rightarrow> False
      | CONNMAN_IPCONFIG_TYPE_IPV4 \<Rightarrow> is_connected (state_ipv4 s)
      | CONNMAN_IPCONFIG_TYPE_IPV6 \<Rightarrow> is_connected (state_ipv6 s)
      | CONNMAN_IPCONFIG_TYPE_ALL \<Rightarrow> is_connected (state_ipv4 s) \<and> is_connected (state_ipv6 s))"

definition start_online_check_if_connected_with_type :: "oc_env \<Rightarrow> ipconfig_type \<Rightarrow> oc_service \<Rightarrow> unit result \<times> oc_service" where
  "start_online_check_if_connected_with_type e t s =
     (if t \<noteq> IPV4 \<and> t \<noteq> IPV6 then (Inl EINVAL, s)
      else if \<not> is_connected_state s t then (Inl ENOTCONN, s)
      else wispr_start e t s)"

definition start_online_check_if_connected :: "oc_env \<Rightarrow> oc_service \<Rightarrow> unit result \<times> oc_service" where
  "start_online_check_if_connected e s =
     (if \<not> is_online_check_enabled e then (Inl EPERM, s)
      else
        let (status4, s1) = start_online_check_if_connected_with_type e IPV4 s;
            (status6, s2) = start_online_check_if_connected_with_type e IPV6 s1
        in (case status4 of Inl err \<Rightarrow> (Inl err, s2) | Inr _ \<Rightarrow> (status6, s2)))"

text \<open>The timer of a repetition fires: the result of the start is not looked at.\<close>

definition redo_wispr :: "oc_env \<Rightarrow> ipconfig_type \<Rightarrow> oc_service \<Rightarrow> oc_service" where
  "redo_wispr e t s = unref (snd (connman_wispr_start e t s))"

definition redo_wispr_ipv4 :: "oc_env \<Rightarrow> oc_service \<Rightarrow> oc_service" where
  "redo_wispr_ipv4 e s = redo_wispr e IPV4 (upd_oc IPV4 (\<lambda>c. c\<lparr>oc_timeout := 0\<rparr>) s)"

definition redo_wispr_ipv6 :: "oc_env \<Rightarrow> oc_service \<Rightarrow> oc_service" where
  "redo_wispr_ipv6 e s = redo_wispr e IPV6 (upd_oc IPV6 (\<lambda>c. c\<lparr>oc_timeout := 0\<rparr>) s)"

text \<open>
  What can happen to the checks of a service: its own functions are called from elsewhere, a
  request is answered, or a timer of the main loop fires, which removes it after its callback.
\<close>

datatype oc_event =
    Start ipconfig_type | Start_if_connected | Wispr_begin ipconfig_type | Answer ipconfig_type bool bool
  | Fire nat | Cancel ipconfig_type | Indicate service_state ipconfig_type | Downgrade

fun oc_step :: "oc_env \<Rightarrow> oc_event \<Rightarrow> oc_service \<Rightarrow> oc_service option" where
  "oc_step e (Start t) s = Some (snd (start_online_check e t s))"
| "oc_step e Start_if_connected s = Some (snd (start_online_check_if_connected e s))"
| "oc_step e (Wispr_begin t) s = Some (snd (wispr_start e t s))"
| "oc_step e (Answer t success cancelled) s = Some (complete_online_check e t success cancelled s)"
| "oc_step e (Fire tag) s =
     (case sources s tag of
        None \<Rightarrow> None
      | Some t \<Rightarrow>
          let u = (if t = IPV4 then redo_wispr_ipv4 e s else redo_wispr_ipv6 e s)
          in Some (u\<lparr>sources := (sources u)(tag := None)\<rparr>))"
| "oc_step e (Cancel t) s = Some (cancel_online_check t s)"
| "oc_step e (Indicate st t) s = Some (snd (ipconfig_indicate_state e st t s))"
| "oc_step e Downgrade s = Some (snd (service_downgrade_online_state e s))"

section \<open>What the operations keep\<close>

text \<open>The fields that the changes of the state of an IP configuration leave alone.\<close>

definition same_checks :: "oc_service \<Rightarrow> oc_service \<Rightarrow> bool" where
  "same_checks s u \<longleftrightarrow> online_check_state_ipv4 u = online_check_state_ipv4 s \<and> online_check_state_ipv6 u = online_check_state_ipv6 s \<and>
     failures_met_threshold u = failures_met_threshold s \<and> refcount u = refcount s \<and> sources u = sources s"

definition same_states :: "oc_service \<Rightarrow> oc_service \<Rightarrow> bool" where
  "same_states s u \<longleftrightarrow> state_ipv4 u = state_ipv4 s \<and> state_ipv6 u = state_ipv6 s"

named_theorems checks_intro \<open>the operations that keep the checks and states of a service\<close>

lemma same_checks_refl [simp]: "same_checks s s" and same_states_refl [simp]: "same_states s s"
  by (simp_all add: same_checks_def same_states_def)

lemma same_checks_trans: "same_checks s t \<Longrightarrow> same_checks t u \<Longrightarrow> same_checks s u"
  and same_states_trans: "same_states s t \<Longrightarrow> same_states t u \<Longrightarrow> same_states s u"
  by (simp_all add: same_checks_def same_states_def)

lemma call_keeps [checks_intro]: "same_checks s (call c s)" "same_states s (call c s)"
  by (simp_all add: same_checks_def same_states_def call_def)

lemma call_fields [simp]:
  "online_check_state_ipv4 (call c s) = online_check_state_ipv4 s" "online_check_state_ipv6 (call c s) = online_check_state_ipv6 s"
  "failures_met_threshold (call c s) = failures_met_threshold s" "refcount (call c s) = refcount s" "sources (call c s) = sources s"
  "state_ipv4 (call c s) = state_ipv4 s" "state_ipv6 (call c s) = state_ipv6 s" "oc_of t (call c s) = oc_of t s"
  "connected_networks_count (call c s) = connected_networks_count s" "ip_state (call c s) t = ip_state s t" "state (call c s) = state s"
  by (simp_all add: call_def oc_of_def ip_state_def)

lemma rp_filter_keeps [checks_intro]: "same_checks s (service_rp_filter e b s)" "same_states s (service_rp_filter e b s)"
  by (simp_all add: service_rp_filter_def same_checks_def same_states_def Let_def)

lemma enter_ip_state_keeps: "same_checks s (enter_ip_state e st t s) \<and> same_states s (enter_ip_state e st t s)"
  by (cases st) (auto simp: enter_ip_state_def intro: same_checks_trans[OF _ call_keeps(1)] same_states_trans[OF _ call_keeps(2)] checks_intro)

text \<open>Indicating a connected state keeps the checks and the other kind of configuration.\<close>

definition usable :: "oc_env \<Rightarrow> bool" where
  "usable e \<longleftrightarrow> (\<forall>t m. ipconfig_of e t = Some m \<longrightarrow> m \<noteq> CONNMAN_IPCONFIG_METHOD_UNKNOWN \<and> m \<noteq> CONNMAN_IPCONFIG_METHOD_OFF)"

lemma set_ip_state_connected:
  assumes "is_connected new"
  shows "same_checks s (set_ip_state e new t s) \<and>
    (if t = IPV4 then state_ipv4 (set_ip_state e new t s) = new \<and> state_ipv6 (set_ip_state e new t s) = state_ipv6 s
     else state_ipv6 (set_ip_state e new t s) = new \<and> state_ipv4 (set_ip_state e new t s) = state_ipv4 s)"
  using enter_ip_state_keeps[of s e new t] assms by (auto simp: set_ip_state_def Let_def same_checks_def same_states_def)

definition conn4 :: "oc_service \<Rightarrow> bool" where
  "conn4 s \<longleftrightarrow> is_connected (state_ipv4 s) \<and> \<not> is_connected (state_ipv6 s)"

lemma indicate_connected:
  assumes "is_connected new" "usable e"
  shows "same_checks s (snd (ipconfig_indicate_state e new t s))"
    and "t = IPV4 \<Longrightarrow> conn4 s \<Longrightarrow> conn4 (snd (ipconfig_indicate_state e new t s))"
  using set_ip_state_connected[OF assms(1), of s e t] assms
  by (auto simp: ipconfig_indicate_state_def Let_def usable_def conn4_def split: option.splits)

lemma downgrade_keeps:
  assumes "usable e"
  shows "same_checks s (snd (service_downgrade_online_state e s))" "conn4 s \<Longrightarrow> conn4 (snd (service_downgrade_online_state e s))"
proof -
  have r: "is_connected SERVICE_STATE_READY" by (simp add: is_connected_def)
  define s1 where "s1 = snd (service_ipconfig_downgrade_online_state e (state_ipv4 s) IPV4 s)"
  have 1: "same_checks s s1" "conn4 s \<Longrightarrow> conn4 s1"
    using indicate_connected[OF r assms, where s = s and t = IPV4] by (auto simp: s1_def service_ipconfig_downgrade_online_state_def)
  have e: "snd (service_downgrade_online_state e s) = snd (service_ipconfig_downgrade_online_state e (state_ipv6 s1) IPV6 s1)"
    by (simp add: service_downgrade_online_state_def s1_def split: prod.split)
  have "same_checks s1 (snd (service_ipconfig_downgrade_online_state e (state_ipv6 s1) IPV6 s1))"
    using indicate_connected(1)[OF r assms, of s1 IPV6] by (simp add: service_ipconfig_downgrade_online_state_def)
  then show "same_checks s (snd (service_downgrade_online_state e s))" using 1(1) same_checks_trans unfolding e by blast
  assume "conn4 s"
  then have "conn4 s1" by (rule 1(2))
  then show "conn4 (snd (service_downgrade_online_state e s))"
    unfolding e by (auto simp: service_ipconfig_downgrade_online_state_def conn4_def is_online_def is_connected_def)
qed

lemma set_error_keeps [checks_intro]: "same_checks s (set_error e err s)" "same_states s (set_error e err s)"
  by (simp_all add: set_error_def Let_def same_checks_def same_states_def)

section \<open>The counters of a service with one IP configuration\<close>

text \<open>How many results at the end of a list agree.\<close>

definition trailing :: "bool \<Rightarrow> bool list \<Rightarrow> nat" where
  "trailing v rs = length (takeWhile (\<lambda>r. r = v) (rev rs))"

lemma trailing_snoc: "trailing v (rs @ [r]) = (if r = v then trailing v rs + 1 else 0)"
  by (simp add: trailing_def)

lemma trailing_bound: "trailing v rs \<le> length rs"
  using length_takeWhile_le[of "\<lambda>r. r = v" "rev rs"] by (simp add: trailing_def)

definition view :: "oc_service \<Rightarrow> u32 \<times> u32 \<times> bool" where
  "view s = (oc_failures (online_check_state_ipv4 s), oc_successes (online_check_state_ipv4 s), failures_met_threshold s)"

lemma view_cong: "same_checks s u \<Longrightarrow> view u = view s"
  by (simp add: same_checks_def view_def)

lemma reschedule_view: "view (reschedule_online_check e t s) = view s \<and> conn4 (reschedule_online_check e t s) = conn4 s"
  by (simp add: reschedule_online_check_def view_def upd_oc_def oc_of_def conn4_def Let_def call_def)

lemma active_clear_view: "view (online_check_active_clear t s) = view s \<and> conn4 (online_check_active_clear t s) = conn4 s"
  by (simp add: online_check_active_clear_def online_check_active_set_value_def view_def upd_oc_def conn4_def Let_def)

lemma success_view:
  assumes "usable e" "conn4 s" "check_mode e = ONLINE_CHECK_MODE_CONTINUOUS" "view s = (f, n, met)"
  shows "view (complete_online_check e IPV4 True c s) =
      (0, if met \<and> successes_threshold e \<le> n + 1 then 0 else n + 1, met \<and> \<not> successes_threshold e \<le> n + 1) \<and>
    conn4 (complete_online_check e IPV4 True c s)"
proof -
  let ?s1 = "upd_oc IPV4 (\<lambda>c. c\<lparr>oc_successes := oc_successes c + 1, oc_failures := 0\<rparr>) s"
  define s2 where "s2 = (if met \<and> oc_successes (oc_of IPV4 ?s1) = 1
                then upd_oc IPV4 (\<lambda>c. c\<lparr>oc_interval := initial_interval e\<rparr>) ?s1
                else if \<not> met \<or> successes_threshold e \<le> n + 1
                then upd_oc IPV4 (\<lambda>c. c\<lparr>oc_interval := max_interval e\<rparr>) ?s1
                else ?s1)"
  have m: "failures_met_threshold ?s1 = met" "online_check_successes_threshold_is_met e ?s1 \<longleftrightarrow> successes_threshold e \<le> n + 1"
    using assms(2,4) by (auto simp: view_def upd_oc_def online_check_successes_threshold_is_met_def conn4_def)
  have v2: "view s2 = (0, n + 1, met)" "conn4 s2"
    using assms(2,4) by (auto simp: s2_def view_def upd_oc_def conn4_def)
  have on: "is_connected SERVICE_STATE_ONLINE" by (simp add: is_connected_def)
  have ind: "view (snd (ipconfig_indicate_state e SERVICE_STATE_ONLINE IPV4 u)) = view u \<and> (conn4 u \<longrightarrow> conn4 (snd (ipconfig_indicate_state e SERVICE_STATE_ONLINE IPV4 u)))" for u
    using indicate_connected[OF on assms(1), where s = u and t = IPV4] view_cong by simp
  let ?s3 = "call Service_list_sort (online_check_state_reset e s2)"
  have v3: "view ?s3 = (0, 0, False)" "conn4 ?s3"
    using v2 by (simp_all add: view_def online_check_state_reset_def clear_error_def set_error_def online_check_successes_reset_def
        online_check_failures_reset_def upd_oc_def conn4_def Let_def)
  have h: "handle_continuous_online_check_success e IPV4 s =
      (True, if \<not> met then (if is_default e then snd (ipconfig_indicate_state e SERVICE_STATE_ONLINE IPV4 s2) else s2)
       else if successes_threshold e \<le> n + 1
         then call Gateway_update (if is_default e then snd (ipconfig_indicate_state e SERVICE_STATE_ONLINE IPV4 ?s3) else ?s3)
       else s2)"
    by (simp only: handle_continuous_online_check_success_def Let_def m s2_def[symmetric] if_distrib[of "Pair True", symmetric] split: if_split)
  have g: "view (call Gateway_update u) = view u \<and> conn4 (call Gateway_update u) = conn4 u" for u by (simp add: view_def conn4_def)
  have "view (snd (handle_continuous_online_check_success e IPV4 s)) =
      (0, if met \<and> successes_threshold e \<le> n + 1 then 0 else n + 1, met \<and> \<not> successes_threshold e \<le> n + 1) \<and>
      conn4 (snd (handle_continuous_online_check_success e IPV4 s))"
    unfolding h snd_conv using v2 v3 ind g by (cases met; cases "is_default e"; cases "successes_threshold e \<le> n + 1") simp_all
  moreover have "complete_online_check e IPV4 True c s = reschedule_online_check e IPV4 (snd (handle_continuous_online_check_success e IPV4 s))"
    using h assms(3) by (simp add: complete_online_check_def is_online_check_mode_def handle_online_check_success_def)
  ultimately show ?thesis using reschedule_view by simp
qed

lemma failure_view:
  assumes "usable e" "conn4 s" "check_mode e = ONLINE_CHECK_MODE_CONTINUOUS" "view s = (f, n, met)"
  shows "view (complete_online_check e IPV4 False False s) = (f + 1, 0, met \<or> failures_threshold e \<le> f + 1) \<and>
    conn4 (complete_online_check e IPV4 False False s)"
proof -
  let ?s1 = "upd_oc IPV4 (\<lambda>c. c\<lparr>oc_failures := oc_failures c + 1, oc_successes := 0\<rparr>) s"
  define s2 where "s2 = (if oc_failures (oc_of IPV4 ?s1) = 1 then upd_oc IPV4 (\<lambda>c. c\<lparr>oc_interval := initial_interval e\<rparr>) ?s1 else ?s1)"
  have v2: "view s2 = (f + 1, 0, met)" "conn4 s2"
    using assms(2,4) by (auto simp: s2_def view_def upd_oc_def conn4_def)
  have m: "failures_met_threshold s2 = met" "online_check_failures_threshold_is_met e s2 \<longleftrightarrow> failures_threshold e \<le> f + 1"
    using v2 by (auto simp: view_def online_check_failures_threshold_is_met_def conn4_def Let_def)
  let ?u = "online_check_successes_reset (s2\<lparr>failures_met_threshold := True\<rparr>)"
  define s3 where "s3 = call Gateway_update (call Service_list_sort (set_error e SERVICE_ERROR_ONLINE_CHECK_FAILED
                       (snd (service_downgrade_online_state e ?u))))"
  have "view ?u = (f + 1, 0, True)" "conn4 ?u" using v2 by (simp_all add: view_def online_check_successes_reset_def upd_oc_def conn4_def)
  then have "view (snd (service_downgrade_online_state e ?u)) = (f + 1, 0, True)" "conn4 (snd (service_downgrade_online_state e ?u))"
    using downgrade_keeps[OF assms(1), of ?u] view_cong by auto
  then have v3: "view s3 = (f + 1, 0, True)" "conn4 s3"
    using set_error_keeps[of "snd (service_downgrade_online_state e ?u)" e SERVICE_ERROR_ONLINE_CHECK_FAILED]
    by (simp_all add: s3_def view_def conn4_def same_checks_def same_states_def)
  have h: "handle_continuous_online_check_failure e IPV4 s =
      (let s4 = (if \<not> met \<and> failures_threshold e \<le> f + 1 then s3 else s2) in (is_default e \<or> failures_met_threshold s4, s4))"
    by (simp only: handle_continuous_online_check_failure_def Let_def s2_def[symmetric] m s3_def[symmetric])
  have "view (snd (handle_continuous_online_check_failure e IPV4 s)) = (f + 1, 0, met \<or> failures_threshold e \<le> f + 1) \<and>
      conn4 (snd (handle_continuous_online_check_failure e IPV4 s))"
    unfolding h Let_def snd_conv using v2 v3 by auto
  moreover have "complete_online_check e IPV4 False False s =
      (if fst (handle_continuous_online_check_failure e IPV4 s)
       then reschedule_online_check e IPV4 (snd (handle_continuous_online_check_failure e IPV4 s))
       else online_check_active_clear IPV4 (snd (handle_continuous_online_check_failure e IPV4 s)))"
    using assms(3) by (simp add: complete_online_check_def is_online_check_mode_def handle_online_check_failure_def split: prod.split)
  ultimately show ?thesis using reschedule_view active_clear_view by simp
qed

definition run_checks :: "(oc_env \<times> bool) list \<Rightarrow> oc_service \<Rightarrow> oc_service" where
  "run_checks rs s = fold (\<lambda>(e, success) s. complete_online_check e IPV4 success False s) rs s"

definition check_env :: "u32 \<Rightarrow> u32 \<Rightarrow> oc_env \<Rightarrow> bool" where
  "check_env F S e \<longleftrightarrow> usable e \<and> check_mode e = ONLINE_CHECK_MODE_CONTINUOUS \<and> failures_threshold e = F \<and> successes_threshold e = S"

lemma unat_word_Suc: "unat w = k \<Longrightarrow> k + 1 < 2 ^ 32 \<Longrightarrow> unat (w + 1 :: u32) = k + 1"
  by (simp add: unat_word_ariths)

lemma word_le_iff: "(v :: u32) \<le> w \<longleftrightarrow> unat v \<le> unat w"
  by (simp add: word_le_nat_alt)

lemma run_checks_view:
  assumes "0 < F" "0 < S" "conn4 s" "view s = (0, 0, False)"
  shows "list_all (\<lambda>(e, _). check_env F S e) rs \<Longrightarrow> length rs < 2 ^ 32 \<Longrightarrow>
    conn4 (run_checks rs s) \<and> (case view (run_checks rs s) of (f, n, met) \<Rightarrow>
      unat f = trailing False (map snd rs) \<and> (met \<longrightarrow> unat n = trailing True (map snd rs)) \<and> (\<not> met \<longrightarrow> f < F))"
proof (induction rs rule: rev_induct)
  case Nil
  then show ?case using assms by (simp add: run_checks_def trailing_def word_less_nat_alt)
next
  case (snoc r rs)
  obtain e ok where r: "r = (e, ok)" by force
  have e: "usable e" "check_mode e = ONLINE_CHECK_MODE_CONTINUOUS" "failures_threshold e = F" "successes_threshold e = S"
    using snoc.prems(1) r by (auto simp: check_env_def)
  obtain f n met where v: "view (run_checks rs s) = (f, n, met)" by (metis prod_cases3)
  have IH: "conn4 (run_checks rs s)" "unat f = trailing False (map snd rs)" "met \<Longrightarrow> unat n = trailing True (map snd rs)" "\<not> met \<Longrightarrow> f < F"
    using snoc v by auto
  have l: "trailing b (map snd rs) + 1 < 2 ^ 32" for b using trailing_bound[of b "map snd rs"] snoc.prems(2) by simp
  have f1: "unat (f + 1) = trailing False (map snd rs) + 1" and n1: "met \<Longrightarrow> unat (n + 1) = trailing True (map snd rs) + 1"
    using unat_word_Suc IH(2,3) l by blast+
  have run: "run_checks (rs @ [r]) s = complete_online_check e IPV4 ok False (run_checks rs s)" by (simp add: run_checks_def r)
  show ?case
  proof (cases ok)
    case True
    then show ?thesis
      unfolding run using success_view[OF e(1) IH(1) e(2) v, of False] assms(1,2) n1 e(4)
      by (auto simp: r trailing_snoc word_le_iff word_less_nat_alt)
  next
    case False
    then show ?thesis
      unfolding run using failure_view[OF e(1) IH(1) e(2) v] f1 e(3) by (auto simp: r trailing_snoc not_le)
  qed
qed

section \<open>Timers and references\<close>

text \<open>
  Each timer of the main loop holds one reference to the service, and the identifier that the
  state of a kind of check keeps is one of a timer of that kind. The timers of \<open>R\<close> are those whose
  callback runs: no state of a check keeps them any more.
\<close>

definition timer_ok :: "nat set \<Rightarrow> ipconfig_type \<Rightarrow> oc_service \<Rightarrow> bool" where
  "timer_ok R t s \<longleftrightarrow> (oc_timeout (oc_of t s) \<noteq> 0 \<longrightarrow> sources s (oc_timeout (oc_of t s)) = Some t \<and> oc_timeout (oc_of t s) \<notin> R)"

definition refs_ok :: "int \<Rightarrow> nat set \<Rightarrow> oc_service \<Rightarrow> bool" where
  "refs_ok base R s \<longleftrightarrow> finite (dom (sources s)) \<and> refcount s = base + int (card (dom (sources s))) \<and>
     ran (sources s) \<subseteq> {IPV4, IPV6} \<and> R \<subseteq> dom (sources s) \<and> timer_ok R IPV4 s \<and> timer_ok R IPV6 s"

text \<open>The main loop gives out identifiers that are not zero and not in use.\<close>

definition fresh_timer :: "oc_env \<Rightarrow> ipconfig_type \<Rightarrow> oc_service \<Rightarrow> bool" where
  "fresh_timer e t s \<longleftrightarrow> timer_id e t \<noteq> 0 \<and> sources s (timer_id e t) = None"

definition fresh_timers :: "oc_env \<Rightarrow> oc_service \<Rightarrow> bool" where
  "fresh_timers e s \<longleftrightarrow> fresh_timer e IPV4 s \<and> fresh_timer e IPV6 s \<and> timer_id e IPV4 \<noteq> timer_id e IPV6"

inductive oc_reach :: "int \<Rightarrow> oc_service \<Rightarrow> bool" for base where
  init: "0 < base \<Longrightarrow> refcount s = base \<Longrightarrow> sources s = Map.empty \<Longrightarrow>
    oc_timeout (online_check_state_ipv4 s) = 0 \<Longrightarrow> oc_timeout (online_check_state_ipv6 s) = 0 \<Longrightarrow> oc_reach base s"
| step: "oc_reach base s \<Longrightarrow> refcount s + 2 < 2 ^ 31 \<Longrightarrow> fresh_timers e s \<Longrightarrow> oc_step e ev s = Some u \<Longrightarrow> oc_reach base u"

lemmas oc_update_defs = upd_oc_def oc_of_def unref_def call_def source_remove_def online_check_active_clear_def online_check_active_set_def
  online_check_active_set_value_def Let_def

text \<open>
  Operations that add no timer keep \<open>refs_ok\<close>; those that may add the one of a kind of check keep
  it when its identifier is fresh.
\<close>

definition shrinks :: "oc_service \<Rightarrow> oc_service \<Rightarrow> bool" where
  "shrinks s u \<longleftrightarrow> (\<forall>base R. refs_ok base R s \<longrightarrow> refs_ok base R u) \<and> (\<forall>i. sources s i = None \<longrightarrow> sources u i = None)"

definition grows :: "oc_env \<Rightarrow> ipconfig_type \<Rightarrow> oc_service \<Rightarrow> oc_service \<Rightarrow> bool" where
  "grows e t s u \<longleftrightarrow> (\<forall>base R. refs_ok base R s \<longrightarrow> fresh_timer e t s \<longrightarrow> refs_ok base R u) \<and>
     (\<forall>i. i \<noteq> timer_id e t \<longrightarrow> sources s i = None \<longrightarrow> sources u i = None)"

named_theorems shrinks_intro \<open>the operations that add no timer\<close>

lemma shrinks_refl [shrinks_intro]: "shrinks s s"
  by (simp add: shrinks_def)

lemma shrinks_trans: "shrinks s t \<Longrightarrow> shrinks t u \<Longrightarrow> shrinks s u"
  unfolding shrinks_def by blast

lemma shrinks_grows: "shrinks s u \<Longrightarrow> grows e t s u"
  unfolding shrinks_def grows_def by blast

lemma shrinks_then_grows: "shrinks s s' \<Longrightarrow> grows e t s' u \<Longrightarrow> grows e t s u"
  unfolding shrinks_def grows_def fresh_timer_def by blast

lemma grows_then_shrinks: "grows e t s s' \<Longrightarrow> shrinks s' u \<Longrightarrow> grows e t s u"
  unfolding shrinks_def grows_def by blast

lemma shrinks_same: "same_checks s u \<Longrightarrow> shrinks s u"
  by (simp add: same_checks_def shrinks_def refs_ok_def timer_ok_def oc_of_def)

lemma shrinks_upd [shrinks_intro]: "(\<And>c. oc_timeout (g c) = oc_timeout c) \<Longrightarrow> shrinks s (upd_oc t g s)"
  by (auto simp: shrinks_def refs_ok_def timer_ok_def upd_oc_def oc_of_def)

lemma shrinks_clear [shrinks_intro]: "shrinks s (online_check_active_set_value t b s)"
  unfolding online_check_active_set_value_def Let_def
  by (cases "t = IPV4"; cases "t = IPV6"; cases "t = CONNMAN_IPCONFIG_TYPE_ALL")
    (auto intro: shrinks_intro shrinks_trans[OF shrinks_upd shrinks_upd])

lemma shrinks_cancel_timer:
  assumes "t = IPV4 \<or> t = IPV6"
  shows "shrinks s (cancel_timer t s)"
proof (cases "oc_timeout (oc_of t s) = 0")
  case False
  let ?i = "oc_timeout (oc_of t s)" and ?u = "cancel_timer t s"
  have u: "sources ?u = (sources s)(?i := None)" "refcount ?u = refcount s - 1" "oc_timeout (oc_of t ?u) = 0"
      "t' \<noteq> t \<Longrightarrow> t' = IPV4 \<or> t' = IPV6 \<Longrightarrow> oc_of t' ?u = oc_of t' s" for t'
    using False assms by (auto simp: cancel_timer_def oc_update_defs)
  have "refs_ok base R ?u" if r: "refs_ok base R s" for base R
  proof -
    have m: "sources s ?i = Some t" "?i \<notin> R" using r assms False by (auto simp: refs_ok_def timer_ok_def)
    have "card (dom (sources s)) = Suc (card (dom (sources s) - {?i}))"
      using r m(1) by (subst card.remove[of _ ?i]) (auto simp: refs_ok_def)
    moreover have "timer_ok R t' ?u" if "t' = IPV4 \<or> t' = IPV6" for t'
      using r m u(4)[of t'] that by (cases "t' = t") (auto simp: refs_ok_def timer_ok_def u(1,3))
    ultimately show ?thesis using r m(2) by (auto simp: refs_ok_def u(1,2) ran_def dom_fun_upd)
  qed
  then show ?thesis by (simp add: shrinks_def u(1))
qed (simp add: cancel_timer_def shrinks_refl)

lemma shrinks_cancel [shrinks_intro]: "shrinks s (cancel_online_check t s)"
proof -
  have c: "shrinks s u \<Longrightarrow> shrinks s (call c u)" for s u c using shrinks_trans shrinks_same call_keeps(1) by blast
  have k: "shrinks s u \<Longrightarrow> t = IPV4 \<or> t = IPV6 \<Longrightarrow> shrinks s (cancel_timer t u)" for s u t using shrinks_trans shrinks_cancel_timer by blast
  show ?thesis
    by (auto simp: cancel_online_check_def online_check_active_clear_def Let_def intro!: shrinks_trans[OF _ shrinks_clear] c k shrinks_refl)
qed

lemma shrinks_set_ip_state: "shrinks s (set_ip_state e new t s)"
proof -
  let ?s1 = "enter_ip_state e new t s" and ?u = "set_ip_state e new t s"
  let ?s2 = "if is_connected (ip_state s t) \<and> \<not> is_connected new then cancel_online_check t (call (Nameserver_remove_all t) ?s1) else ?s1"
  have "shrinks s ?s1" using shrinks_same enter_ip_state_keeps by blast
  moreover have "shrinks ?s1 ?s2" using shrinks_trans[OF shrinks_same[OF call_keeps(1)] shrinks_cancel] by (simp add: shrinks_refl)
  moreover have "shrinks ?s2 ?u" by (intro shrinks_same) (simp add: set_ip_state_def Let_def same_checks_def)
  ultimately show ?thesis using shrinks_trans by blast
qed

lemma shrinks_indicate [shrinks_intro]: "shrinks s (snd (ipconfig_indicate_state e st t s))"
  by (auto simp: ipconfig_indicate_state_def Let_def shrinks_refl shrinks_set_ip_state split: option.splits)

lemma shrinks_downgrade [shrinks_intro]: "shrinks s (snd (service_downgrade_online_state e s))"
proof -
  have d: "shrinks s (snd (service_ipconfig_downgrade_online_state e st t s))" for st t s
    by (simp add: service_ipconfig_downgrade_online_state_def shrinks_refl shrinks_indicate)
  have "snd (service_downgrade_online_state e s) = (let u = snd (service_ipconfig_downgrade_online_state e (state_ipv4 s) IPV4 s)
      in snd (service_ipconfig_downgrade_online_state e (state_ipv6 u) IPV6 u))"
    by (simp add: service_downgrade_online_state_def Let_def split: prod.split)
  then show ?thesis using shrinks_trans[OF d d] by (simp add: Let_def)
qed

lemma shrinks_met [shrinks_intro]: "shrinks s (s\<lparr>failures_met_threshold := m\<rparr>)"
  by (simp add: shrinks_def refs_ok_def timer_ok_def oc_of_def)

text \<open>The same under a state reached already, for chains of operations.\<close>

lemma shrinks_chain:
  "shrinks s u \<Longrightarrow> shrinks s (call c u)" "shrinks s u \<Longrightarrow> shrinks s (set_error e err u)"
  "shrinks s u \<Longrightarrow> shrinks s (u\<lparr>failures_met_threshold := m\<rparr>)"
  "shrinks s u \<Longrightarrow> shrinks s (snd (ipconfig_indicate_state e st t u))"
  "shrinks s u \<Longrightarrow> shrinks s (snd (service_downgrade_online_state e u))"
  "shrinks s u \<Longrightarrow> (\<And>c. oc_timeout (g c) = oc_timeout c) \<Longrightarrow> shrinks s (upd_oc t g u)"
  "shrinks s u \<Longrightarrow> shrinks s (online_check_active_set_value t b u)"
  "shrinks s u \<Longrightarrow> shrinks s (cancel_online_check t u)"
  using shrinks_trans shrinks_same[OF call_keeps(1)] shrinks_same[OF set_error_keeps(1)] shrinks_intro by metis+

lemma shrinks_success: "shrinks s (snd (handle_online_check_success e t oneshot s))"
  by (auto simp: handle_online_check_success_def handle_oneshot_online_check_success_def handle_continuous_online_check_success_def Let_def
      online_check_state_reset_def clear_error_def online_check_successes_reset_def online_check_failures_reset_def
      intro!: shrinks_chain shrinks_refl)

lemma shrinks_failure: "shrinks s (snd (handle_online_check_failure e t oneshot cancelled s))"
  by (auto simp: handle_online_check_failure_def handle_oneshot_online_check_failure_def handle_continuous_online_check_failure_def Let_def
      online_check_successes_reset_def intro!: shrinks_chain shrinks_refl)

lemma grows_reschedule: "grows e t s (reschedule_online_check e t s)"
proof (cases "t = IPV4 \<or> t = IPV6")
  case True
  let ?u = "reschedule_online_check e t s"
  have u: "sources ?u = (sources s)(timer_id e t \<mapsto> t)" "refcount ?u = refcount s + 1" "oc_timeout (oc_of t ?u) = timer_id e t"
      "t' \<noteq> t \<Longrightarrow> t' = IPV4 \<or> t' = IPV6 \<Longrightarrow> oc_of t' ?u = oc_of t' s" for t'
    using True by (auto simp: reschedule_online_check_def oc_update_defs)
  have "refs_ok base R ?u" if r: "refs_ok base R s" and f: "fresh_timer e t s" for base R
  proof -
    have "timer_id e t \<notin> dom (sources s)" "timer_id e t \<notin> R" using r f by (auto simp: refs_ok_def fresh_timer_def)
    moreover from this have "timer_ok R t' ?u" if "t' = IPV4 \<or> t' = IPV6" for t'
      using r f u(4)[of t'] that by (cases "t' = t") (auto simp: refs_ok_def timer_ok_def u(1,3))
    ultimately show ?thesis using r True by (auto simp: refs_ok_def u(1,2) ran_def)
  qed
  then show ?thesis by (simp add: grows_def u(1))
qed (simp add: reschedule_online_check_def shrinks_grows shrinks_refl)

lemma grows_complete: "grows e t s (complete_online_check e t success cancelled s)"
proof -
  define h where "h = (if success then handle_online_check_success e t (is_online_check_mode e ONLINE_CHECK_MODE_ONE_SHOT) s
      else handle_online_check_failure e t (is_online_check_mode e ONLINE_CHECK_MODE_ONE_SHOT) cancelled s)"
  have h: "shrinks s (snd h)" by (simp add: h_def shrinks_success shrinks_failure)
  have "complete_online_check e t success cancelled s =
      (if t \<noteq> IPV4 \<and> t \<noteq> IPV6 then s else if fst h then reschedule_online_check e t (snd h) else online_check_active_set_value t False (snd h))"
    unfolding complete_online_check_def Let_def h_def[symmetric] online_check_active_clear_def by (simp split: prod.split)
  then show ?thesis
    using shrinks_then_grows[OF h grows_reschedule] shrinks_grows[OF shrinks_chain(7)[OF h]] shrinks_grows[OF shrinks_refl] by simp
qed

lemma grows_wispr: "grows e t s (snd (connman_wispr_start e t s))"
  using shrinks_then_grows[OF shrinks_same[OF call_keeps(1)] grows_complete] shrinks_grows[OF shrinks_same[OF call_keeps(1)]]
  by (auto simp: connman_wispr_start_def Let_def split: sum.split)

lemma grows_start: "grows e t s (snd (wispr_start e t s))"
proof -
  let ?s = "upd_oc t (\<lambda>c. c\<lparr>oc_interval := initial_interval e\<rparr>) s"
  have g: "grows e t s (snd (connman_wispr_start e t ?s))" by (rule shrinks_then_grows[OF shrinks_upd grows_wispr]) simp
  then have "grows e t s (online_check_active_set t (snd (connman_wispr_start e t ?s)))"
    unfolding online_check_active_set_def by (rule grows_then_shrinks[OF _ shrinks_clear])
  with g show ?thesis
    by (auto simp: wispr_start_def shrinks_grows shrinks_refl split: prod.split sum.split dest: arg_cong[of _ _ snd])
qed

lemma refs_start_connected:
  assumes "refs_ok base R s" "fresh_timers e s"
  shows "refs_ok base R (snd (start_online_check_if_connected e s))"
proof -
  have g: "grows e t s (snd (start_online_check_if_connected_with_type e t s))" for t s
    by (simp add: start_online_check_if_connected_with_type_def shrinks_grows shrinks_refl grows_start)
  let ?s1 = "snd (start_online_check_if_connected_with_type e IPV4 s)"
  have "refs_ok base R ?s1" "fresh_timer e IPV6 ?s1"
    using g[of IPV4 s] assms by (auto simp: grows_def fresh_timers_def fresh_timer_def)
  then have "refs_ok base R (snd (start_online_check_if_connected_with_type e IPV6 ?s1))" using g[of IPV6 ?s1] by (simp add: grows_def)
  then show ?thesis using assms(1) by (auto simp: start_online_check_if_connected_def split: prod.split sum.split)
qed

lemma shrinks_proxy: "shrinks s (snd (check_proxy_setup e s))"
  by (rule shrinks_same) (simp add: check_proxy_setup_def set_proxy_method_def Let_def same_checks_def)

lemma grows_start_check: "grows e t s (snd (start_online_check e t s))"
proof -
  have "grows e t s (snd (wispr_start e t (cancel_online_check t s1)))" if "shrinks s s1" for s1
    using that shrinks_then_grows[OF shrinks_chain(8) grows_start] by blast
  then show ?thesis
    using shrinks_proxy[of s e] shrinks_refl[of s]
    by (auto simp: start_online_check_def shrinks_grows split: prod.split dest: arg_cong[of _ _ snd])
qed

lemma other_kind:
  assumes "t \<noteq> IPV4" "t \<noteq> IPV6"
  shows "shrinks s (snd (start_online_check e t s))" "shrinks s (snd (wispr_start e t s))" "shrinks s (complete_online_check e t success cancelled s)"
  using assms shrinks_proxy[of s e] shrinks_refl[of s]
  by (auto simp: start_online_check_def wispr_start_def complete_online_check_def split: prod.split dest: arg_cong[of _ _ snd] intro: shrinks_chain)

lemma refs_fire:
  assumes "refs_ok base {} s" "sources s tag = Some t" "fresh_timers e s" "oc_step e (Fire tag) s = Some u"
  shows "refs_ok base {} u"
proof -
  have t: "t = IPV4 \<or> t = IPV6" using assms(1,2) by (auto simp: refs_ok_def ran_def)
  let ?s1 = "upd_oc t (\<lambda>c. c\<lparr>oc_timeout := 0\<rparr>) s"
  define v where "v = snd (connman_wispr_start e t ?s1)"
  have "refs_ok base {tag} ?s1" using assms(1,2) t by (auto simp: refs_ok_def timer_ok_def upd_oc_def oc_of_def)
  moreover have "fresh_timer e t ?s1" using assms(3) t by (auto simp: fresh_timers_def fresh_timer_def upd_oc_def)
  ultimately have v: "refs_ok base {tag} v" using grows_wispr[of e t ?s1] by (simp add: grows_def v_def)
  have u: "u = (unref v)\<lparr>sources := (sources v)(tag := None)\<rparr>"
    using assms(2,4) t by (auto simp: redo_wispr_ipv4_def redo_wispr_ipv6_def redo_wispr_def v_def unref_def Let_def)
  have "Suc (card (dom (sources v) - {tag})) = card (dom (sources v))"
    using v by (intro card_Suc_Diff1) (auto simp: refs_ok_def)
  then have "refcount u = base + int (card (dom (sources u)))" using v by (simp add: u unref_def refs_ok_def)
  moreover have "timer_ok {} t' u" if "timer_ok {tag} t' v" for t'
    using that by (auto simp: timer_ok_def u unref_def oc_of_def)
  moreover have "ran (sources u) \<subseteq> ran (sources v)" by (auto simp: u ran_def)
  ultimately show ?thesis using v unfolding refs_ok_def by (auto simp: u)
qed

lemma oc_reach_refs: "oc_reach base s \<Longrightarrow> 0 < base \<and> refs_ok base {} s"
proof (induction rule: oc_reach.induct)
  case (init s)
  then show ?case by (simp add: refs_ok_def timer_ok_def oc_of_def)
next
  case (step s e ev u)
  have r: "refs_ok base {} s" using step.IH by simp
  have g: "grows e t s u \<Longrightarrow> t = IPV4 \<or> t = IPV6 \<Longrightarrow> refs_ok base {} u" for t
    using r step.hyps(3) by (auto simp: grows_def fresh_timers_def)
  have k: "shrinks s u \<Longrightarrow> refs_ok base {} u" using r by (simp add: shrinks_def)
  have "refs_ok base {} u"
  proof (cases ev)
    case (Fire tag)
    then obtain t where "sources s tag = Some t" using step.hyps(4) by (auto split: option.splits)
    then show ?thesis using refs_fire[OF r _ step.hyps(3)] step.hyps(4) Fire by blast
  next
    case (Start t)
    then show ?thesis using step.hyps(4) g[of t] grows_start_check k other_kind(1) by (cases "t = IPV4 \<or> t = IPV6") auto
  next
    case (Wispr_begin t)
    then show ?thesis using step.hyps(4) g[of t] grows_start k other_kind(2) by (cases "t = IPV4 \<or> t = IPV6") auto
  next
    case (Answer t success cancelled)
    then show ?thesis using step.hyps(4) g[of t] grows_complete k other_kind(3) by (cases "t = IPV4 \<or> t = IPV6") auto
  qed (use step.hyps(3,4) r k refs_start_connected shrinks_intro in auto)
  then show ?case using step.IH by simp
qed

section \<open>Names, timeouts and intervals\<close>

lemma online_check_mode_roundtrip: "online_check_string2mode (online_check_mode2string m) = m"
  by (cases m) (simp_all add: online_check_string2mode_def)

fun fib :: "nat \<Rightarrow> nat" where
  "fib 0 = 0"
| "fib (Suc 0) = 1"
| "fib (Suc (Suc n)) = fib (Suc n) + fib n"

lemma fibonacci_loop_fib:
  "fibonacci_loop (Suc n) (word_of_nat (fib k)) (word_of_nat (fib (Suc k))) w = word_of_nat (fib (k + n))"
proof (induction n arbitrary: k w)
  case (Suc n)
  have f: "word_of_nat (fib (Suc k)) + word_of_nat (fib k) = (word_of_nat (fib (Suc (Suc k))) :: u32)" by simp
  show ?case using Suc.IH[of "Suc k"] by (simp only: fibonacci_loop.simps(2)[of "Suc n"] f add_Suc add_Suc_right)
qed simp

text \<open>The timeout is the Fibonacci number of the interval, at the width of a timeout.\<close>

lemma compute_fibonacci: "online_check_timeout_compute_fibonacci interval = word_of_nat (fib (unat interval))"
  using fibonacci_loop_fib[of "unat interval" 0 0] by (simp add: online_check_timeout_compute_fibonacci_def)

text \<open>The interval of a repetition does not pass the greatest one.\<close>

lemma reschedule_interval:
  "t = IPV4 \<or> t = IPV6 \<Longrightarrow> oc_interval (oc_of t s) \<le> max_interval e \<Longrightarrow> oc_interval (oc_of t (reschedule_online_check e t s)) \<le> max_interval e"
  by (auto simp: reschedule_online_check_def upd_oc_def oc_of_def Let_def call_def inc_le)

text \<open>
  A repetition that \<open>__connman_wispr_start\<close> refuses without an answer, as when the service has lost
  its interface, leaves the check marked active without a timer, and no start of a check is
  accepted from then on.
\<close>

lemma redo_refused_stays_active:
  assumes "oc_active (online_check_state_ipv4 s)" "service_index e < 0"
  shows "oc_timeout (online_check_state_ipv4 (redo_wispr_ipv4 e s)) = 0 \<and>
    wispr_start e' IPV4 (redo_wispr_ipv4 e s) = (Inl EALREADY, redo_wispr_ipv4 e s)"
  using assms
  by (simp add: redo_wispr_ipv4_def redo_wispr_def connman_wispr_start_def wispr_start_def online_check_is_active_def oc_update_defs)

section \<open>Properties\<close>

text \<open>
  C14. In continuous mode the checks of a service that is connected over IPv4 alone demote and
  promote it with hysteresis: after every result, the service counts as failing if the last
  results were failures, as many as the threshold of failures says; it counts as working if the
  last ones were successes, as many as the threshold of successes says; otherwise it counts as
  before that result.
\<close>
theorem online_check_hysteresis:
  assumes "0 < F" "0 < S" "conn4 s" "view s = (0, 0, False)"
    and "list_all (\<lambda>(e, _). check_env F S e) (rs @ [r])" "length rs + 1 < 2 ^ 32"
  shows "failures_met_threshold (run_checks (rs @ [r]) s) =
    (if unat F \<le> trailing False (map snd (rs @ [r])) then True
     else if unat S \<le> trailing True (map snd (rs @ [r])) then False
     else failures_met_threshold (run_checks rs s))"
proof -
  obtain e ok where r: "r = (e, ok)" by force
  have e: "usable e" "check_mode e = ONLINE_CHECK_MODE_CONTINUOUS" "failures_threshold e = F" "successes_threshold e = S"
    using assms(5) r by (auto simp: check_env_def)
  obtain f n met where v: "view (run_checks rs s) = (f, n, met)" by (metis prod_cases3)
  have m: "failures_met_threshold (run_checks rs s) = met" using v by (simp add: view_def)
  have IH: "conn4 (run_checks rs s)" "unat f = trailing False (map snd rs)" "met \<Longrightarrow> unat n = trailing True (map snd rs)" "\<not> met \<Longrightarrow> f < F"
    using run_checks_view[OF assms(1-4), of rs] assms(5,6) v by auto
  have l: "trailing b (map snd rs) + 1 < 2 ^ 32" for b using trailing_bound[of b "map snd rs"] assms(6) by simp
  have f1: "unat (f + 1) = trailing False (map snd rs) + 1" and n1: "met \<Longrightarrow> unat (n + 1) = trailing True (map snd rs) + 1"
    using unat_word_Suc IH(2,3) l by blast+
  have p: "0 < unat F" "0 < unat S" using assms(1,2) by (simp_all add: word_less_nat_alt)
  have run: "run_checks (rs @ [r]) s = complete_online_check e IPV4 ok False (run_checks rs s)" by (simp add: run_checks_def r)
  show ?thesis
  proof (cases ok)
    case True
    then show ?thesis
      using success_view[OF e(1) IH(1) e(2) v, of False] n1 e(4) p unfolding run m
      by (auto simp: r trailing_snoc word_le_iff view_def)
  next
    case False
    then show ?thesis
      using failure_view[OF e(1) IH(1) e(2) v] f1 e(3) p unfolding run m
      by (auto simp: r trailing_snoc word_le_iff view_def)
  qed
qed

text \<open>
  C17. Whatever the order of starts, answers, firing timers, cancellations and changes of state, and
  whether or not a start fails, every timer of the checks of a service that the main loop holds
  has exactly one reference to the service, so that the service is there when the timer fires;
  and a timer that the state of a check names is pending and repeats that kind of check, so that
  a cancellation removes the right one. Identifiers of timers are fresh when the main loop gives
  them out, and the references stay below the greatest int.
\<close>
theorem online_check_references:
  assumes "oc_reach base s"
  shows "refcount s = base + int (card (dom (sources s))) \<and> 0 < refcount s \<and>
    (oc_timeout (online_check_state_ipv4 s) \<noteq> 0 \<longrightarrow> sources s (oc_timeout (online_check_state_ipv4 s)) = Some IPV4) \<and>
    (oc_timeout (online_check_state_ipv6 s) \<noteq> 0 \<longrightarrow> sources s (oc_timeout (online_check_state_ipv6 s)) = Some IPV6)"
  using oc_reach_refs[OF assms] by (simp add: refs_ok_def timer_ok_def oc_of_def)

text \<open>
  A network that goes from ready to online and back is counted once more as connected for the
  reverse path filter although nothing was disconnected: the change to ready counts it whether
  it came from a connection or from online.
\<close>
lemma online_round_trip_counts_twice:
  assumes "state_ipv4 s = SERVICE_STATE_READY" "ipconfig_of e IPV4 = Some CONNMAN_IPCONFIG_METHOD_DHCP" "connected_networks_count s \<noteq> 1"
  shows "(let u = snd (ipconfig_indicate_state e SERVICE_STATE_READY IPV4 (snd (ipconfig_indicate_state e SERVICE_STATE_ONLINE IPV4 s)))
    in state_ipv4 u = state_ipv4 s \<and> connected_networks_count u = connected_networks_count s + 1)"
  using assms by (simp add: ipconfig_indicate_state_def ip_state_def set_ip_state_def enter_ip_state_def service_rp_filter_def is_connected_def Let_def)

section \<open>Examples\<close>

definition demo_check :: online_check_state where
  "demo_check = \<lparr>oc_active = False, oc_timeout = 0, oc_interval = 1, oc_successes = 0, oc_failures = 0\<rparr>"

definition demo_oc :: oc_service where
  "demo_oc = \<lparr>refcount = 1, hidden = False, state = SERVICE_STATE_READY, state_ipv4 = SERVICE_STATE_READY, state_ipv6 = SERVICE_STATE_IDLE,
     oc_error = SERVICE_ERROR_UNKNOWN, proxy = SERVICE_PROXY_METHOD_DIRECT, proxy_config = SERVICE_PROXY_METHOD_UNKNOWN, pac = None,
     online_check_state_ipv4 = demo_check, online_check_state_ipv6 = demo_check, failures_met_threshold = False,
     connected_networks_count = 2, original_rp_filter = 1, sources = Map.empty, oc_calls = []\<rparr>"

definition demo_oc_env :: oc_env where
  "demo_oc_env = \<lparr>check_mode = ONLINE_CHECK_MODE_CONTINUOUS, failures_threshold = 2, successes_threshold = 3, initial_interval = 1,
     max_interval = 12, interval_style = ''geometric'', ipconfig_of = (\<lambda>t. if t = IPV4 then Some CONNMAN_IPCONFIG_METHOD_DHCP else None),
     is_default = True, indicate_state_result = Inr (), wispr_ready = True, wispr_supported = True, service_index = 2, portal_allocated = True,
     wispr_portal_detect = (\<lambda>_. Inr ()), wpad_start_result = 0, rp_filter_value = 1, timer_id = (\<lambda>t. if t = IPV4 then 5 else 6),
     allow_property_changed = True\<rparr>"

lemma demo_oc_env_ok: "check_env 2 3 demo_oc_env" "usable demo_oc_env"
  by (auto simp: check_env_def usable_def demo_oc_env_def)

lemma demo_oc_ok: "conn4 demo_oc" "view demo_oc = (0, 0, False)"
  by (simp_all add: conn4_def view_def demo_oc_def demo_check_def is_connected_def)

theorem online_check_hysteresis_witness:
  "failures_met_threshold (run_checks ([(demo_oc_env, True), (demo_oc_env, False)] @ [(demo_oc_env, False)]) demo_oc)"
  using online_check_hysteresis[OF _ _ demo_oc_ok, of 2 3 "[(demo_oc_env, True), (demo_oc_env, False)]" "(demo_oc_env, False)"]
  by (simp add: demo_oc_env_ok trailing_def)

text \<open>
  A start that fails in its preparations is answered and repeated by a timer, while the check is
  not marked active. The next start is accepted, its answer overwrites the identifier of the
  first timer, and the cancellation of all checks leaves that timer pending.
\<close>

definition demo_failing_env :: oc_env where
  "demo_failing_env = demo_oc_env\<lparr>check_mode := ONLINE_CHECK_MODE_ONE_SHOT, wispr_portal_detect := (\<lambda>_. Inl EINVAL), timer_id := (\<lambda>t. if t = IPV4 then 3 else 4)\<rparr>"

definition demo_once_env :: oc_env where
  "demo_once_env = demo_oc_env\<lparr>check_mode := ONLINE_CHECK_MODE_ONE_SHOT\<rparr>"

definition demo_lost :: oc_service where
  "demo_lost = complete_online_check demo_once_env IPV4 False False (snd (wispr_start demo_once_env IPV4 (snd (wispr_start demo_failing_env IPV4 demo_oc))))"

lemmas demo_oc_simps = demo_lost_def demo_failing_env_def demo_once_env_def demo_oc_env_def demo_oc_def demo_check_def wispr_start_def connman_wispr_start_def
  complete_online_check_def handle_online_check_failure_def handle_oneshot_online_check_failure_def is_online_check_mode_def
  online_check_is_active_def reschedule_online_check_def cancel_online_check_def cancel_timer_def
  online_check_timeout_compute_func_def online_check_timeout_compute_geometric_def

lemma demo_lost_timer:
  "sources demo_lost = [3 \<mapsto> IPV4, 5 \<mapsto> IPV4]" "refcount demo_lost = 3" "oc_timeout (online_check_state_ipv4 demo_lost) = 5"
  "sources (cancel_online_check CONNMAN_IPCONFIG_TYPE_ALL demo_lost) = [3 \<mapsto> IPV4]"
  by (simp_all add: demo_oc_simps oc_update_defs)

theorem online_check_references_witness:
  "refcount demo_lost = 1 + int (card (dom (sources demo_lost)))"
proof -
  let ?s1 = "snd (wispr_start demo_failing_env IPV4 demo_oc)"
  let ?s2 = "snd (wispr_start demo_once_env IPV4 ?s1)"
  have 0: "oc_reach 1 demo_oc" by (rule oc_reach.init) (simp_all add: demo_oc_def demo_check_def)
  have 1: "oc_reach 1 ?s1"
    by (rule oc_reach.step[OF 0, of demo_failing_env "Wispr_begin IPV4"])
      (simp_all add: fresh_timers_def fresh_timer_def demo_failing_env_def demo_oc_env_def demo_oc_def)
  have 2: "oc_reach 1 ?s2"
    by (rule oc_reach.step[OF 1, of demo_once_env "Wispr_begin IPV4"]) (simp_all add: fresh_timers_def fresh_timer_def demo_oc_simps oc_update_defs)
  have "oc_reach 1 demo_lost"
    by (rule oc_reach.step[OF 2, of demo_once_env "Answer IPV4 False False"])
      (simp_all add: fresh_timers_def fresh_timer_def demo_lost_def, simp_all add: demo_oc_simps oc_update_defs)
  from online_check_references[OF this] show ?thesis by blast
qed

lemma online_round_trip_counts_twice_example:
  "connected_networks_count (snd (ipconfig_indicate_state demo_oc_env SERVICE_STATE_READY IPV4
     (snd (ipconfig_indicate_state demo_oc_env SERVICE_STATE_ONLINE IPV4 demo_oc)))) = 3"
  using online_round_trip_counts_twice[of demo_oc demo_oc_env] by (simp add: demo_oc_def demo_oc_env_def Let_def)

end
