(* ===== verification/Notifier.thy ===== *)
theory Notifier
  imports Service
begin

text \<open>
  The notifiers of the daemon, \<open>src/src/notifier.c\<close>: the list of the modules that are told of
  changes, kept by priority; the counters of connected and online services of each type and the
  state of the daemon that they give; and the set of services that are not idle. A module is a
  constant structure, known by its address; its priority and which functions it has come from
  \<open>notifier_env\<close>, with the insertion of the container library and the offline mode, a variable of
  \<open>src/src/technology.c\<close>. What the functions call is recorded in \<open>notifier_calls\<close>. The counters
  and priorities are values of the C type \<open>int\<close>; the atomic additions on the counters wrap around.
\<close>

section \<open>State\<close>

datatype notifier_func =
    Default_changed | Service_add | Service_remove | Proxy_changed | Offline_mode | Service_state_changed | Ipconfig_changed | Idle_state

datatype notifier_arg = Arg_service "ptr option" | Arg_name ptr string | Arg_bool bool | Arg_state ptr service_state | Arg_ipconfig ptr ptr

datatype notifier_call =
    Notify ptr notifier_func notifier_arg
  | Technology_set_connected service_type bool
  | State_property string | Offlinemode_property bool
  | Log_error string

record notifier_env =
  priority :: "ptr \<Rightarrow> int"
  has_func :: "ptr \<Rightarrow> notifier_func \<Rightarrow> bool"
  slist_insert_sorted :: "ptr list \<Rightarrow> ptr \<Rightarrow> (ptr \<Rightarrow> ptr \<Rightarrow> int) \<Rightarrow> ptr list"
  offlinemode :: bool

record notifiers =
  notifier_list :: "ptr list"
  connected :: "service_type \<Rightarrow> int"
  online :: "service_type \<Rightarrow> int"
  busy_services :: "ptr list"
  notifier_state :: string
  notifier_calls :: "notifier_call list"

definition wrap_int :: "int \<Rightarrow> int" where
  "wrap_int x = (x + 2 ^ 31) mod 2 ^ 32 - 2 ^ 31"

definition out :: "notifier_call \<Rightarrow> notifiers \<Rightarrow> notifiers" where
  "out c s = s\<lparr>notifier_calls := notifier_calls s @ [c]\<rparr>"

section \<open>The list of modules\<close>

text \<open>A difference of priorities that is no value of an \<open>int\<close> is undefined in C; here it wraps.\<close>

definition compare_priority :: "notifier_env \<Rightarrow> ptr \<Rightarrow> ptr \<Rightarrow> int" where
  "compare_priority e a b = wrap_int (priority e b - priority e a)"

definition connman_notifier_register :: "notifier_env \<Rightarrow> ptr \<Rightarrow> notifiers \<Rightarrow> notifiers" where
  "connman_notifier_register e n s = s\<lparr>notifier_list := slist_insert_sorted e (notifier_list s) n (compare_priority e)\<rparr>"

definition connman_notifier_unregister :: "ptr \<Rightarrow> notifiers \<Rightarrow> notifiers" where
  "connman_notifier_unregister n s = s\<lparr>notifier_list := remove1 n (notifier_list s)\<rparr>"

definition notify_all :: "notifier_env \<Rightarrow> notifier_func \<Rightarrow> notifier_arg \<Rightarrow> notifiers \<Rightarrow> notifiers" where
  "notify_all e f a s = fold (\<lambda>n s. if has_func e n f then out (Notify n f a) s else s) (notifier_list s) s"

section \<open>The state of the daemon\<close>

definition all_types :: "service_type list" where
  "all_types = [SERVICE_TYPE_UNKNOWN, SERVICE_TYPE_SYSTEM, SERVICE_TYPE_ETHERNET, SERVICE_TYPE_WIFI, SERVICE_TYPE_BLUETOOTH,
     SERVICE_TYPE_CELLULAR, SERVICE_TYPE_GPS, SERVICE_TYPE_VPN, SERVICE_TYPE_GADGET, SERVICE_TYPE_P2P]"

definition notifier_is_online :: "notifiers \<Rightarrow> bool" where
  "notifier_is_online s \<longleftrightarrow> list_ex (\<lambda>t. online s t > 0) all_types"

definition notifier_is_connected :: "notifiers \<Rightarrow> bool" where
  "notifier_is_connected s \<longleftrightarrow> list_ex (\<lambda>t. connected s t > 0) all_types"

definition evaluate_notifier_state :: "notifier_env \<Rightarrow> notifiers \<Rightarrow> string" where
  "evaluate_notifier_state e s =
     (if notifier_is_online s then ''online''
      else if notifier_is_connected s then ''ready''
      else if offlinemode e then ''offline''
      else ''idle'')"

definition notifier_state_changed :: "notifier_env \<Rightarrow> notifiers \<Rightarrow> notifiers" where
  "notifier_state_changed e s =
     (let st = evaluate_notifier_state e s in
      if st = notifier_state s then s
      else out (State_property st) (s\<lparr>notifier_state := st\<rparr>))"

definition counted_type :: "service_type \<Rightarrow> bool" where
  "counted_type t =
     (case t of SERVICE_TYPE_UNKNOWN \<Rightarrow> False | SERVICE_TYPE_SYSTEM \<Rightarrow> False | SERVICE_TYPE_GPS \<Rightarrow> False | SERVICE_TYPE_VPN \<Rightarrow> False | _ \<Rightarrow> True)"

definition notifier_connect :: "notifier_env \<Rightarrow> service_type \<Rightarrow> notifiers \<Rightarrow> notifiers" where
  "notifier_connect e t s =
     (if \<not> counted_type t then s
      else
        let s1 = s\<lparr>connected := (connected s)(t := wrap_int (connected s t + 1))\<rparr> in
        if connected s t = 0 then notifier_state_changed e (out (Technology_set_connected t True) s1) else s1)"

definition notifier_enter_online :: "notifier_env \<Rightarrow> service_type \<Rightarrow> notifiers \<Rightarrow> notifiers" where
  "notifier_enter_online e t s =
     (let s1 = s\<lparr>online := (online s)(t := wrap_int (online s t + 1))\<rparr> in
      if online s t = 0 then notifier_state_changed e s1 else s1)"

definition notifier_leave_online :: "notifier_env \<Rightarrow> service_type \<Rightarrow> notifiers \<Rightarrow> notifiers" where
  "notifier_leave_online e t s =
     (let s1 = s\<lparr>online := (online s)(t := wrap_int (online s t - 1))\<rparr> in
      if online s t = 1 then notifier_state_changed e s1 else s1)"

definition notifier_disconnect :: "notifier_env \<Rightarrow> service_type \<Rightarrow> notifiers \<Rightarrow> notifiers" where
  "notifier_disconnect e t s =
     (if connected s t = 0 then out (Log_error ''notifier disconnect underflow'') s
      else if \<not> counted_type t then s
      else
        let s1 = s\<lparr>connected := (connected s)(t := wrap_int (connected s t - 1))\<rparr> in
        if connected s t \<noteq> 1 then s1
        else notifier_state_changed e (out (Technology_set_connected t False) s1))"

section \<open>What the modules are told\<close>

definition notifier_default_changed :: "notifier_env \<Rightarrow> ptr option \<Rightarrow> notifiers \<Rightarrow> notifiers" where
  "notifier_default_changed e service = notify_all e Default_changed (Arg_service service)"

definition notifier_service_add :: "notifier_env \<Rightarrow> ptr \<Rightarrow> string \<Rightarrow> notifiers \<Rightarrow> notifiers" where
  "notifier_service_add e service name = notify_all e Service_add (Arg_name service name)"

definition notifier_service_remove :: "notifier_env \<Rightarrow> ptr \<Rightarrow> notifiers \<Rightarrow> notifiers" where
  "notifier_service_remove e service s =
     (let s1 = (if service \<in> set (busy_services s)
                then (out (Log_error ''Service state machine inconsistency detected.'') s)\<lparr>busy_services := removeAll service (busy_services s)\<rparr>
                else s)
      in notify_all e Service_remove (Arg_service (Some service)) s1)"

definition notifier_proxy_changed :: "notifier_env \<Rightarrow> ptr \<Rightarrow> notifiers \<Rightarrow> notifiers" where
  "notifier_proxy_changed e service = notify_all e Proxy_changed (Arg_service (Some service))"

definition offlinemode_changed :: "bool \<Rightarrow> notifiers \<Rightarrow> notifiers" where
  "offlinemode_changed enabled = out (Offlinemode_property enabled)"

definition notifier_offlinemode :: "notifier_env \<Rightarrow> bool \<Rightarrow> notifiers \<Rightarrow> notifiers" where
  "notifier_offlinemode e enabled s =
     notify_all e Offline_mode (Arg_bool enabled) (notifier_state_changed e (offlinemode_changed enabled s))"

definition notify_idle_state :: "notifier_env \<Rightarrow> bool \<Rightarrow> notifiers \<Rightarrow> notifiers" where
  "notify_idle_state e idle = notify_all e Idle_state (Arg_bool idle)"

definition notifier_service_state_changed :: "notifier_env \<Rightarrow> ptr \<Rightarrow> service_state \<Rightarrow> notifiers \<Rightarrow> notifiers" where
  "notifier_service_state_changed e service st s =
     (let s1 = notify_all e Service_state_changed (Arg_state service st) s;
          old_size = length (busy_services s1);
          found = (service \<in> set (busy_services s1))
      in if st \<in> {SERVICE_STATE_UNKNOWN, SERVICE_STATE_FAILURE, SERVICE_STATE_DISCONNECT, SERVICE_STATE_IDLE} then
           (if \<not> found then s1
            else let s2 = s1\<lparr>busy_services := removeAll service (busy_services s1)\<rparr>
                 in if old_size = 1 then notify_idle_state e True s2 else s2)
         else
           (if found then s1
            else let s2 = s1\<lparr>busy_services := service # busy_services s1\<rparr>
                 in if old_size = 0 then notify_idle_state e False s2 else s2))"

definition notifier_ipconfig_changed :: "notifier_env \<Rightarrow> ptr \<Rightarrow> ptr \<Rightarrow> notifiers \<Rightarrow> notifiers" where
  "notifier_ipconfig_changed e service ipconfig = notify_all e Ipconfig_changed (Arg_ipconfig service ipconfig)"

definition notifier_init :: "notifier_env \<Rightarrow> ptr list \<Rightarrow> notifiers" where
  "notifier_init e mods =
     (let s = \<lparr>notifier_list = mods, connected = (\<lambda>_. 0), online = (\<lambda>_. 0), busy_services = [], notifier_state = [], notifier_calls = []\<rparr>
      in s\<lparr>notifier_state := evaluate_notifier_state e s\<rparr>)"

section \<open>The life of the notifiers\<close>

text \<open>
  The calls of the daemon, and the assignments to the offline mode, \<open>Op_mode\<close>. The function that
  sets it, \<open>__connman_technology_set_offlinemode\<close>, assigns the new mode, enables or disables the
  technologies, and then either calls \<open>notifier_offlinemode\<close> or assigns the saved mode again
  without a call.
\<close>

datatype notifier_op =
    Op_register ptr | Op_unregister ptr | Op_connect service_type | Op_disconnect service_type
  | Op_enter_online service_type | Op_leave_online service_type | Op_mode bool | Op_offlinemode bool
  | Op_state_changed ptr service_state | Op_service_remove ptr | Op_service_add ptr string
  | Op_default_changed "ptr option" | Op_proxy_changed ptr | Op_ipconfig_changed ptr ptr

fun notifier_step :: "notifier_env \<Rightarrow> notifier_op \<Rightarrow> notifiers \<Rightarrow> notifiers" where
  "notifier_step e (Op_register n) s = connman_notifier_register e n s"
| "notifier_step e (Op_unregister n) s = connman_notifier_unregister n s"
| "notifier_step e (Op_connect t) s = notifier_connect e t s"
| "notifier_step e (Op_disconnect t) s = notifier_disconnect e t s"
| "notifier_step e (Op_enter_online t) s = notifier_enter_online e t s"
| "notifier_step e (Op_leave_online t) s = notifier_leave_online e t s"
| "notifier_step e (Op_mode b) s = s"
| "notifier_step e (Op_offlinemode b) s = notifier_offlinemode e b s"
| "notifier_step e (Op_state_changed p st) s = notifier_service_state_changed e p st s"
| "notifier_step e (Op_service_remove p) s = notifier_service_remove e p s"
| "notifier_step e (Op_service_add p n) s = notifier_service_add e p n s"
| "notifier_step e (Op_default_changed p) s = notifier_default_changed e p s"
| "notifier_step e (Op_proxy_changed p) s = notifier_proxy_changed e p s"
| "notifier_step e (Op_ipconfig_changed p i) s = notifier_ipconfig_changed e p i s"

fun next_env :: "notifier_env \<Rightarrow> notifier_op \<Rightarrow> notifier_env" where
  "next_env e (Op_mode b) = e\<lparr>offlinemode := b\<rparr>"
| "next_env e _ = e"

fun run_notifiers :: "notifier_env \<Rightarrow> notifier_op list \<Rightarrow> notifiers \<Rightarrow> notifiers" where
  "run_notifiers e [] s = s"
| "run_notifiers e (a # as) s = run_notifiers (next_env e a) as (notifier_step e a s)"

fun last_env :: "notifier_env \<Rightarrow> notifier_op list \<Rightarrow> notifier_env" where
  "last_env e [] = e"
| "last_env e (a # as) = last_env (next_env e a) as"

text \<open>Whether the mode was assigned after the last call that tells of it.\<close>

fun unsettled :: "bool \<Rightarrow> notifier_op list \<Rightarrow> bool" where
  "unsettled p [] = p"
| "unsettled p (Op_mode _ # as) = unsettled True as"
| "unsettled p (Op_offlinemode _ # as) = unsettled False as"
| "unsettled p (_ # as) = unsettled p as"

text \<open>Leaving the online state is only called for a type that has been entered.\<close>

fun balanced :: "(service_type \<Rightarrow> int) \<Rightarrow> notifier_op list \<Rightarrow> bool" where
  "balanced m [] = True"
| "balanced m (Op_enter_online t # as) = balanced (m(t := m t + 1)) as"
| "balanced m (Op_leave_online t # as) = (0 < m t \<and> balanced (m(t := m t - 1)) as)"
| "balanced m (_ # as) = balanced m as"

definition small_priorities :: "notifier_env \<Rightarrow> bool" where
  "small_priorities e \<longleftrightarrow> (\<forall>n. - (2 ^ 30) \<le> priority e n \<and> priority e n < 2 ^ 30)"

text \<open>The counters after at most \<open>k\<close> calls.\<close>

definition notifier_inv :: "nat \<Rightarrow> notifier_env \<Rightarrow> notifiers \<Rightarrow> bool" where
  "notifier_inv k e s \<longleftrightarrow> notifier_state s = evaluate_notifier_state e s \<and>
     (\<forall>t. 0 \<le> connected s t \<and> connected s t \<le> int k) \<and> (\<forall>t. 0 \<le> online s t \<and> online s t \<le> int k) \<and>
     sorted_wrt (\<lambda>a b. priority e b \<le> priority e a) (notifier_list s) \<and> distinct (busy_services s)"

lemma wrap_int_small: "- (2 ^ 31) \<le> x \<Longrightarrow> x < 2 ^ 31 \<Longrightarrow> wrap_int x = x"
  by (simp add: wrap_int_def)

lemma all_types_all: "t \<in> set all_types"
  by (cases t) (simp_all add: all_types_def)

lemma is_online_iff: "notifier_is_online s \<longleftrightarrow> (\<exists>t. online s t > 0)"
  using all_types_all by (auto simp: notifier_is_online_def list_ex_iff)

lemma is_connected_iff: "notifier_is_connected s \<longleftrightarrow> (\<exists>t. connected s t > 0)"
  using all_types_all by (auto simp: notifier_is_connected_def list_ex_iff)

lemmas state_iff = evaluate_notifier_state_def is_online_iff is_connected_iff

lemma out_fields [simp]: "notifier_list (out c s) = notifier_list s" "connected (out c s) = connected s" "online (out c s) = online s"
  "busy_services (out c s) = busy_services s" "notifier_state (out c s) = notifier_state s" "notifier_calls (out c s) = notifier_calls s @ [c]"
  by (simp_all add: out_def)

definition same_notifiers :: "notifiers \<Rightarrow> notifiers \<Rightarrow> bool" where
  "same_notifiers s u \<longleftrightarrow> notifier_list u = notifier_list s \<and> connected u = connected s \<and> online u = online s \<and>
     busy_services u = busy_services s \<and> notifier_state u = notifier_state s"

lemma notify_all_keeps: "same_notifiers s (notify_all e f a s)"
proof -
  have "same_notifiers s (fold (\<lambda>n s. if has_func e n f then out (Notify n f a) s else s) ns s)" for ns
    by (induction ns arbitrary: s) (auto simp: same_notifiers_def split: if_splits)
  then show ?thesis by (simp add: notify_all_def)
qed

text \<open>Every module that has the function is told once, in the order of the list.\<close>

lemma notify_all_calls: "notifier_calls (notify_all e f a s) = notifier_calls s @ map (\<lambda>n. Notify n f a) (filter (\<lambda>n. has_func e n f) (notifier_list s))"
proof -
  have "notifier_calls (fold (\<lambda>n s. if has_func e n f then out (Notify n f a) s else s) ns s) =
      notifier_calls s @ map (\<lambda>n. Notify n f a) (filter (\<lambda>n. has_func e n f) ns)" for ns
    by (induction ns arbitrary: s) auto
  then show ?thesis by (simp add: notify_all_def)
qed

lemma inv_cong: "same_notifiers s u \<Longrightarrow> notifier_inv k e u = notifier_inv k e s"
  by (simp add: same_notifiers_def notifier_inv_def evaluate_notifier_state_def notifier_is_online_def notifier_is_connected_def)

lemma inv_notify [simp]: "notifier_inv k e (notify_all e' f a s) = notifier_inv k e s"
  by (rule inv_cong) (rule notify_all_keeps)

lemma online_notify [simp]: "online (notify_all e f a s) = online s" "busy_services (notify_all e f a s) = busy_services s"
  using notify_all_keeps[of s e f a] by (simp_all add: same_notifiers_def)

lemma state_changed_fields [simp]: "connected (notifier_state_changed e s) = connected s" "online (notifier_state_changed e s) = online s"
  "notifier_list (notifier_state_changed e s) = notifier_list s" "busy_services (notifier_state_changed e s) = busy_services s"
  "notifier_state (notifier_state_changed e s) = evaluate_notifier_state e s"
  by (simp_all add: notifier_state_changed_def Let_def)

lemma evaluate_state_changed [simp]: "evaluate_notifier_state e (notifier_state_changed e' s) = evaluate_notifier_state e s"
  by (simp add: state_iff)

text \<open>The state that the clients on the bus know: the last one announced, or the first.\<close>

definition announced :: "string \<Rightarrow> notifiers \<Rightarrow> string" where
  "announced st0 s = last (st0 # concat (map (\<lambda>c. case c of State_property st \<Rightarrow> [st] | _ \<Rightarrow> []) (notifier_calls s)))"

lemma announced_out [simp]: "announced st0 (out c s) = (case c of State_property st \<Rightarrow> st | _ \<Rightarrow> announced st0 s)"
  by (simp add: announced_def split: notifier_call.split)

lemma announced_upd [simp]: "announced st0 (s\<lparr>connected := m\<rparr>) = announced st0 s" "announced st0 (s\<lparr>online := m\<rparr>) = announced st0 s"
  "announced st0 (s\<lparr>busy_services := b\<rparr>) = announced st0 s" "announced st0 (s\<lparr>notifier_list := l\<rparr>) = announced st0 s"
  "announced st0 (s\<lparr>notifier_state := st\<rparr>) = announced st0 s"
  by (simp_all add: announced_def)

lemma announced_notify [simp]: "announced st0 (notify_all e f a s) = announced st0 s"
proof -
  have "concat (map (\<lambda>c. case c of State_property st \<Rightarrow> [st] | _ \<Rightarrow> []) (map (\<lambda>n. Notify n f a) ns)) = []" for ns
    by (induction ns) simp_all
  then show ?thesis by (simp add: announced_def notify_all_calls)
qed

lemma announced_state_changed: "announced st0 s = notifier_state s \<Longrightarrow> announced st0 (notifier_state_changed e s) = evaluate_notifier_state e s"
  by (simp add: notifier_state_changed_def Let_def)

text \<open>
  The state shown is the one of the counters and of a mode \<open>b\<close>, the offline mode when it was last
  evaluated; when nothing is unsettled this is the offline mode now.
\<close>

definition shown :: "notifier_env \<Rightarrow> bool \<Rightarrow> notifier_env" where
  "shown e b = e\<lparr>offlinemode := b\<rparr>"

definition known_inv :: "string \<Rightarrow> nat \<Rightarrow> notifier_env \<Rightarrow> notifiers \<Rightarrow> bool" where
  "known_inv st0 k e s \<longleftrightarrow> notifier_inv k e s \<and> announced st0 s = notifier_state s"

definition known :: "string \<Rightarrow> nat \<Rightarrow> bool \<Rightarrow> notifier_env \<Rightarrow> notifiers \<Rightarrow> bool" where
  "known st0 k p e s \<longleftrightarrow> (\<exists>b. (\<not> p \<longrightarrow> b = offlinemode e) \<and> known_inv st0 k (shown e b) s)"

lemma shown_simps [simp]: "priority (shown e b) = priority e" "shown e (offlinemode e) = e" "shown (shown e b) c = shown e c"
  "offlinemode (shown e b) = b" "slist_insert_sorted (shown e b) = slist_insert_sorted e"
  by (simp_all add: shown_def)

lemma known_now: "known_inv st0 k e s \<Longrightarrow> known st0 k p e s"
  unfolding known_def by (intro exI[of _ "offlinemode e"]) simp

lemma known_cong: "(\<And>b. known_inv st0 k (shown e b) s \<Longrightarrow> known_inv st0 k' (shown e b) u) \<Longrightarrow> known st0 k p e s \<Longrightarrow> known st0 k' p e u"
  unfolding known_def by blast

lemma known_bounds:
  assumes "known st0 k p e s"
  shows "announced st0 s = notifier_state s" "0 \<le> connected s t \<and> connected s t \<le> int k" "0 \<le> online s t \<and> online s t \<le> int k"
    "sorted_wrt (\<lambda>a b. priority e b \<le> priority e a) (notifier_list s)" "distinct (busy_services s)"
  using assms by (auto simp: known_def known_inv_def notifier_inv_def)

lemma bound_mono: "\<forall>t. 0 \<le> m t \<and> m t \<le> int k \<Longrightarrow> k \<le> k' \<Longrightarrow> m t \<le> int k'" for m :: "service_type \<Rightarrow> int"
  by (rule order_trans[of _ "int k"]) auto

lemma known_Suc: "known st0 k p e s \<Longrightarrow> known st0 (Suc k) p e s"
  by (erule known_cong[rotated]) (auto simp: known_inv_def notifier_inv_def simp del: of_nat_Suc intro: bound_mono)

lemma known_state_changed:
  assumes "announced st0 s = notifier_state s" "\<forall>t. 0 \<le> connected s t \<and> connected s t \<le> int k" "\<forall>t. 0 \<le> online s t \<and> online s t \<le> int k"
    "sorted_wrt (\<lambda>a b. priority e b \<le> priority e a) (notifier_list s)" "distinct (busy_services s)"
  shows "known st0 k p e (notifier_state_changed e s)"
  using assms announced_state_changed[OF assms(1)] by (intro known_now) (simp add: known_inv_def notifier_inv_def)

lemma known_notify [simp]: "known st0 k p e (notify_all e' f a s) = known st0 k p e s"
  using notify_all_keeps[of s e' f a] by (simp add: known_def known_inv_def same_notifiers_def)

text \<open>A counter that stays positive does not change the state.\<close>

lemma known_counter:
  assumes "0 < n" "n \<le> int k"
  shows "known st0 k p e s \<Longrightarrow> 0 < connected s t \<Longrightarrow> known st0 k p e (s\<lparr>connected := (connected s)(t := n)\<rparr>)"
    and "known st0 k p e s \<Longrightarrow> 0 < online s t \<Longrightarrow> known st0 k p e (s\<lparr>online := (online s)(t := n)\<rparr>)"
proof -
  have ex: "\<exists>u. 0 < (m(t := n)) u" "0 < m t \<Longrightarrow> \<exists>u. 0 < m u" for m :: "service_type \<Rightarrow> int"
    using assms(1) by (auto intro: exI[of _ t])
  have "0 < connected s t \<Longrightarrow> evaluate_notifier_state e (s\<lparr>connected := (connected s)(t := n)\<rparr>) = evaluate_notifier_state e s"
    and "0 < online s t \<Longrightarrow> evaluate_notifier_state e (s\<lparr>online := (online s)(t := n)\<rparr>) = evaluate_notifier_state e s" for e
    using ex[of "connected s"] ex[of "online s"] by (simp_all add: state_iff del: fun_upd_apply)
  then show "known st0 k p e s \<Longrightarrow> 0 < connected s t \<Longrightarrow> known st0 k p e (s\<lparr>connected := (connected s)(t := n)\<rparr>)"
    "known st0 k p e s \<Longrightarrow> 0 < online s t \<Longrightarrow> known st0 k p e (s\<lparr>online := (online s)(t := n)\<rparr>)"
    using assms by (auto elim!: known_cong[rotated] simp: known_inv_def notifier_inv_def)
qed

lemma known_connect:
  assumes k: "known st0 k p e s" and b: "int k < 2 ^ 31 - 1"
  shows "known st0 (Suc k) p e (notifier_connect e t s)"
proof -
  have w: "wrap_int (connected s t + 1) = connected s t + 1" using known_bounds(2)[OF k, of t] b by (intro wrap_int_small) auto
  consider "\<not> counted_type t" | "counted_type t" "connected s t = 0" | "counted_type t" "0 < connected s t"
    using known_bounds(2)[OF k, of t] by linarith
  then show ?thesis
  proof cases
    case 1
    then show ?thesis using known_Suc[OF k] by (simp add: notifier_connect_def)
  next
    case 2
    then show ?thesis
      using known_bounds[OF known_Suc[OF k]] w by (auto simp: notifier_connect_def Let_def intro!: known_state_changed)
  next
    case 3
    then show ?thesis
      using known_counter(1)[of "connected s t + 1" "Suc k" st0 p e s t] known_bounds(2)[OF k, of t] known_Suc[OF k] w by (simp add: notifier_connect_def)
  qed
qed

lemma known_log: "known st0 k p e s \<Longrightarrow> known st0 k p e (out (Log_error m) s)"
  by (erule known_cong[rotated]) (simp add: known_inv_def notifier_inv_def state_iff)

lemma known_disconnect:
  assumes k: "known st0 k p e s" and b: "int k < 2 ^ 31 - 1"
  shows "known st0 k p e (notifier_disconnect e t s)"
proof -
  have w: "wrap_int (connected s t - 1) = connected s t - 1" using known_bounds(2)[OF k, of t] b by (intro wrap_int_small) auto
  consider "connected s t = 0 \<or> \<not> counted_type t" | "counted_type t" "connected s t = 1" | "counted_type t" "1 < connected s t"
    using known_bounds(2)[OF k, of t] by linarith
  then show ?thesis
  proof cases
    case 1
    then show ?thesis using k known_log by (auto simp: notifier_disconnect_def)
  next
    case 2
    then show ?thesis using known_bounds[OF k] w by (auto simp: notifier_disconnect_def Let_def intro!: known_state_changed)
  next
    case 3
    then show ?thesis
      using known_counter(1)[of "connected s t - 1" k st0 p e s t] known_bounds(2)[OF k, of t] k w by (simp add: notifier_disconnect_def)
  qed
qed

lemma known_enter:
  assumes k: "known st0 k p e s" and b: "int k < 2 ^ 31 - 1"
  shows "known st0 (Suc k) p e (notifier_enter_online e t s) \<and> online (notifier_enter_online e t s) = (online s)(t := online s t + 1)"
proof -
  have w: "wrap_int (online s t + 1) = online s t + 1" using known_bounds(3)[OF k, of t] b by (intro wrap_int_small) auto
  have "known st0 (Suc k) p e (notifier_enter_online e t s)"
  proof (cases "online s t = 0")
    case True
    then show ?thesis
      using known_bounds[OF known_Suc[OF k]] w by (auto simp: notifier_enter_online_def Let_def intro!: known_state_changed)
  next
    case False
    then show ?thesis
      using known_counter(2)[of "online s t + 1" "Suc k" st0 p e s t] known_bounds(3)[OF k, of t] known_Suc[OF k] w by (simp add: notifier_enter_online_def Let_def)
  qed
  then show ?thesis using w by (simp add: notifier_enter_online_def Let_def)
qed

lemma known_leave:
  assumes k: "known st0 k p e s" and b: "int k < 2 ^ 31 - 1" and o: "0 < online s t"
  shows "known st0 k p e (notifier_leave_online e t s) \<and> online (notifier_leave_online e t s) = (online s)(t := online s t - 1)"
proof -
  have w: "wrap_int (online s t - 1) = online s t - 1" using known_bounds(3)[OF k, of t] b by (intro wrap_int_small) auto
  have "known st0 k p e (notifier_leave_online e t s)"
  proof (cases "online s t = 1")
    case True
    then show ?thesis using known_bounds[OF k] w by (auto simp: notifier_leave_online_def Let_def intro!: known_state_changed)
  next
    case False
    then show ?thesis
      using known_counter(2)[of "online s t - 1" k st0 p e s t] known_bounds(3)[OF k, of t] k w o by (simp add: notifier_leave_online_def Let_def)
  qed
  then show ?thesis using w by (simp add: notifier_leave_online_def Let_def)
qed

lemma known_offlinemode: "known st0 k p e s \<Longrightarrow> known st0 k q e (notifier_offlinemode e b s)"
  unfolding notifier_offlinemode_def known_notify offlinemode_changed_def
  using known_bounds[of st0 k p e s] by (intro known_state_changed) simp_all

lemma known_mode: "known st0 k p e s \<Longrightarrow> known st0 k True (e\<lparr>offlinemode := b\<rparr>) s"
  unfolding known_def by (auto simp: shown_def)

lemma known_busy: "known st0 k p e s \<Longrightarrow> distinct b \<Longrightarrow> known st0 k p e (s\<lparr>busy_services := b\<rparr>)"
  by (erule known_cong[rotated]) (simp add: known_inv_def notifier_inv_def state_iff)

lemma known_remove:
  assumes "known st0 k p e s"
  shows "known st0 k p e (notifier_service_remove e q s)"
proof -
  have "distinct (removeAll q (busy_services s))" using known_bounds(5)[OF assms] by (rule distinct_removeAll)
  then show ?thesis using assms known_busy[OF known_log[OF assms]] by (simp add: notifier_service_remove_def)
qed

lemma known_register:
  assumes "sorted_insertion (slist_insert_sorted e)" "small_priorities e" "known st0 k p e s"
  shows "known st0 k p e (connman_notifier_register e n s)"
proof -
  have c: "compare_priority e a b = priority e b - priority e a" for a b
    using spec[OF assms(2)[unfolded small_priorities_def], of a] spec[OF assms(2)[unfolded small_priorities_def], of b]
    unfolding compare_priority_def by (intro wrap_int_small) simp_all
  have "sorted_wrt (\<lambda>a b. compare_priority e a b \<le> 0) (slist_insert_sorted e (notifier_list s) n (compare_priority e))"
    using known_bounds(4)[OF assms(3)] by (intro sorted_insertion.sorted_ins[OF assms(1)]) (auto simp: c)
  then show ?thesis
    using assms(3) by (elim known_cong[rotated]) (simp add: connman_notifier_register_def known_inv_def notifier_inv_def state_iff c)
qed

lemma known_unregister: "known st0 k p e s \<Longrightarrow> known st0 k p e (connman_notifier_unregister n s)"
  by (erule known_cong[rotated]) (simp add: connman_notifier_unregister_def known_inv_def notifier_inv_def state_iff sorted_wrt_remove1)

lemma online_ops [simp]:
  "online (connman_notifier_register e n s) = online s" "online (connman_notifier_unregister n s) = online s"
  "online (notifier_connect e t s) = online s" "online (notifier_disconnect e t s) = online s"
  "online (notifier_offlinemode e b s) = online s"
  by (simp_all add: connman_notifier_register_def connman_notifier_unregister_def notifier_connect_def notifier_disconnect_def
      notifier_offlinemode_def offlinemode_changed_def Let_def)

fun next_unsettled :: "bool \<Rightarrow> notifier_op \<Rightarrow> bool" where
  "next_unsettled p (Op_mode _) = True"
| "next_unsettled p (Op_offlinemode _) = False"
| "next_unsettled p _ = p"

lemma unsettled_Cons: "unsettled p (a # as) = unsettled (next_unsettled p a) as"
  by (cases a) simp_all

lemma known_step:
  assumes "sorted_insertion (slist_insert_sorted e)" "small_priorities e" "known st0 k p e s" "int k < 2 ^ 31 - 1" "balanced (online s) (a # as)"
  shows "known st0 (Suc k) (next_unsettled p a) (next_env e a) (notifier_step e a s) \<and> balanced (online (notifier_step e a s)) as"
proof (cases a)
  case (Op_state_changed q st)
  let ?s1 = "notify_all e Service_state_changed (Arg_state q st) s"
  have d: "distinct (busy_services s)" by (rule known_bounds(5)[OF assms(3)])
  have "known st0 (Suc k) p e ?s1" using known_Suc[OF assms(3)] by simp
  then show ?thesis
    using assms(5) Op_state_changed d
    by (auto simp: notifier_service_state_changed_def notify_idle_state_def Let_def distinct_removeAll intro!: known_busy)
next
  case (Op_service_remove q)
  then show ?thesis using assms(5) known_remove[OF known_Suc[OF assms(3)], of q] by (simp add: notifier_service_remove_def)
next
  case (Op_enter_online t)
  then show ?thesis using assms(5) known_enter[OF assms(3,4), of t] by simp
next
  case (Op_leave_online t)
  then show ?thesis using assms(5) known_leave[OF assms(3,4), of t] known_Suc by simp
next
  case (Op_mode b)
  then show ?thesis using assms(5) known_mode[OF known_Suc[OF assms(3)]] by simp
qed (use assms known_Suc known_register[OF assms(1,2,3)] known_connect[OF assms(3,4)] known_disconnect[OF assms(3,4)] in
  \<open>simp_all add: known_unregister known_offlinemode[OF known_Suc[OF assms(3)]]
       notifier_service_add_def notifier_default_changed_def notifier_proxy_changed_def notifier_ipconfig_changed_def\<close>)

lemma next_env_fields: "slist_insert_sorted (next_env e a) = slist_insert_sorted e" "priority (next_env e a) = priority e"
  by (cases a; simp)+

lemma last_env_priority: "priority (last_env e as) = priority e"
  by (induction as arbitrary: e) (simp_all add: next_env_fields)

lemma run_known:
  "sorted_insertion (slist_insert_sorted e) \<Longrightarrow> small_priorities e \<Longrightarrow> known st0 k p e s \<Longrightarrow> int (k + length as) < 2 ^ 31 \<Longrightarrow>
   balanced (online s) as \<Longrightarrow> known st0 (k + length as) (unsettled p as) (last_env e as) (run_notifiers e as s)"
proof (induction as arbitrary: e s k p)
  case (Cons a as)
  have "known st0 (Suc k) (next_unsettled p a) (next_env e a) (notifier_step e a s) \<and> balanced (online (notifier_step e a s)) as"
    using Cons.prems by (intro known_step) auto
  then have "known st0 (Suc k + length as) (unsettled (next_unsettled p a) as) (last_env (next_env e a) as) (run_notifiers (next_env e a) as (notifier_step e a s))"
    using Cons.prems by (intro Cons.IH) (auto simp: next_env_fields small_priorities_def)
  then show ?case by (simp add: unsettled_Cons)
qed simp

section \<open>Properties\<close>

text \<open>
  C22. In every run of fewer than \<open>2 ^ 31\<close> calls in which no type leaves the online state more
  often than it has entered it, the state that the daemon shows is the one of its counters and,
  when nothing is connected, of the offline mode as it was when the state was last evaluated.
  This is the mode now if it was not assigned since the last call that tells of it, which an
  error while the mode is set leaves out. The state shown is the last one announced on the bus,
  no counter is negative, and the modules stand in the order of their priorities, which are of
  a size whose differences are values of an \<open>int\<close>.
\<close>
theorem notifier_state_consistent:
  assumes "sorted_insertion (slist_insert_sorted e)" "small_priorities e" "balanced (\<lambda>_. 0) as" "length as < 2 ^ 31"
    and "s = run_notifiers e as (notifier_init e [])"
  shows "(\<exists>mode. (\<not> unsettled False as \<longrightarrow> mode = offlinemode (last_env e as)) \<and>
      notifier_state s =
        (if \<exists>t. online s t > 0 then ''online'' else if \<exists>t. connected s t > 0 then ''ready''
         else if mode then ''offline'' else ''idle'')) \<and>
    announced (notifier_state (notifier_init e [])) s = notifier_state s \<and>
    (\<forall>t. 0 \<le> connected s t \<and> 0 \<le> online s t) \<and> sorted_wrt (\<lambda>a b. priority e b \<le> priority e a) (notifier_list s)"
proof -
  let ?st0 = "notifier_state (notifier_init e [])"
  have "known ?st0 0 False e (notifier_init e [])" "online (notifier_init e []) = (\<lambda>_. 0)"
    by (simp_all add: known_now known_inv_def notifier_inv_def notifier_init_def state_iff announced_def)
  then have k: "known ?st0 (length as) (unsettled False as) (last_env e as) s"
    using run_known[OF assms(1,2), of ?st0 0 False "notifier_init e []" as] assms(3-5) by simp
  then obtain b where "\<not> unsettled False as \<longrightarrow> b = offlinemode (last_env e as)" "notifier_state s = evaluate_notifier_state (shown (last_env e as) b) s"
    unfolding known_def known_inv_def notifier_inv_def by blast
  then show ?thesis using known_bounds[OF k] by (auto simp: state_iff last_env_priority)
qed

section \<open>Examples\<close>

definition demo_notifier_env :: notifier_env where
  "demo_notifier_env = \<lparr>priority = (\<lambda>n. int n mod 100), has_func = (\<lambda>n f. n \<noteq> 3 \<or> f \<noteq> Idle_state),
     slist_insert_sorted = (\<lambda>xs p cmp. insert_by cmp p xs), offlinemode = False\<rparr>"

definition demo_ops :: "notifier_op list" where
  "demo_ops = [Op_register 3, Op_register 7, Op_state_changed 1 SERVICE_STATE_ASSOCIATION, Op_connect SERVICE_TYPE_WIFI,
     Op_enter_online SERVICE_TYPE_WIFI, Op_connect SERVICE_TYPE_ETHERNET, Op_leave_online SERVICE_TYPE_WIFI,
     Op_mode True, Op_disconnect SERVICE_TYPE_WIFI, Op_offlinemode True]"

theorem notifier_state_consistent_witness:
  "notifier_state (run_notifiers demo_notifier_env demo_ops (notifier_init demo_notifier_env [])) =
     announced (notifier_state (notifier_init demo_notifier_env [])) (run_notifiers demo_notifier_env demo_ops (notifier_init demo_notifier_env []))"
proof -
  have "sorted_insertion (slist_insert_sorted demo_notifier_env)" by (simp add: demo_notifier_env_def ref_insertion.sorted_insertion_axioms)
  moreover have "small_priorities demo_notifier_env"
  proof -
    have "- 1073741824 \<le> int n mod 100 \<and> int n mod 100 < 1073741824" for n
      using pos_mod_bound[of 100 "int n"] pos_mod_sign[of 100 "int n"] by linarith
    then show ?thesis by (simp add: small_priorities_def demo_notifier_env_def)
  qed
  moreover have "balanced (\<lambda>_. 0) demo_ops" "length demo_ops < 2 ^ 31" by (simp_all add: demo_ops_def)
  ultimately show ?thesis using notifier_state_consistent[OF _ _ _ _ refl, of demo_notifier_env demo_ops] by simp
qed

end
