(* ===== verification/DnsMessage.thy ===== *)
theory DnsMessage
  imports Prelude "HOL-Library.Monad_Syntax"
begin

unbundle bit_operations_syntax

text \<open>
  The reading and writing of DNS messages in \<open>src/src/dnsproxy.c\<close>: names with compression
  pointers, resource records, responses, cached lifetimes and requests.

  An object of the C program (a packet buffer, a stack array) is the list of its bytes, and a
  pointer into it is an index. Every access is an \<open>option\<close>: \<open>None\<close> is an access outside the object,
  which C leaves undefined. A function that returns \<open>Some\<close> has touched nothing but its objects;
  error numbers that the code returns are values inside \<open>Some\<close>. The length that the code is told
  (\<open>buflen\<close>, \<open>max\<close>) is an argument of its own, since the buffer behind it can be longer.
\<close>

section \<open>Memory objects\<close>

text \<open>Source and target of \<open>memcpy\<close>.\<close>

definition rd_bytes :: "u8 list \<Rightarrow> nat \<Rightarrow> nat \<Rightarrow> u8 list option" where
  "rd_bytes m i n = (if i + n \<le> length m then Some (take n (drop i m)) else None)"

definition wr_bytes :: "u8 list \<Rightarrow> nat \<Rightarrow> u8 list \<Rightarrow> u8 list option" where
  "wr_bytes m i bs = (if i + length bs \<le> length m then Some (take i m @ bs @ drop (i + length bs) m) else None)"

text \<open>Fields in network byte order.\<close>

definition rd16 :: "u8 list \<Rightarrow> nat \<Rightarrow> nat option" where
  "rd16 m i = do { a \<leftarrow> rd m i; b \<leftarrow> rd m (i + 1); Some (unat a * 256 + unat b) }"

definition rd32 :: "u8 list \<Rightarrow> nat \<Rightarrow> nat option" where
  "rd32 m i = do { a \<leftarrow> rd16 m i; b \<leftarrow> rd16 m (i + 2); Some (a * 65536 + b) }"

definition be16 :: "nat \<Rightarrow> u8 list" where
  "be16 n = [word_of_nat (n div 256), word_of_nat n]"

definition be32 :: "nat \<Rightarrow> u8 list" where
  "be32 n = be16 (n div 65536) @ be16 n"

text \<open>Zero-terminated strings. \<open>c_strlen\<close> runs out of the object when there is no zero in it.\<close>

definition bstr :: "u8 list \<Rightarrow> u8 list" where
  "bstr m = takeWhile (\<lambda>b. b \<noteq> 0) m"

definition c_strlen :: "u8 list \<Rightarrow> nat \<Rightarrow> nat option" where
  "c_strlen m i = (if i + length (bstr (drop i m)) < length m then Some (length (bstr (drop i m))) else None)"

text \<open>\<open>strncmp (a, b, n) == 0\<close> and \<open>strncpy\<close>, which pads with zeros and may leave no terminator.\<close>

definition strncmp_eq :: "u8 list \<Rightarrow> u8 list \<Rightarrow> nat \<Rightarrow> bool" where
  "strncmp_eq a b n \<longleftrightarrow> take n (bstr a) = take n (bstr b)"

definition strncpy_bytes :: "u8 list \<Rightarrow> nat \<Rightarrow> nat \<Rightarrow> u8 list option" where
  "strncpy_bytes m i n =
     (let s = take n (bstr (drop i m)) in
      if n \<le> length s \<or> i + length s < length m then Some (s @ replicate (n - length s) 0) else None)"

section \<open>Constants\<close>

abbreviation (input) "NS_CMPRSFLGS \<equiv> 0xC0 :: u8"
abbreviation (input) "NS_MAXDNAME \<equiv> 1025 :: nat"
abbreviation (input) "NS_MAXCDNAME \<equiv> 255 :: nat"
abbreviation (input) "NS_MAXLABEL \<equiv> 63 :: nat"
abbreviation (input) "DNS_HEADER_SIZE \<equiv> 12 :: nat"
abbreviation (input) "DNS_QUESTION_SIZE \<equiv> 4 :: nat"
abbreviation (input) "DNS_QTYPE_QCLASS_SIZE \<equiv> 4 :: nat"
abbreviation (input) "DNS_RR_SIZE \<equiv> 10 :: nat"
abbreviation (input) "DNS_HEADER_TCP_EXTRA_BYTES \<equiv> 2 :: nat"
abbreviation (input) "DNS_TYPE_A \<equiv> 1 :: nat"
abbreviation (input) "DNS_TYPE_CNAME \<equiv> 5 :: nat"
abbreviation (input) "DNS_TYPE_SOA \<equiv> 6 :: nat"
abbreviation (input) "DNS_TYPE_AAAA \<equiv> 28 :: nat"
abbreviation (input) "DNS_CLASS_IN \<equiv> 1 :: nat"
abbreviation (input) "DNS_CLASS_ANY \<equiv> 255 :: nat"
abbreviation (input) "TCP_MAX_BUF_LEN \<equiv> 4096 :: nat"

text \<open>The two protocols; the code aborts on any other number.\<close>

datatype protocol = IPPROTO_UDP | IPPROTO_TCP

definition protocol_offset :: "protocol \<Rightarrow> nat" where
  "protocol_offset p = (case p of IPPROTO_UDP \<Rightarrow> 0 | IPPROTO_TCP \<Rightarrow> DNS_HEADER_TCP_EXTRA_BYTES)"

section \<open>Names\<close>

definition dns_name_length :: "u8 list \<Rightarrow> nat \<Rightarrow> nat option" where
  "dns_name_length m i =
     do { b \<leftarrow> rd m i;
          if b AND NS_CMPRSFLGS = NS_CMPRSFLGS then Some 2
          else do { n \<leftarrow> c_strlen m i; Some (n + 1) } }"

text \<open>What \<open>get_name\<close> writes through its pointers.\<close>

record name_state =
  ns_output :: "u8 list"
  ns_output_len :: nat
  ns_end :: "nat option"
  ns_name :: "u8 list"
  ns_name_len :: nat

definition name_end :: "nat \<Rightarrow> name_state \<Rightarrow> name_state" where
  "name_end e s = (if ns_end s = None then s\<lparr>ns_end := Some e\<rparr> else s)"

text \<open>One label: its length and bytes (with the byte after it) go to \<open>name\<close>, the pointer to \<open>output\<close>.\<close>

definition copy_label :: "u8 list \<Rightarrow> nat \<Rightarrow> u8 \<Rightarrow> name_state \<Rightarrow> name_state option" where
  "copy_label pkt p b s =
     do { name1 \<leftarrow> wr_bytes (ns_name s) (ns_name_len s) [b];
          lab \<leftarrow> rd_bytes pkt (p + 1) (unat b + 1);
          name2 \<leftarrow> wr_bytes name1 (ns_name_len s + 1) lab;
          out \<leftarrow> wr_bytes (ns_output s) 0 [NS_CMPRSFLGS, 0x0C];
          Some (name_end (p + unat b + 1)
            (s\<lparr>ns_name := name2, ns_name_len := ns_name_len s + 1 + unat b, ns_output := out, ns_output_len := 2\<rparr>)) }"

text \<open>The loop of \<open>get_name\<close> with its recursive call, which is a tail call.\<close>

function get_name_loop ::
  "nat \<Rightarrow> u8 list \<Rightarrow> nat \<Rightarrow> nat \<Rightarrow> nat \<Rightarrow> nat \<Rightarrow> name_state \<Rightarrow> (unit result \<times> name_state) option" where
  "get_name_loop counter pkt lim output_max max_name p s =
     do { b \<leftarrow> rd pkt p;
          if b = 0 then Some (Inr (), s)
          else if b AND NS_CMPRSFLGS = NS_CMPRSFLGS then
            do { b1 \<leftarrow> rd pkt (p + 1);
                 let offset = unat (b AND 0x3F) * 256 + unat b1 in
                 if lim \<le> offset then Some (Inl ENOBUFS, s)
                 else if 10 < counter + 1 then Some (Inl EINVAL, name_end (p + 2) s)
                 else get_name_loop (counter + 1) pkt lim output_max max_name offset (name_end (p + 2) s) }
          else if lim < unat b then Some (Inl ENOBUFS, s)
          else if output_max < ns_output_len s then Some (Inl ENOBUFS, s)
          else if max_name < ns_name_len s + 1 + unat b + 1 then Some (Inl ENOBUFS, s)
          else do { s1 \<leftarrow> copy_label pkt p b s;
                    if lim \<le> p + unat b + 1 then Some (Inl ENOBUFS, s1)
                    else get_name_loop counter pkt lim output_max max_name (p + unat b + 1) s1 } }"
  by pat_completeness auto
termination
  by (relation "measures [\<lambda>(c, pkt, lim, om, mn, p, s). 11 - c, \<lambda>(c, pkt, lim, om, mn, p, s). lim - p]") auto

declare get_name_loop.simps [simp del]

definition get_name ::
  "nat \<Rightarrow> u8 list \<Rightarrow> nat \<Rightarrow> nat \<Rightarrow> nat \<Rightarrow> nat \<Rightarrow> name_state \<Rightarrow> (unit result \<times> name_state) option" where
  "get_name counter pkt start lim output_max max_name s =
     (if 10 < counter then Some (Inl EINVAL, s)
      else get_name_loop counter pkt lim output_max max_name start s)"

section \<open>Resource records\<close>

text \<open>What \<open>parse_rr\<close> writes through its pointers.\<close>

record rr_state =
  rr_type :: nat
  rr_class :: nat
  rr_ttl :: nat
  rr_rdlen :: nat
  rr_end :: "nat option"
  rr_rsp :: "u8 list"
  rr_rsp_len :: nat
  rr_name :: "u8 list"

text \<open>
  \<open>parse_rr\<close> after the name. The fields are set before the checks; a lifetime with the top bit set
  is a negative \<open>int\<close> in the code.
\<close>

definition parse_rr_fields :: "u8 list \<Rightarrow> nat \<Rightarrow> nat \<Rightarrow> nat \<Rightarrow> rr_state \<Rightarrow> (unit result \<times> rr_state) option" where
  "parse_rr_fields buf lim offset e s =
     do { ty \<leftarrow> rd16 buf e;
          cl \<leftarrow> rd16 buf (e + 2);
          ttl \<leftarrow> rd32 buf (e + 4);
          rdlen \<leftarrow> rd16 buf (e + 8);
          let s1 = s\<lparr>rr_type := ty, rr_class := cl, rr_ttl := ttl, rr_rdlen := rdlen\<rparr> in
          if 2 ^ 31 \<le> ttl then Some (Inl EINVAL, s1)
          else do { fixed \<leftarrow> rd_bytes buf e DNS_RR_SIZE;
                    rsp1 \<leftarrow> wr_bytes (rr_rsp s1) offset fixed;
                    let s2 = s1\<lparr>rr_rsp := rsp1, rr_end := Some (e + DNS_RR_SIZE)\<rparr> in
                    if rr_rsp_len s2 < offset + DNS_RR_SIZE + rdlen then Some (Inl ENOBUFS, s2)
                    else if lim < e + DNS_RR_SIZE + rdlen then Some (Inl EINVAL, s2)
                    else do { d \<leftarrow> rd_bytes buf (e + DNS_RR_SIZE) rdlen;
                              rsp2 \<leftarrow> wr_bytes rsp1 (offset + DNS_RR_SIZE) d;
                              Some (Inr (), s2\<lparr>rr_rsp := rsp2, rr_end := Some (e + DNS_RR_SIZE + rdlen),
                                rr_rsp_len := offset + DNS_RR_SIZE + rdlen\<rparr>) } } }"

definition parse_rr :: "u8 list \<Rightarrow> nat \<Rightarrow> nat \<Rightarrow> nat \<Rightarrow> rr_state \<Rightarrow> (unit result \<times> rr_state) option" where
  "parse_rr buf start lim max_name s =
     do { (r, n) \<leftarrow> get_name 0 buf start lim (rr_rsp_len s) max_name
            \<lparr>ns_output = rr_rsp s, ns_output_len = 0, ns_end = rr_end s, ns_name = rr_name s, ns_name_len = 0\<rparr>;
          let s1 = s\<lparr>rr_rsp := ns_output n, rr_end := ns_end n, rr_name := ns_name n\<rparr> in
          case r of
            Inl e \<Rightarrow> Some (Inl e, s1)
          | Inr u \<Rightarrow>
              if rr_rsp_len s < ns_output_len n then Some (Inl ENOBUFS, s1)
              else case ns_end n of
                None \<Rightarrow> Some (Inl EINVAL, s1)
              | Some e \<Rightarrow> parse_rr_fields buf lim (ns_output_len n) e s1 }"

section \<open>Responses\<close>

definition check_alias :: "u8 list list \<Rightarrow> u8 list \<Rightarrow> bool" where
  "check_alias aliases name = list_ex (\<lambda>a. strncmp_eq a name NS_MAXDNAME) aliases"

text \<open>
  The state of the loop of \<open>parse_response\<close> over the answers: its position, what it has found and
  the type, class and lifetime of the last record read, which are output parameters.
\<close>

record response_state =
  rs_ptr :: nat
  rs_aliases :: "u8 list list"
  rs_err :: "unit result"
  rs_type :: nat
  rs_class :: nat
  rs_ttl :: nat
  rs_response :: "u8 list"
  rs_response_len :: nat
  rs_answers :: nat

definition fresh_rr :: "response_state \<Rightarrow> rr_state" where
  "fresh_rr s = \<lparr>rr_type = rs_type s, rr_class = rs_class s, rr_ttl = rs_ttl s, rr_rdlen = 0, rr_end = None,
     rr_rsp = replicate NS_MAXCDNAME 0, rr_rsp_len = NS_MAXCDNAME - 1, rr_name = replicate (NS_MAXDNAME + 1) 0\<rparr>"

text \<open>The alias that the record data of a \<open>CNAME\<close> names; an error is ignored.\<close>

definition read_alias :: "u8 list \<Rightarrow> nat \<Rightarrow> rr_state \<Rightarrow> response_state \<Rightarrow> response_state option" where
  "read_alias buf buflen r s =
     do { (ret, n) \<leftarrow> get_name 0 buf (the (rr_end r) - rr_rdlen r) buflen (NS_MAXCDNAME - 1) NS_MAXDNAME
            \<lparr>ns_output = replicate NS_MAXCDNAME 0, ns_output_len = 0, ns_end = None, ns_name = rr_name r, ns_name_len = 0\<rparr>;
          Some (case ret of Inl e \<Rightarrow> s | Inr u \<Rightarrow> s\<lparr>rs_aliases := bstr (ns_name n) # rs_aliases s\<rparr>) }"

text \<open>One answer; the boolean says whether the loop goes on.\<close>

definition parse_answer ::
  "u8 list \<Rightarrow> nat \<Rightarrow> u8 list \<Rightarrow> nat \<Rightarrow> nat \<Rightarrow> nat \<Rightarrow> response_state \<Rightarrow> (bool \<times> response_state) option" where
  "parse_answer buf buflen question qtype qclass maxlen s =
     do { (ret, r) \<leftarrow> parse_rr buf (rs_ptr s) buflen NS_MAXDNAME (fresh_rr s);
          let s1 = s\<lparr>rs_type := rr_type r, rs_class := rr_class r, rs_ttl := rr_ttl r\<rparr> in
          case ret of
            Inl e \<Rightarrow> Some (False, s1\<lparr>rs_err := Inl e\<rparr>)
          | Inr u \<Rightarrow>
              let s2 = s1\<lparr>rs_ptr := the (rr_end r)\<rparr>; qlen = length (bstr question) in
              if rr_class r \<noteq> qclass then Some (True, s2)
              else if rr_type r = DNS_TYPE_CNAME \<and> strncmp_eq question (rr_name r) qlen then
                do { s3 \<leftarrow> read_alias buf buflen r s2; Some (True, s3) }
              else if rr_type r = qtype \<and>
                 (check_alias (rs_aliases s2) (rr_name r) \<or>
                  rs_aliases s2 = [] \<and> strncmp_eq question (rr_name r) qlen) then
                (if maxlen < rs_response_len s2 + rr_rsp_len r then Some (False, s2\<lparr>rs_err := Inl ENOBUFS\<rparr>)
                 else do { d \<leftarrow> rd_bytes (rr_rsp r) 0 (rr_rsp_len r);
                           resp \<leftarrow> wr_bytes (rs_response s2) (rs_response_len s2) d;
                           Some (True, s2\<lparr>rs_response := resp, rs_response_len := rs_response_len s2 + rr_rsp_len r,
                             rs_answers := rs_answers s2 + 1, rs_err := Inr ()\<rparr>) })
              else Some (True, s2) }"

fun parse_answers ::
  "nat \<Rightarrow> u8 list \<Rightarrow> nat \<Rightarrow> u8 list \<Rightarrow> nat \<Rightarrow> nat \<Rightarrow> nat \<Rightarrow> response_state \<Rightarrow> response_state option" where
  "parse_answers 0 buf buflen question qtype qclass maxlen s = Some s"
| "parse_answers (Suc n) buf buflen question qtype qclass maxlen s =
     do { (go_on, s1) \<leftarrow> parse_answer buf buflen question qtype qclass maxlen s;
          if go_on then parse_answers n buf buflen question qtype qclass maxlen s1 else Some s1 }"

definition hdr_qr :: "u8 list \<Rightarrow> nat \<Rightarrow> bool option" where
  "hdr_qr m i = do { b \<leftarrow> rd m (i + 2); Some (bit b 7) }"

definition hdr_rcode :: "u8 list \<Rightarrow> nat \<Rightarrow> nat option" where
  "hdr_rcode m i = do { b \<leftarrow> rd m (i + 3); Some (unat (b AND 0x0F)) }"

text \<open>
  \<open>parse_response\<close> on the message in \<open>buf\<close>. \<open>question\<close> is the caller's array of \<open>qlen + 1\<close> bytes
  with a zero at its end and otherwise any content; the result holds its content afterwards.
\<close>

definition parse_response ::
  "u8 list \<Rightarrow> nat \<Rightarrow> u8 list \<Rightarrow> nat \<Rightarrow> response_state \<Rightarrow> (u8 list \<times> response_state) option" where
  "parse_response buf buflen question qlen s =
     (let maxlen = rs_response_len s; s0 = s\<lparr>rs_response_len := 0, rs_answers := 0, rs_aliases := []\<rparr> in
      if buflen < DNS_HEADER_SIZE then Some (question, s0\<lparr>rs_err := Inl EINVAL\<rparr>)
      else do {
        qdcount \<leftarrow> rd16 buf 4;
        qr \<leftarrow> hdr_qr buf 0;
        if \<not> qr \<or> qdcount \<noteq> 1 then Some (question, s0\<lparr>rs_err := Inl EINVAL\<rparr>)
        else do {
          q \<leftarrow> strncpy_bytes buf DNS_HEADER_SIZE (min qlen (buflen - DNS_HEADER_SIZE));
          question1 \<leftarrow> wr_bytes question 0 q;
          n \<leftarrow> c_strlen question1 0;
          let ptr = DNS_HEADER_SIZE + n + 1 in
          if buflen \<le> ptr + DNS_QUESTION_SIZE then Some (question1, s0\<lparr>rs_err := Inl EINVAL\<rparr>)
          else do {
            qtype \<leftarrow> rd16 buf ptr;
            if qtype \<noteq> DNS_TYPE_A \<and> qtype \<noteq> DNS_TYPE_AAAA then Some (question1, s0\<lparr>rs_err := Inl ENOMSG\<rparr>)
            else do {
              ancount \<leftarrow> rd16 buf 6;
              qclass \<leftarrow> rd16 buf (ptr + 2);
              s1 \<leftarrow> parse_answers ancount buf buflen question1 qtype qclass maxlen
                     (s0\<lparr>rs_ptr := ptr + DNS_QUESTION_SIZE, rs_err := Inl ENOMSG\<rparr>);
              Some (question1, s1) } } } })"


section \<open>Lifetimes of cached answers\<close>

text \<open>The loop of \<open>update_cached_ttl\<close> over the records; \<open>raw\<close> is the lifetime in network order.\<close>

function update_ttl_loop :: "u8 list \<Rightarrow> nat \<Rightarrow> nat \<Rightarrow> u8 list \<Rightarrow> u8 list option" where
  "update_ttl_loop m p len raw =
     (if len = 0 then Some m
      else do { n \<leftarrow> dns_name_length m p;
                if len < n then Some m
                else if len - n < DNS_RR_SIZE then Some m
                else do { m1 \<leftarrow> wr_bytes m (p + n + 4) raw;
                          rdlen \<leftarrow> rd16 m1 (p + n + 8);
                          if len - n < DNS_RR_SIZE + rdlen then Some m1
                          else update_ttl_loop m1 (p + n + (DNS_RR_SIZE + rdlen)) (len - n - (DNS_RR_SIZE + rdlen)) raw } })"
  by pat_completeness auto
termination
  by (relation "measure (\<lambda>(m, p, len, raw). len)") auto

declare update_ttl_loop.simps [simp del]

definition update_cached_ttl :: "u8 list \<Rightarrow> nat \<Rightarrow> nat \<Rightarrow> int \<Rightarrow> u8 list option" where
  "update_cached_ttl m ptr len new_ttl =
     (if new_ttl < 0 \<or> len < DNS_HEADER_SIZE + DNS_QUESTION_SIZE + 1 then Some m
      else do { n \<leftarrow> dns_name_length m (ptr + DNS_HEADER_SIZE);
                if len - DNS_HEADER_SIZE < n + DNS_QUESTION_SIZE then Some m
                else update_ttl_loop m (ptr + DNS_HEADER_SIZE + (n + DNS_QUESTION_SIZE))
                       (len - DNS_HEADER_SIZE - (n + DNS_QUESTION_SIZE)) (be32 (nat new_ttl)) })"

definition reply_query_type :: "u8 list \<Rightarrow> nat \<Rightarrow> nat \<Rightarrow> nat option" where
  "reply_query_type msg ptr len =
     (if len < DNS_HEADER_SIZE then Some 0
      else do { n \<leftarrow> dns_name_length msg (ptr + DNS_HEADER_SIZE); rd16 msg (ptr + DNS_HEADER_SIZE + n) })"

section \<open>Queries\<close>

text \<open>The distance to the next dot or the end of the string, from \<open>strchrnul\<close>.\<close>

abbreviation (input) "DOT \<equiv> 46 :: u8"

definition label_span :: "u8 list \<Rightarrow> nat \<Rightarrow> nat option" where
  "label_span data d =
     (let s = takeWhile (\<lambda>b. b \<noteq> 0 \<and> b \<noteq> DOT) (drop d data) in
      if d + length s < length data then Some (length s) else None)"

text \<open>
  The loop of \<open>append_data\<close>: it goes on behind the dot, and behind the end of the string as well,
  since \<open>strchrnul\<close> never returns a null pointer. The result is the new position, or \<open>None\<close> for -1.
\<close>

function append_data_loop :: "u8 list \<Rightarrow> nat \<Rightarrow> nat \<Rightarrow> u8 list \<Rightarrow> nat \<Rightarrow> (nat option \<times> u8 list) option" where
  "append_data_loop buf ptr sz data d =
     do { len \<leftarrow> label_span data d;
          if len = 0 then Some (Some ptr, buf)
          else if sz < len + 1 then Some (None, buf)
          else do { buf1 \<leftarrow> wr_bytes buf ptr [word_of_nat len];
                    src \<leftarrow> rd_bytes data d len;
                    buf2 \<leftarrow> wr_bytes buf1 (ptr + 1) src;
                    append_data_loop buf2 (ptr + (len + 1)) (sz - (len + 1)) data (d + len + 1) } }"
  by pat_completeness auto
termination
  by (relation "measure (\<lambda>(buf, ptr, sz, data, d). sz)") auto

declare append_data_loop.simps [simp del]

definition append_data :: "u8 list \<Rightarrow> nat \<Rightarrow> nat \<Rightarrow> u8 list \<Rightarrow> (nat option \<times> u8 list) option" where
  "append_data buf ptr sz data =
     do { (r, buf1) \<leftarrow> append_data_loop buf ptr sz data 0; Some (map_option (\<lambda>q. q - ptr) r, buf1) }"

definition append_query :: "u8 list \<Rightarrow> nat \<Rightarrow> nat \<Rightarrow> u8 list \<Rightarrow> u8 list \<Rightarrow> (nat option \<times> u8 list) option" where
  "append_query buf ptr sz query domain =
     do { (r1, buf1) \<leftarrow> append_data buf ptr sz query;
          case r1 of
            None \<Rightarrow> Some (None, buf1)
          | Some n1 \<Rightarrow>
              do { (r2, buf2) \<leftarrow> append_data buf1 (ptr + n1) (sz - n1) domain;
                   case r2 of
                     None \<Rightarrow> Some (None, buf2)
                   | Some n2 \<Rightarrow>
                       let left_size = sz - n1 - n2; added = sz - left_size in
                       if left_size = 0 then Some (None, buf2)
                       else do { buf3 \<leftarrow> wr_bytes buf2 (ptr + added) [0]; Some (Some added, buf3) } } }"

text \<open>\<open>strncat\<close> of at most \<open>n\<close> bytes at index \<open>i\<close> of \<open>m\<close>, and \<open>strcat\<close> of a dot.\<close>

definition strncat_bytes :: "u8 list \<Rightarrow> u8 list \<Rightarrow> nat \<Rightarrow> nat \<Rightarrow> u8 list option" where
  "strncat_bytes name m i n =
     do { k \<leftarrow> c_strlen name 0;
          let s = take n (bstr (drop i m)) in
          if n \<le> length s \<or> i + length s < length m then wr_bytes name k (s @ [0]) else None }"

definition strcat_dot :: "u8 list \<Rightarrow> u8 list option" where
  "strcat_dot name = do { k \<leftarrow> c_strlen name 0; wr_bytes name k [DOT, 0] }"

text \<open>Subtraction of \<open>size_t\<close>.\<close>

definition size_sub :: "nat \<Rightarrow> nat \<Rightarrow> nat" where
  "size_sub a b = (a + 2 ^ 64 - b) mod 2 ^ 64"

text \<open>The loop of \<open>parse_request\<close> over the labels; the result has the position behind the question and what remains.\<close>

function parse_request_loop ::
  "u8 list \<Rightarrow> nat \<Rightarrow> nat \<Rightarrow> nat \<Rightarrow> nat \<Rightarrow> u8 list \<Rightarrow> ((nat \<times> nat) result \<times> u8 list) option" where
  "parse_request_loop buf ptr remain used sz name =
     (if remain = 0 then Some (Inr (ptr, remain), name)
      else do { b \<leftarrow> rd buf ptr;
                if b = 0 then
                  (if remain < DNS_QTYPE_QCLASS_SIZE then Some (Inl EINVAL, name)
                   else do { cl \<leftarrow> rd16 buf (ptr + 3);
                             if cl \<noteq> DNS_CLASS_IN \<and> cl \<noteq> DNS_CLASS_ANY then Some (Inl EINVAL, name)
                             else Some (Inr (ptr + 5, size_sub remain 5), name) })
                else if sz < used + unat b + 1 then Some (Inl ENOBUFS, name)
                else do { name1 \<leftarrow> strncat_bytes name buf (ptr + 1) (unat b);
                          name2 \<leftarrow> strcat_dot name1;
                          parse_request_loop buf (ptr + unat b + 1) (size_sub remain (unat b + 1)) (used + unat b + 1) sz name2 } })"
  by pat_completeness auto
termination
  by (relation "measure (\<lambda>(buf, ptr, remain, used, sz, name). sz - used)") auto

declare parse_request_loop.simps [simp del]

text \<open>The reads with which the code recognises an EDNS0 record, which it only reports.\<close>

definition edns0_reads :: "u8 list \<Rightarrow> nat \<Rightarrow> unit option" where
  "edns0_reads buf ptr =
     do { a \<leftarrow> rd buf ptr;
          if a \<noteq> 0 then Some ()
          else do { b \<leftarrow> rd buf (ptr + 1);
                    if b \<noteq> 0 then Some ()
                    else do { c \<leftarrow> rd buf (ptr + 2);
                              if c \<noteq> 0x29 then Some () else do { cl \<leftarrow> rd16 buf (ptr + 3); Some () } } } }"

definition parse_request :: "u8 list \<Rightarrow> nat \<Rightarrow> nat \<Rightarrow> u8 list \<Rightarrow> nat \<Rightarrow> (unit result \<times> u8 list) option" where
  "parse_request buf off len name sz =
     (if len < DNS_HEADER_SIZE + DNS_QTYPE_QCLASS_SIZE then Some (Inl EINVAL, name)
      else if sz = 0 then Some (Inl EINVAL, name)
      else do {
        qdcount \<leftarrow> rd16 buf (off + 4);
        ancount \<leftarrow> rd16 buf (off + 6);
        nscount \<leftarrow> rd16 buf (off + 8);
        arcount \<leftarrow> rd16 buf (off + 10);
        qr \<leftarrow> hdr_qr buf off;
        if qr \<or> qdcount \<noteq> 1 \<or> ancount \<noteq> 0 \<or> nscount \<noteq> 0 then Some (Inl EINVAL, name)
        else do {
          name1 \<leftarrow> wr_bytes name 0 [0];
          (r, name2) \<leftarrow> parse_request_loop buf (off + DNS_HEADER_SIZE) (len - DNS_HEADER_SIZE) 0 sz name1;
          case r of
            Inl e \<Rightarrow> Some (Inl e, name2)
          | Inr (ptr, remain) \<Rightarrow>
              if arcount \<noteq> 0 \<and> DNS_RR_SIZE + 1 \<le> remain then do { u \<leftarrow> edns0_reads buf ptr; Some (Inr (), name2) }
              else Some (Inr (), name2) } })"

definition get_msg_len :: "u8 list \<Rightarrow> nat option" where
  "get_msg_len buf = rd16 buf 0"

section \<open>Memory accesses\<close>

named_theorems access \<open>accesses inside an object\<close>

lemma rd_in [access]: "i < length m \<Longrightarrow> rd m i = Some (m ! i)"
  by (simp add: rd_def)

lemma rd_bytes_in [access]: "i + n \<le> length m \<Longrightarrow> rd_bytes m i n = Some (take n (drop i m))"
  by (simp add: rd_bytes_def)

lemma wr_bytes_in [access]:
  "i + length bs \<le> length m \<Longrightarrow> wr_bytes m i bs = Some (take i m @ bs @ drop (i + length bs) m)"
  by (simp add: wr_bytes_def)

lemma rd16_in [access]: "i + 1 < length m \<Longrightarrow> rd16 m i = Some (unat (m ! i) * 256 + unat (m ! (i + 1)))"
  by (simp add: rd16_def rd_def)

lemma rd32_in [access]:
  "i + 3 < length m \<Longrightarrow> rd32 m i = Some ((unat (m ! i) * 256 + unat (m ! (i + 1))) * 65536
     + (unat (m ! (i + 2)) * 256 + unat (m ! (i + 3))))"
  by (simp add: rd32_def rd16_in numeral_3_eq_3)

lemma wr_bytes_SomeD:
  assumes "wr_bytes m i bs = Some m'"
  shows "i + length bs \<le> length m" "length m' = length m" "m' = take i m @ bs @ drop (i + length bs) m"
  using assms by (auto simp: wr_bytes_def split: if_splits)

lemma drop_wr_bytes: "wr_bytes m i bs = Some m' \<Longrightarrow> i + length bs \<le> k \<Longrightarrow> drop k m' = drop k m"
  using wr_bytes_SomeD [of m i bs m'] by simp

lemma wr_bytes_wr_bytes:
  assumes "i + length as + length bs \<le> length m"
  shows "wr_bytes (take i m @ as @ drop (i + length as) m) (i + length as) bs =
    Some (take i m @ as @ bs @ drop (i + length as + length bs) m)"
  using assms by (simp add: wr_bytes_def add.commute add.left_commute)

lemma wr_bytes_append: "wr_bytes m n d = Some m' \<Longrightarrow> take (n + length d) m' = take n m @ d"
  using wr_bytes_SomeD [of m n d m'] by simp

lemma length_bstr: "length (bstr m) \<le> length m"
  by (simp add: bstr_def length_takeWhile_le)

lemma bstr_terminated: "0 \<in> set m \<Longrightarrow> length (bstr m) < length m"
  by (induction m) (auto simp: bstr_def)

lemma c_strlen_in: "i < length m \<Longrightarrow> last m = 0 \<Longrightarrow> c_strlen m i = Some (length (bstr (drop i m)))"
proof -
  assume i: "i < length m" and l: "last m = 0"
  then have "last (drop i m) = 0" and "drop i m \<noteq> []" by (simp_all add: last_drop)
  then have "0 \<in> set (drop i m)" using last_in_set by metis
  from bstr_terminated [OF this] i show ?thesis by (simp add: c_strlen_def)
qed

lemma unat_u8_less [simp]: "unat (b :: u8) < 256"
  using unsigned_less [of b] by simp

lemma compressed_iff: "b AND NS_CMPRSFLGS = NS_CMPRSFLGS \<longleftrightarrow> 192 \<le> unat b"
proof -
  have "(NS_CMPRSFLGS :: u8) = push_bit 6 (mask 2)" by (simp add: mask_eq_exp_minus_1)
  then have "unat (b AND NS_CMPRSFLGS) = unat b div 64 mod 4 * 64"
    using unat_and_field [of 6 2 b] by simp
  moreover have "b AND NS_CMPRSFLGS = NS_CMPRSFLGS \<longleftrightarrow> unat (b AND NS_CMPRSFLGS) = 192"
    by (simp only: unat_inj_word) simp
  moreover have "unat b div 64 mod 4 = 3 \<longleftrightarrow> 192 \<le> unat b"
  proof -
    have "unat b div 64 < 4" by (simp add: div_less_iff_less_mult)
    then have "unat b div 64 mod 4 = 3 \<longleftrightarrow> 3 \<le> unat b div 64" by auto
    then show ?thesis by (simp add: less_eq_div_iff_mult_less_eq)
  qed
  ultimately show ?thesis by auto
qed

lemma unat_low6: "unat (b AND 0x3F :: u8) = unat b mod 64"
proof -
  have "(0x3F :: u8) = push_bit 0 (mask 6)" by (simp add: mask_eq_exp_minus_1)
  then show ?thesis using unat_and_field [of 0 6 b] by simp
qed

section \<open>Names stay inside their buffers\<close>

lemma set_end_simps [simp]:
  "ns_name (name_end e s) = ns_name s" "ns_name_len (name_end e s) = ns_name_len s"
  "ns_output (name_end e s) = ns_output s" "ns_output_len (name_end e s) = ns_output_len s"
  "ns_end (name_end e s) = (if ns_end s = None then Some e else ns_end s)"
  by (simp_all add: name_end_def)

lemma copy_label_in:
  assumes "p + unat b + 2 \<le> length pkt" "ns_name_len s + unat b + 2 \<le> length (ns_name s)" "2 \<le> length (ns_output s)"
  shows "copy_label pkt p b s =
    Some (name_end (p + unat b + 1)
      (s\<lparr>ns_name := take (ns_name_len s) (ns_name s) @ b # take (unat b + 1) (drop (p + 1) pkt)
            @ drop (ns_name_len s + unat b + 2) (ns_name s),
         ns_name_len := ns_name_len s + 1 + unat b, ns_output := NS_CMPRSFLGS # 0x0C # drop 2 (ns_output s),
         ns_output_len := 2\<rparr>))"
proof -
  define lab where "lab = take (unat b + 1) (drop (p + 1) pkt)"
  have l: "length lab = unat b + 1" using assms(1) by (simp add: lab_def)
  have "wr_bytes (ns_name s) (ns_name_len s) [b] = Some (take (ns_name_len s) (ns_name s) @ [b] @ drop (ns_name_len s + 1) (ns_name s))"
    using assms(2) by (simp add: access)
  moreover have "rd_bytes pkt (p + 1) (unat b + 1) = Some lab" using assms(1) by (simp add: rd_bytes_def lab_def)
  moreover have "wr_bytes (take (ns_name_len s) (ns_name s) @ [b] @ drop (ns_name_len s + 1) (ns_name s)) (ns_name_len s + 1) lab =
      Some (take (ns_name_len s) (ns_name s) @ [b] @ lab @ drop (ns_name_len s + 1 + length lab) (ns_name s))"
    using wr_bytes_wr_bytes [of "ns_name_len s" "[b]" lab "ns_name s"] assms(2) l by simp
  moreover have "wr_bytes (ns_output s) 0 [NS_CMPRSFLGS, 0x0C] = Some (NS_CMPRSFLGS # 0x0C # drop 2 (ns_output s))"
    using assms(3) by (simp add: access numeral_2_eq_2)
  ultimately show ?thesis unfolding copy_label_def using l by (simp add: lab_def)
qed

text \<open>
  What reading a name leaves alone: the size of the two buffers, the name buffer from \<open>max_name\<close>
  on, and an end that is already known. A name that is not empty has the pointer as its short form.
\<close>

definition name_frame :: "nat \<Rightarrow> name_state \<Rightarrow> name_state \<Rightarrow> bool" where
  "name_frame m s t \<longleftrightarrow>
     length (ns_name t) = length (ns_name s) \<and> drop m (ns_name t) = drop m (ns_name s) \<and>
     length (ns_output t) = length (ns_output s) \<and>
     (ns_output t = ns_output s \<and> ns_output_len t = ns_output_len s \<and> ns_name t = ns_name s \<and> ns_name_len t = ns_name_len s \<or>
      ns_output_len t = 2 \<and> take 2 (ns_output t) = [NS_CMPRSFLGS, 0x0C] \<and> ns_name_len s < ns_name_len t) \<and>
     (ns_end s \<noteq> None \<longrightarrow> ns_end t = ns_end s)"

lemma name_frame_refl: "name_frame m s s"
  by (simp add: name_frame_def)

lemma name_frame_set_end: "name_frame m s (name_end e s)"
  by (simp add: name_frame_def)

lemma name_frame_trans: "name_frame m s t \<Longrightarrow> name_frame m t u \<Longrightarrow> name_frame m s u"
  unfolding name_frame_def by auto

lemma copy_label_frame:
  assumes "copy_label pkt p b s = Some t" "ns_name_len s + 1 + unat b + 1 \<le> m"
  shows "name_frame m s t" "ns_end s = None \<Longrightarrow> ns_end t = Some (p + unat b + 1)"
proof -
  from assms(1) obtain n1 lab n2 out where w: "wr_bytes (ns_name s) (ns_name_len s) [b] = Some n1"
      "rd_bytes pkt (p + 1) (unat b + 1) = Some lab" "wr_bytes n1 (ns_name_len s + 1) lab = Some n2"
      "wr_bytes (ns_output s) 0 [NS_CMPRSFLGS, 0x0C] = Some out"
    and t: "t = name_end (p + unat b + 1) (s\<lparr>ns_name := n2, ns_name_len := ns_name_len s + 1 + unat b,
      ns_output := out, ns_output_len := 2\<rparr>)"
    by (auto simp: copy_label_def bind_eq_Some_conv)
  have l: "length lab = unat b + 1" using w(2) by (auto simp: rd_bytes_def split: if_splits)
  have "drop m n2 = drop m (ns_name s)"
    using drop_wr_bytes [OF w(3), of m] drop_wr_bytes [OF w(1), of m] assms(2) l by simp
  moreover have "take 2 out = [NS_CMPRSFLGS, 0x0C]" using wr_bytes_SomeD [OF w(4)] by simp
  ultimately show "name_frame m s t"
    using t wr_bytes_SomeD(2) [OF w(1)] wr_bytes_SomeD(2) [OF w(3)] wr_bytes_SomeD(2) [OF w(4)]
    by (simp add: name_frame_def)
  show "ns_end s = None \<Longrightarrow> ns_end t = Some (p + unat b + 1)" by (simp add: t)
qed

text \<open>The three kinds of byte a name continues with.\<close>

lemma get_name_loop_root: "rd pkt p = Some 0 \<Longrightarrow> get_name_loop counter pkt lim om m p s = Some (Inr (), s)"
  by (subst get_name_loop.simps) simp

lemma get_name_loop_ptr:
  assumes "rd pkt p = Some b" "192 \<le> unat b"
  shows "get_name_loop counter pkt lim om m p s =
    do { b1 \<leftarrow> rd pkt (p + 1);
         if lim \<le> unat b mod 64 * 256 + unat b1 then Some (Inl ENOBUFS, s)
         else if 10 < counter + 1 then Some (Inl EINVAL, name_end (p + 2) s)
         else get_name_loop (counter + 1) pkt lim om m (unat b mod 64 * 256 + unat b1) (name_end (p + 2) s) }"
proof -
  have "b \<noteq> 0" using assms(2) by auto
  then show ?thesis
    using assms by (subst get_name_loop.simps) (simp only: bind.bind_lunit compressed_iff unat_low6 Let_def if_False if_True simp_thms)
qed

lemma get_name_loop_label:
  assumes "rd pkt p = Some b" "b \<noteq> 0" "unat b < 192"
  shows "get_name_loop counter pkt lim om m p s =
    (if lim < unat b \<or> om < ns_output_len s \<or> m < ns_name_len s + 1 + unat b + 1 then Some (Inl ENOBUFS, s)
     else do { s1 \<leftarrow> copy_label pkt p b s;
               if lim \<le> p + unat b + 1 then Some (Inl ENOBUFS, s1)
               else get_name_loop counter pkt lim om m (p + unat b + 1) s1 })"
  using assms by (subst get_name_loop.simps) (simp only: bind.bind_lunit compressed_iff not_le [symmetric] if_False if_True simp_thms split: if_split; blast)

lemma get_name_loop_None: "rd pkt p = None \<Longrightarrow> get_name_loop counter pkt lim om m p s = None"
  by (subst get_name_loop.simps) simp

text \<open>Induction along the steps of the loop.\<close>

lemma get_name_loop_induct [case_names fault root ptr label]:
  fixes P :: "nat \<Rightarrow> nat \<Rightarrow> name_state \<Rightarrow> bool"
  assumes fault: "\<And>counter p s. rd pkt p = None \<Longrightarrow> P counter p s"
    and root: "\<And>counter p s. rd pkt p = Some 0 \<Longrightarrow> P counter p s"
    and ptr: "\<And>counter p s b. \<lbrakk>rd pkt p = Some b; 192 \<le> unat b;
        \<And>b1. \<lbrakk>rd pkt (p + 1) = Some b1; unat b mod 64 * 256 + unat b1 < lim; counter < 10\<rbrakk> \<Longrightarrow>
          P (counter + 1) (unat b mod 64 * 256 + unat b1) (name_end (p + 2) s)\<rbrakk> \<Longrightarrow> P counter p s"
    and label: "\<And>counter p s b. \<lbrakk>rd pkt p = Some b; b \<noteq> 0; unat b < 192;
        \<And>s1. \<lbrakk>ns_name_len s + 1 + unat b + 1 \<le> m; copy_label pkt p b s = Some s1; p + unat b + 1 < lim\<rbrakk> \<Longrightarrow>
          P counter (p + unat b + 1) s1\<rbrakk> \<Longrightarrow> P counter p s"
  shows "P counter p s"
proof (induction "(counter, p, s)" arbitrary: counter p s rule: wf_induct [OF wf_measures
      [of "[\<lambda>(c, p, s). 11 - c, \<lambda>(c, p, s). lim - p]"], case_names less])
  case (less counter p s)
  consider "rd pkt p = None" | "rd pkt p = Some 0" | b where "rd pkt p = Some b" "b \<noteq> 0" "192 \<le> unat b"
    | b where "rd pkt p = Some b" "b \<noteq> 0" "unat b < 192"
    by (cases "rd pkt p") (use not_le in blast)+
  then show ?case
  proof cases
    case 1 then show ?thesis by (rule fault)
  next
    case 2 then show ?thesis by (rule root)
  next
    case (3 b)
    show ?thesis by (rule ptr [OF 3(1,3)]) (use less in \<open>auto\<close>)
  next
    case (4 b)
    show ?thesis by (rule label [OF 4]) (use less in \<open>auto\<close>)
  qed
qed

lemma get_name_loop_frame:
  "get_name_loop counter pkt lim om m p s = Some (r, t) \<Longrightarrow> name_frame m s t"
proof (induction counter p s arbitrary: rule: get_name_loop_induct [where pkt = pkt and lim = lim and m = m])
  case (fault counter p s)
  then show ?case by (simp add: get_name_loop_None)
next
  case (root counter p s)
  then show ?case by (simp add: get_name_loop_root name_frame_refl)
next
  case (ptr counter p s b)
  then show ?case
    using name_frame_trans [of m s "name_end (p + 2) s" t, OF name_frame_set_end]
    by (auto simp: get_name_loop_ptr bind_eq_Some_conv name_frame_refl name_frame_set_end split: if_splits)
next
  case (label counter p s b)
  show ?case
  proof (cases "t = s")
    case True then show ?thesis by (simp add: name_frame_refl)
  next
    case False
    with label(1-3,5) obtain s1 where m: "ns_name_len s + 1 + unat b + 1 \<le> m" and c: "copy_label pkt p b s = Some s1"
      and rest: "t = s1 \<or> p + unat b + 1 < lim \<and> get_name_loop counter pkt lim om m (p + unat b + 1) s1 = Some (r, t)"
      by (auto simp: get_name_loop_label bind_eq_Some_conv split: if_splits)
    have "name_frame m s s1" using copy_label_frame(1) [OF c m] .
    moreover have "name_frame m s1 t" using rest label(4) [OF m c] name_frame_refl by auto
    ultimately show ?thesis by (rule name_frame_trans)
  qed
qed


text \<open>
  A name is read without a fault whatever its bytes are, when the object is longer than the message
  by one label and its neighbours: the code compares the length of a label with the length of the
  whole message, not with what is left of it.
\<close>

lemma get_name_loop_total:
  assumes "lim + 193 \<le> length pkt" "p \<le> lim" "m \<le> length (ns_name s)" "2 \<le> length (ns_output s)"
  shows "\<exists>r t. get_name_loop counter pkt lim om m p s = Some (r, t)"
  using assms(2-4)
proof (induction counter p s rule: get_name_loop_induct [where pkt = pkt and lim = lim and m = m])
  case (fault counter p s)
  then show ?case using assms(1) by (simp add: rd_def)
next
  case (root counter p s)
  then show ?case by (simp add: get_name_loop_root)
next
  case (ptr counter p s b)
  then have b1: "rd pkt (p + 1) = Some (pkt ! (p + 1))" using assms(1) by (simp add: rd_def)
  then show ?case
    using ptr(3) [OF b1] ptr(4-6) by (simp add: get_name_loop_ptr [OF ptr(1,2)] not_le)
next
  case (label counter p s b)
  show ?case
  proof (cases "lim < unat b \<or> om < ns_output_len s \<or> m < ns_name_len s + 1 + unat b + 1")
    case True
    then show ?thesis by (simp add: get_name_loop_label [OF label(1-3)])
  next
    case False
    then obtain s1 where c: "copy_label pkt p b s = Some s1"
      using copy_label_in [of p b pkt s] assms(1) label by simp
    have "name_frame m s s1" using copy_label_frame(1) [OF c, of m] False by simp
    then show ?thesis
      using False label(4) [OF _ c] label(6,7) by (auto simp: get_name_loop_label [OF label(1-3)] c name_frame_def)
  qed
qed

text \<open>The end that a name reports is behind its first label or pointer; the root name reports none.\<close>

definition first_end :: "u8 \<Rightarrow> nat \<Rightarrow> nat option" where
  "first_end b p = (if b = 0 then None else if 192 \<le> unat b then Some (p + 2) else Some (p + unat b + 1))"

lemma get_name_loop_end:
  assumes "get_name_loop counter pkt lim om m p s = Some (Inr (), t)" "ns_end s = None"
  shows "\<exists>b. rd pkt p = Some b \<and> ns_end t = first_end b p \<and> (0 < unat b \<and> unat b < 192 \<longrightarrow> p + unat b + 1 < lim)"
proof (cases "rd pkt p")
  case None
  with assms(1) show ?thesis by (simp add: get_name_loop_None)
next
  case (Some b)
  consider "b = 0" | "b \<noteq> 0" "192 \<le> unat b" | "b \<noteq> 0" "unat b < 192" using not_le by blast
  then show ?thesis
  proof cases
    case 1
    with Some assms show ?thesis by (simp add: get_name_loop_root first_end_def)
  next
    case 2
    with Some assms obtain c q where "get_name_loop c pkt lim om m q (name_end (p + 2) s) = Some (Inr (), t)"
      by (auto simp: get_name_loop_ptr bind_eq_Some_conv split: if_splits)
    then have "name_frame m (name_end (p + 2) s) t" by (rule get_name_loop_frame)
    with 2 Some assms(2) show ?thesis by (simp add: first_end_def name_frame_def)
  next
    case 3
    with Some assms(1) obtain s1 where m: "ns_name_len s + 1 + unat b + 1 \<le> m" and c: "copy_label pkt p b s = Some s1"
      and l: "p + unat b + 1 < lim" and r: "get_name_loop counter pkt lim om m (p + unat b + 1) s1 = Some (Inr (), t)"
      by (auto simp: get_name_loop_label bind_eq_Some_conv split: if_splits)
    from get_name_loop_frame [OF r] copy_label_frame(2) [OF c m assms(2)] show ?thesis
      using 3 Some l by (simp add: first_end_def name_frame_def)
  qed
qed

lemma first_end_after: "first_end b p = Some e \<Longrightarrow> p + 2 \<le> e"
  by (auto simp: first_end_def unat_gt_0 Suc_le_eq split: if_splits)

section \<open>Records stay inside their buffers\<close>

lemma u8_256: "(256 :: u8) = 0"
  using word_exp_length_eq_0 [where 'a = 8] by simp

lemma be16_bytes: "be16 (unat a * 256 + unat b) = [a, b]"
  by (simp add: be16_def u8_256)

lemma be16_rd16: "rd16 m i = Some n \<Longrightarrow> be16 n = take 2 (drop i m)"
  by (auto simp: rd16_def bind_eq_Some_conv rd_def be16_bytes take_Suc_conv_app_nth numeral_2_eq_2 hd_drop_conv_nth
      simp flip: Cons_nth_drop_Suc split: if_splits)

lemma rd16_less: "rd16 m i = Some n \<Longrightarrow> n < 65536"
proof -
  assume "rd16 m i = Some n"
  then obtain a b where "n = unat (a :: u8) * 256 + unat (b :: u8)" by (auto simp: rd16_def bind_eq_Some_conv)
  with unat_u8_less [of a] unat_u8_less [of b] show ?thesis by linarith
qed

lemma be32_rd32: "rd32 m i = Some n \<Longrightarrow> be32 n = take 4 (drop i m)"
proof -
  assume "rd32 m i = Some n"
  then obtain a b where ab: "rd16 m i = Some a" "rd16 m (i + 2) = Some b" and n: "n = a * 65536 + b"
    by (auto simp: rd32_def bind_eq_Some_conv)
  have "n div 65536 = a" using rd16_less [OF ab(2)] n by simp
  moreover have "be16 n = be16 b"
  proof -
    have "n = 256 * (a * 256) + b" using n by simp
    then have "n div 256 = a * 256 + b div 256" by (simp only: div_mult_self4)
    moreover have "(word_of_nat n :: u8) = word_of_nat b"
      unfolding \<open>n = 256 * (a * 256) + b\<close> by (simp only: of_nat_add of_nat_mult of_nat_numeral u8_256 mult_zero_left add_0)
    ultimately show ?thesis by (simp add: be16_def u8_256)
  qed
  moreover have "take 4 (drop i m) = take 2 (drop i m) @ take 2 (drop (i + 2) m)"
    using take_add [of 2 2 "drop i m"] by (simp add: add.commute)
  ultimately show ?thesis using be16_rd16 [OF ab(1)] be16_rd16 [OF ab(2)] by (simp add: be32_def)
qed

text \<open>A resource record without its owner name, as it stands in a message.\<close>

record dns_rr =
  r_type :: nat
  r_class :: nat
  r_ttl :: nat
  r_data :: "u8 list"

definition rr_wire :: "dns_rr \<Rightarrow> u8 list" where
  "rr_wire r = be16 (r_type r) @ be16 (r_class r) @ be32 (r_ttl r) @ be16 (length (r_data r)) @ r_data r"

definition rr_of :: "rr_state \<Rightarrow> u8 list \<Rightarrow> dns_rr" where
  "rr_of s d = \<lparr>r_type = rr_type s, r_class = rr_class s, r_ttl = rr_ttl s, r_data = d\<rparr>"

lemma length_be [simp]: "length (be16 n) = 2" "length (be32 n) = 4"
  by (simp_all add: be16_def be32_def)

lemma length_rr_wire: "length (rr_wire r) = 10 + length (r_data r)"
  by (simp add: rr_wire_def)

lemma take_drop_split: "take (a + b) (drop e m) = take a (drop e m) @ take b (drop (e + a) m)"
  by (simp add: take_add add.commute)

lemma rr_wire_segment:
  assumes "rd16 m e = Some (r_type r)" "rd16 m (e + 2) = Some (r_class r)" "rd32 m (e + 4) = Some (r_ttl r)"
    "rd16 m (e + 8) = Some (length (r_data r))" "take (length (r_data r)) (drop (e + 10) m) = r_data r"
  shows "take (10 + length (r_data r)) (drop e m) = rr_wire r"
proof -
  have "take (10 + length (r_data r)) (drop e m) =
      take 2 (drop e m) @ take 2 (drop (e + 2) m) @ take 4 (drop (e + 4) m) @ take 2 (drop (e + 8) m)
      @ take (length (r_data r)) (drop (e + 10) m)"
    using take_drop_split [of 2 "2 + (4 + (2 + length (r_data r)))" e m]
      take_drop_split [of 2 "4 + (2 + length (r_data r))" "e + 2" m]
      take_drop_split [of 4 "2 + length (r_data r)" "e + 4" m]
      take_drop_split [of 2 "length (r_data r)" "e + 8" m]
    by (simp only: add.assoc [symmetric] numeral_plus_numeral add_num_simps) (simp only: add.assoc numeral_plus_numeral add_num_simps)
  then show ?thesis
    using be16_rd16 [OF assms(1)] be16_rd16 [OF assms(2)] be32_rd32 [OF assms(3)] be16_rd16 [OF assms(4)] assms(5)
    by (simp add: rr_wire_def)
qed

lemma parse_rr_fields_total:
  assumes "e + 10 \<le> length buf" "lim \<le> length buf" "off + 10 \<le> length (rr_rsp s)" "rr_rsp_len s \<le> length (rr_rsp s)"
  shows "\<exists>r t. parse_rr_fields buf lim off e s = Some (r, t)"
  using assms by (simp add: parse_rr_fields_def access Let_def)

lemma parse_rr_fields_ok:
  assumes "parse_rr_fields buf lim off e s = Some (Inr (), t)"
  shows "\<exists>d. e + 10 + length d \<le> lim \<and> take (10 + length d) (drop e buf) = rr_wire (rr_of t d) \<and>
    rr_rdlen t = length d \<and> rr_end t = Some (e + 10 + length d) \<and>
    rr_rsp_len t = off + 10 + length d \<and> rr_rsp_len t \<le> rr_rsp_len s \<and> rr_rsp_len t \<le> length (rr_rsp t) \<and>
    take (rr_rsp_len t) (rr_rsp t) = take off (rr_rsp s) @ rr_wire (rr_of t d) \<and>
    rr_ttl t < 2 ^ 31 \<and> rr_name t = rr_name s"
proof -
  from assms obtain ty cl ttl rdlen fixed rsp1 d rsp2 where
    f: "rd16 buf e = Some ty" "rd16 buf (e + 2) = Some cl" "rd32 buf (e + 4) = Some ttl" "rd16 buf (e + 8) = Some rdlen"
    and ttl: "ttl < 2 ^ 31" and fixed: "rd_bytes buf e 10 = Some fixed" and w1: "wr_bytes (rr_rsp s) off fixed = Some rsp1"
    and le: "off + 10 + rdlen \<le> rr_rsp_len s" "e + 10 + rdlen \<le> lim"
    and d: "rd_bytes buf (e + 10) rdlen = Some d" and w2: "wr_bytes rsp1 (off + 10) d = Some rsp2"
    and t: "t = s\<lparr>rr_type := ty, rr_class := cl, rr_ttl := ttl, rr_rdlen := rdlen, rr_rsp := rsp2,
      rr_end := Some (e + 10 + rdlen), rr_rsp_len := off + 10 + rdlen\<rparr>"
    by (auto simp: parse_rr_fields_def bind_eq_Some_conv Let_def split: if_splits)
  have len: "length d = rdlen" "length fixed = 10" and de: "d = take rdlen (drop (e + 10) buf)" "fixed = take 10 (drop e buf)"
    using d fixed by (auto simp: rd_bytes_def split: if_splits)
  have w: "take (10 + length d) (drop e buf) = rr_wire (rr_of t d)"
    using rr_wire_segment [of buf e "rr_of t d"] f len de by (simp add: rr_of_def t)
  have "rr_wire (rr_of t d) = fixed @ d"
    using w take_add [of 10 rdlen "drop e buf"] de len by (simp add: add.commute)
  moreover have "take (off + 10 + rdlen) rsp2 = take off (rr_rsp s) @ fixed @ d"
    using wr_bytes_SomeD [OF w1] wr_bytes_SomeD [OF w2] len by (simp add: min_def)
  moreover have "off + 10 + rdlen \<le> length rsp2"
    using wr_bytes_SomeD(1,2) [OF w2] len by simp
  ultimately show ?thesis using w len le ttl t by (intro exI [of _ d]) simp
qed

text \<open>The owner name in the short form; a record of the root name is stored without any.\<close>

definition owner :: "bool \<Rightarrow> u8 list" where
  "owner named = (if named then [NS_CMPRSFLGS, 0x0C] else [])"

lemma get_name_total:
  assumes "lim + 193 \<le> length pkt" "p \<le> lim" "m \<le> length (ns_name s)" "2 \<le> length (ns_output s)"
  shows "\<exists>r t. get_name counter pkt p lim om m s = Some (r, t)"
  using get_name_loop_total [OF assms] by (simp add: get_name_def)

lemma get_name_frame: "get_name counter pkt p lim om m s = Some (r, t) \<Longrightarrow> name_frame m s t"
  by (auto simp: get_name_def name_frame_refl get_name_loop_frame split: if_splits)

lemma parse_rr_total:
  assumes "lim + 193 \<le> length buf" "start \<le> lim" "m \<le> length (rr_name s)"
    "12 \<le> length (rr_rsp s)" "rr_rsp_len s \<le> length (rr_rsp s)" "rr_end s = None"
  shows "\<exists>r t. parse_rr buf start lim m s = Some (r, t)"
proof -
  define n0 where "n0 = \<lparr>ns_output = rr_rsp s, ns_output_len = 0, ns_end = rr_end s, ns_name = rr_name s, ns_name_len = 0\<rparr>"
  obtain r n where g: "get_name 0 buf start lim (rr_rsp_len s) m n0 = Some (r, n)"
    using get_name_total [of lim buf start m n0 0 "rr_rsp_len s"] assms by (auto simp: n0_def)
  have f: "name_frame m n0 n" using g by (rule get_name_frame)
  have "e + 10 \<le> length buf" if "r = Inr ()" "ns_end n = Some e" for e
    using get_name_loop_end [of 0 buf lim "rr_rsp_len s" m start n0 n] g that assms(1,2,6)
    by (auto simp: get_name_def n0_def first_end_def split: if_splits)
  moreover have "ns_output_len n \<le> 2" "length (ns_output n) = length (rr_rsp s)"
    using f by (auto simp: name_frame_def n0_def)
  ultimately show ?thesis
    unfolding parse_rr_def n0_def [symmetric] g
    using assms(1,4,5) parse_rr_fields_total [of _ buf lim "ns_output_len n"]
    by (auto simp: Let_def split: sum.split option.split)
qed

lemma parse_rr_ok:
  assumes "parse_rr buf start lim m s = Some (Inr (), t)" "rr_end s = None"
  shows "\<exists>named e d. start + 2 \<le> e \<and> e + 10 + length d \<le> lim \<and> take (10 + length d) (drop e buf) = rr_wire (rr_of t d) \<and>
    rr_rdlen t = length d \<and> rr_end t = Some (e + 10 + length d) \<and>
    rr_rsp_len t \<le> rr_rsp_len s \<and> rr_rsp_len t \<le> length (rr_rsp t) \<and>
    take (rr_rsp_len t) (rr_rsp t) = owner named @ rr_wire (rr_of t d) \<and>
    rr_ttl t < 2 ^ 31 \<and> length (rr_name t) = length (rr_name s) \<and> drop m (rr_name t) = drop m (rr_name s)"
proof -
  define n0 where "n0 = \<lparr>ns_output = rr_rsp s, ns_output_len = 0, ns_end = rr_end s, ns_name = rr_name s, ns_name_len = 0\<rparr>"
  from assms(1) obtain r n where "get_name 0 buf start lim (rr_rsp_len s) m n0 = Some (r, n)"
    unfolding parse_rr_def n0_def [symmetric] by (auto simp: bind_eq_Some_conv)
  with assms(1) obtain e where g: "get_name 0 buf start lim (rr_rsp_len s) m n0 = Some (Inr (), n)"
    and e: "ns_end n = Some e"
    and p: "parse_rr_fields buf lim (ns_output_len n) e (s\<lparr>rr_rsp := ns_output n, rr_end := ns_end n, rr_name := ns_name n\<rparr>) = Some (Inr (), t)"
    unfolding parse_rr_def n0_def [symmetric]
    by (cases r; cases "ns_end n") (auto simp: Let_def split: if_splits)
  have f: "name_frame m n0 n" using g by (rule get_name_frame)
  have "start + 2 \<le> e"
    using get_name_loop_end [of 0 buf lim "rr_rsp_len s" m start n0 n] g e assms(2) first_end_after
    by (auto simp: get_name_def n0_def split: if_splits)
  moreover have "take (ns_output_len n) (ns_output n) = owner (ns_output_len n \<noteq> 0)"
    "length (ns_name n) = length (rr_name s)" "drop m (ns_name n) = drop m (rr_name s)"
    using f by (auto simp: name_frame_def n0_def owner_def)
  moreover obtain d where "e + 10 + length d \<le> lim" "take (10 + length d) (drop e buf) = rr_wire (rr_of t d)"
    "rr_rdlen t = length d" "rr_end t = Some (e + 10 + length d)"
    "rr_rsp_len t \<le> rr_rsp_len s" "rr_rsp_len t \<le> length (rr_rsp t)"
    "take (rr_rsp_len t) (rr_rsp t) = take (ns_output_len n) (ns_output n) @ rr_wire (rr_of t d)"
    "rr_ttl t < 2 ^ 31" "rr_name t = ns_name n"
    using parse_rr_fields_ok [OF p] by auto
  ultimately show ?thesis
    by (intro exI [of _ "ns_output_len n \<noteq> 0"] exI [of _ e] exI [of _ d]) simp
qed

section \<open>Responses\<close>

text \<open>
  What \<open>parse_response\<close> has stored after some answers: records of the question's type and class,
  each of them a piece of the received message, one after the other and inside the response buffer.
\<close>

definition stored_rr :: "u8 list \<Rightarrow> nat \<Rightarrow> nat \<Rightarrow> nat \<Rightarrow> dns_rr \<Rightarrow> bool" where
  "stored_rr buf lim qtype qclass r \<longleftrightarrow> r_type r = qtype \<and> r_class r = qclass \<and> r_ttl r < 2 ^ 31 \<and>
     (\<exists>e. e + length (rr_wire r) \<le> lim \<and> take (length (rr_wire r)) (drop e buf) = rr_wire r)"

definition stored :: "u8 list \<Rightarrow> nat \<Rightarrow> nat \<Rightarrow> nat \<Rightarrow> nat \<Rightarrow> (bool \<times> dns_rr) list \<Rightarrow> response_state \<Rightarrow> bool" where
  "stored buf lim qtype qclass maxlen rrs s \<longleftrightarrow>
     rs_ptr s \<le> lim \<and> rs_response_len s \<le> maxlen \<and> maxlen \<le> length (rs_response s) \<and> length rrs = rs_answers s \<and>
     take (rs_response_len s) (rs_response s) = concat (map (\<lambda>(named, r). owner named @ rr_wire r) rrs) \<and>
     list_all (\<lambda>(named, r). stored_rr buf lim qtype qclass r) rrs \<and> (rs_err s = Inr () \<longrightarrow> rrs \<noteq> [])"

lemma read_alias_frame:
  "read_alias buf lim r s = Some t \<Longrightarrow> \<exists>as. t = s\<lparr>rs_aliases := as\<rparr>"
proof -
  assume "read_alias buf lim r s = Some t"
  then obtain n :: name_state and ret :: "unit result" where "t = (case ret of Inl e \<Rightarrow> s | Inr u \<Rightarrow> s\<lparr>rs_aliases := bstr (ns_name n) # rs_aliases s\<rparr>)"
    by (auto simp: read_alias_def bind_eq_Some_conv)
  then consider "t = s" | as where "t = s\<lparr>rs_aliases := as\<rparr>" by (cases ret) auto
  then show ?thesis by cases (auto intro: exI [of _ "rs_aliases s"])
qed

lemma parse_answer_stored:
  assumes "parse_answer buf lim question qtype qclass maxlen s = Some (go_on, t)" "stored buf lim qtype qclass maxlen rrs s"
  shows "\<exists>rrs'. stored buf lim qtype qclass maxlen rrs' t \<and> rs_answers t \<le> rs_answers s + 1"
proof -
  from assms(1) obtain ret r where p: "parse_rr buf (rs_ptr s) lim NS_MAXDNAME (fresh_rr s) = Some (ret, r)"
    by (auto simp: parse_answer_def bind_eq_Some_conv)
  show ?thesis
  proof (cases ret)
    case (Inl e)
    with assms p show ?thesis by (auto simp: parse_answer_def stored_def)
  next
    case (Inr u)
    then obtain named e d where k: "e + 10 + length d \<le> lim" "take (10 + length d) (drop e buf) = rr_wire (rr_of r d)"
      "rr_end r = Some (e + 10 + length d)" "rr_rsp_len r \<le> length (rr_rsp r)" "rr_ttl r < 2 ^ 31"
      "take (rr_rsp_len r) (rr_rsp r) = owner named @ rr_wire (rr_of r d)"
      using parse_rr_ok [of buf "rs_ptr s" lim NS_MAXDNAME "fresh_rr s" r] p by (auto simp: fresh_rr_def)
    define s2 where "s2 = s\<lparr>rs_type := rr_type r, rs_class := rr_class r, rs_ttl := rr_ttl r, rs_ptr := the (rr_end r)\<rparr>"
    have s2: "stored buf lim qtype qclass maxlen rrs s2" "rs_answers s2 = rs_answers s"
      using assms(2) k(1,3) by (simp_all add: stored_def s2_def)
    from assms(1) p Inr consider "t = s2" | "t = s2\<lparr>rs_err := Inl ENOBUFS\<rparr>" | as where "t = s2\<lparr>rs_aliases := as\<rparr>"
      | resp where "rr_class r = qclass" "rr_type r = qtype" "rs_response_len s2 + rr_rsp_len r \<le> maxlen"
        "wr_bytes (rs_response s2) (rs_response_len s2) (take (rr_rsp_len r) (rr_rsp r)) = Some resp"
        "t = s2\<lparr>rs_response := resp, rs_response_len := rs_response_len s2 + rr_rsp_len r,
          rs_answers := rs_answers s2 + 1, rs_err := Inr ()\<rparr>"
      by (auto simp: parse_answer_def s2_def Let_def bind_eq_Some_conv rd_bytes_def split: if_splits dest!: read_alias_frame)
    then show ?thesis
    proof cases
      case (4 resp)
      have "stored_rr buf lim qtype qclass (rr_of r d)"
        using 4(1,2) k(1,2,5) by (auto simp: stored_rr_def rr_of_def length_rr_wire intro!: exI [of _ e])
      moreover have "length (take (rr_rsp_len r) (rr_rsp r)) = rr_rsp_len r" using k(4) by simp
      ultimately have "stored buf lim qtype qclass maxlen (rrs @ [(named, rr_of r d)]) t"
        using s2(1) 4(3,5) wr_bytes_append [OF 4(4)] wr_bytes_SomeD(2) [OF 4(4)] k(6) by (simp add: stored_def)
      with 4(5) s2(2) show ?thesis by auto
    qed (use s2 in \<open>auto simp: stored_def\<close>)
  qed
qed

lemma parse_answer_total:
  assumes "lim + 193 \<le> length buf" "stored buf lim qtype qclass maxlen rrs s"
  shows "\<exists>go_on t. parse_answer buf lim question qtype qclass maxlen s = Some (go_on, t)"
proof -
  obtain ret r where p: "parse_rr buf (rs_ptr s) lim NS_MAXDNAME (fresh_rr s) = Some (ret, r)"
    using parse_rr_total [of lim buf "rs_ptr s" NS_MAXDNAME "fresh_rr s"] assms by (auto simp: stored_def fresh_rr_def)
  show ?thesis
  proof (cases ret)
    case (Inl e)
    with p show ?thesis by (auto simp: parse_answer_def Let_def)
  next
    case (Inr u)
    then obtain e and d :: "u8 list" where k: "e + 10 + length d \<le> lim" "rr_rdlen r = length d"
      "rr_end r = Some (e + 10 + length d)" "rr_rsp_len r \<le> length (rr_rsp r)" "length (rr_name r) = NS_MAXDNAME + 1"
      using parse_rr_ok [of buf "rs_ptr s" lim NS_MAXDNAME "fresh_rr s" r] p by (auto simp: fresh_rr_def)
    have "\<exists>u. read_alias buf lim r s' = Some u" for s'
      using get_name_total [of lim buf "the (rr_end r) - rr_rdlen r" NS_MAXDNAME] assms(1) k
      by (auto simp: read_alias_def bind_eq_Some_conv)
    moreover have "\<exists>resp. wr_bytes (rs_response s) (rs_response_len s) (take (rr_rsp_len r) (rr_rsp r)) = Some resp"
      if "rs_response_len s + rr_rsp_len r \<le> maxlen"
      using that assms(2) k(4) by (simp add: wr_bytes_def stored_def)
    ultimately show ?thesis
      using p Inr k(4) by (auto simp: parse_answer_def Let_def rd_bytes_in not_less bind_eq_Some_conv)
  qed
qed

lemma parse_answers_stored:
  assumes "lim + 193 \<le> length buf" "stored buf lim qtype qclass maxlen rrs s"
  shows "\<exists>t rrs'. parse_answers n buf lim question qtype qclass maxlen s = Some t \<and>
    stored buf lim qtype qclass maxlen rrs' t \<and> rs_answers t \<le> rs_answers s + n"
  using assms(2)
proof (induction n arbitrary: s rrs)
  case 0
  then show ?case by auto
next
  case (Suc n)
  obtain go_on s1 where p: "parse_answer buf lim question qtype qclass maxlen s = Some (go_on, s1)"
    using parse_answer_total [OF assms(1) Suc.prems] by blast
  obtain rrs1 where s1: "stored buf lim qtype qclass maxlen rrs1 s1" "rs_answers s1 \<le> rs_answers s + 1"
    using parse_answer_stored [OF p Suc.prems] by blast
  show ?case
  proof (cases go_on)
    case True
    obtain t rrs' where "parse_answers n buf lim question qtype qclass maxlen s1 = Some t"
      "stored buf lim qtype qclass maxlen rrs' t" "rs_answers t \<le> rs_answers s1 + n"
      using Suc.IH [OF s1(1)] by blast
    with p True s1(2) show ?thesis by (intro exI [of _ t] exI [of _ rrs']) simp
  next
    case False
    with p s1 show ?thesis by (intro exI [of _ s1] exI [of _ rrs1]) simp
  qed
qed

lemma strncpy_bytes_in:
  assumes "i + n \<le> length m"
  shows "\<exists>q. strncpy_bytes m i n = Some q \<and> length q = n"
proof -
  define s where "s = take n (bstr (drop i m))"
  have "length s \<le> n" by (simp add: s_def)
  moreover have "n \<le> length s \<or> i + length s < length m"
  proof (rule disjCI)
    assume "\<not> i + length s < length m"
    with assms \<open>length s \<le> n\<close> show "n \<le> length s" by simp
  qed
  ultimately show ?thesis by (simp add: strncpy_bytes_def s_def [symmetric] Let_def)
qed

lemma question_copied:
  assumes "length question = qlen + 1" "last question = 0" "length q \<le> qlen"
  obtains question1 where "wr_bytes question 0 q = Some question1" "length question1 = qlen + 1" "last question1 = 0"
    "c_strlen question1 0 = Some (length (bstr question1))"
proof -
  define question1 where "question1 = q @ drop (length q) question"
  have w: "wr_bytes question 0 q = Some question1"
    using assms by (simp add: wr_bytes_def question1_def)
  have l: "length question1 = qlen + 1" "last question1 = 0"
    using assms by (simp_all add: question1_def last_drop)
  then have "c_strlen question1 0 = Some (length (bstr question1))"
    using c_strlen_in [of 0 question1] by simp
  with w l that show thesis by blast
qed

text \<open>
  Parsing a response, for any bytes: the parser touches nothing but its objects, returns, fills at
  most the space it is given, and what it has stored are records of the question's type and class
  that stand in the message. The packet object has to be 193 bytes longer than the message.
\<close>

lemma parse_response_stored:
  assumes "buflen + 193 \<le> length buf" "length question = qlen + 1" "last question = 0"
    "rs_response_len s \<le> length (rs_response s)"
  shows "\<exists>question1 t qtype qclass rrs. parse_response buf buflen question qlen s = Some (question1, t) \<and>
    length question1 = qlen + 1 \<and> last question1 = 0 \<and> rs_response_len t \<le> rs_response_len s \<and>
    length rrs = rs_answers t \<and> (rs_err t = Inr () \<longrightarrow> rrs \<noteq> []) \<and> qtype \<in> {DNS_TYPE_A, DNS_TYPE_AAAA} \<and>
    take (rs_response_len t) (rs_response t) = concat (map (\<lambda>(named, r). owner named @ rr_wire r) rrs) \<and>
    list_all (\<lambda>(named, r). stored_rr buf buflen qtype qclass r) rrs"
proof -
  define s0 where "s0 = s\<lparr>rs_response_len := 0, rs_answers := 0, rs_aliases := []\<rparr>"
  have early: ?thesis if "parse_response buf buflen question qlen s = Some (q, s0\<lparr>rs_err := Inl e\<rparr>)"
    "length q = qlen + 1" "last q = 0" for q e
    using that by (intro exI [of _ q] exI [of _ "s0\<lparr>rs_err := Inl e\<rparr>"] exI [of _ DNS_TYPE_A] exI [of _ 0] exI [of _ "[]"])
      (simp add: s0_def)
  note def = parse_response_def Let_def s0_def [symmetric]
  show ?thesis
  proof (cases "12 \<le> buflen \<and> bit (buf ! 2) 7 \<and> rd16 buf 4 = Some 1")
    case False
    then have "parse_response buf buflen question qlen s = Some (question, s0\<lparr>rs_err := Inl EINVAL\<rparr>)"
      using assms(1) by (auto simp: def hdr_qr_def access numeral_2_eq_2)
    then show ?thesis using assms(2,3) by (rule early)
  next
    case True
    have hdr: "hdr_qr buf 0 = Some True" "rd16 buf 4 = Some 1" "\<not> buflen < 12" using True assms(1) by (auto simp: hdr_qr_def access numeral_2_eq_2)
    obtain q where q: "strncpy_bytes buf 12 (min qlen (buflen - 12)) = Some q" "length q = min qlen (buflen - 12)"
    proof -
      have "12 + min qlen (buflen - 12) \<le> length buf" using assms(1) True by linarith
      from strncpy_bytes_in [OF this] that show thesis by blast
    qed
    obtain q1 where q1: "wr_bytes question 0 q = Some q1" "length q1 = qlen + 1" "last q1 = 0" "c_strlen q1 0 = Some (length (bstr q1))"
      by (rule question_copied [OF assms(2,3)]) (use q(2) in auto)
    define ptr where "ptr = 12 + length (bstr q1) + 1"
    note red = def hdr q(1) q1(1,4) ptr_def [symmetric] bind.bind_lunit if_False simp_thms
    show ?thesis
    proof (cases "buflen \<le> ptr + 4")
      case True
      then have "parse_response buf buflen question qlen s = Some (q1, s0\<lparr>rs_err := Inl EINVAL\<rparr>)"
        by (simp only: red if_True)
      then show ?thesis using q1(2,3) by (rule early)
    next
      case lt: False
      then obtain qtype qclass ancount where f: "rd16 buf ptr = Some qtype" "rd16 buf (ptr + 2) = Some qclass" "rd16 buf 6 = Some ancount"
        using assms(1) True by (auto simp: access)
      show ?thesis
      proof (cases "qtype \<in> {DNS_TYPE_A, DNS_TYPE_AAAA}")
        case False
        then have "(qtype \<noteq> DNS_TYPE_A \<and> qtype \<noteq> DNS_TYPE_AAAA) = True" by simp
        then have "parse_response buf buflen question qlen s = Some (q1, s0\<lparr>rs_err := Inl ENOMSG\<rparr>)"
          by (simp only: red f lt if_True)
        then show ?thesis using q1(2,3) by (rule early)
      next
        case ty: True
        define s1 where "s1 = s0\<lparr>rs_ptr := ptr + 4, rs_err := Inl ENOMSG\<rparr>"
        have "stored buf buflen qtype qclass (rs_response_len s) [] s1"
          using lt assms(4) by (simp add: stored_def s1_def s0_def)
        then obtain t rrs where t: "parse_answers ancount buf buflen q1 qtype qclass (rs_response_len s) s1 = Some t"
          "stored buf buflen qtype qclass (rs_response_len s) rrs t"
          using parse_answers_stored [OF assms(1)] by blast
        have "(qtype \<noteq> DNS_TYPE_A \<and> qtype \<noteq> DNS_TYPE_AAAA) = False" using ty by simp
        then have "parse_response buf buflen question qlen s = Some (q1, t)"
          using t(1) by (simp only: red f lt s1_def [symmetric])
        then show ?thesis using q1(2,3) t(2) ty
          by (intro exI [of _ q1] exI [of _ t] exI [of _ qtype] exI [of _ qclass] exI [of _ rrs]) (simp add: stored_def)
      qed
    qed
  qed
qed

text \<open>
  Without the extra bytes the parser runs out of the packet: here the answer is a label of ten bytes
  that begins with the last byte of the message.
\<close>

definition overread_packet :: "u8 list" where
  "overread_packet = [0, 0, 0x80, 0, 0, 1, 0, 1, 0, 0, 0, 0, 1, 97, 0, 0, 1, 0, 1, 10]"

lemma parse_response_overread:
  assumes "length question = 1026" "last question = 0" "rs_response_len s \<le> length (rs_response s)"
  shows "parse_response overread_packet (length overread_packet) question 1025 s = None"
proof -
  have q: "strncpy_bytes overread_packet 12 8 = Some [1, 97, 0, 0, 0, 0, 0, 0]"
    by (simp add: strncpy_bytes_def overread_packet_def bstr_def) (simp add: numeral_eq_Suc)
  have w: "wr_bytes question 0 [1, 97, 0, 0, 0, 0, 0, 0] = Some ([1, 97, 0, 0, 0, 0, 0, 0] @ drop 8 question)"
    using assms(1) by (simp add: wr_bytes_def eval_nat_numeral)
  have n: "c_strlen ([1, 97, 0, 0, 0, 0, 0, 0] @ drop 8 question) 0 = Some 2"
    using assms(1) by (simp add: c_strlen_def bstr_def)
  have f: "rd overread_packet 19 = Some 10" "rd16 overread_packet 4 = Some 1" "hdr_qr overread_packet 0 = Some True"
    "rd16 overread_packet 15 = Some 1" "rd16 overread_packet 17 = Some 1" "rd16 overread_packet 6 = Some 1" "length overread_packet = 20"
    by (simp_all add: rd_def rd16_def hdr_qr_def overread_packet_def)
  have "copy_label overread_packet 19 10 n = None" for n
    by (simp add: copy_label_def rd_bytes_def f(7))
  then have "get_name_loop 0 overread_packet 20 254 1025 19 n = None" if "ns_output_len n = 0" "ns_name_len n = 0" for n
    using that by (simp add: get_name_loop_label [OF f(1)])
  then have "parse_answer overread_packet 20 q' 1 1 k t = None" if "rs_ptr t = 19" for q' k t
    using that by (simp add: parse_answer_def parse_rr_def get_name_def fresh_rr_def)
  then show ?thesis
    using q w n f by (simp add: parse_response_def Let_def)
qed

section \<open>Well-formed responses\<close>

text \<open>Labels and names as they stand in a message.\<close>

definition label_ok :: "u8 list \<Rightarrow> bool" where
  "label_ok l \<longleftrightarrow> l \<noteq> [] \<and> length l < 64 \<and> 0 \<notin> set l"

definition label_wire :: "u8 list \<Rightarrow> u8 list" where
  "label_wire l = word_of_nat (length l) # l"

definition name_wire :: "u8 list list \<Rightarrow> u8 list" where
  "name_wire ls = concat (map label_wire ls)"

lemma name_wire_simps [simp]: "name_wire [] = []" "name_wire (l # ls) = word_of_nat (length l) # l @ name_wire ls"
  by (simp_all add: name_wire_def label_wire_def)

lemma label_ok_length: "label_ok l \<Longrightarrow> unat (word_of_nat (length l) :: u8) = length l"
  by (simp add: label_ok_def unat_of_nat)

lemma name_wire_nonzero: "list_all label_ok ls \<Longrightarrow> 0 \<notin> set (name_wire ls)"
proof (induction ls)
  case (Cons l ls)
  then have l: "unat (word_of_nat (length l) :: u8) = length l" "label_ok l" by (simp_all add: label_ok_length)
  then have "(word_of_nat (length l) :: u8) \<noteq> 0" by (metis label_ok_def length_0_conv unat_0)
  with Cons l show ?case by (auto simp: label_ok_def)
qed simp

lemma bstr_name: "list_all label_ok ls \<Longrightarrow> bstr (name_wire ls @ 0 # r) = name_wire ls"
  using name_wire_nonzero [of ls] unfolding bstr_def by (subst takeWhile_append2) auto

lemma drop_Cons_rd: "drop p m = b # r \<Longrightarrow> rd m p = Some b \<and> drop (p + 1) m = r"
  by (cases "p < length m") (auto simp: rd_def simp flip: Cons_nth_drop_Suc)

lemma drop_append_drop: "drop p m = xs @ ys \<Longrightarrow> drop (p + length xs) m = ys"
  by (metis append_eq_conv_conj drop_drop add.commute)

text \<open>Reading a name of a message gives its wire form with the terminator.\<close>

lemma get_name_loop_wire:
  assumes "list_all label_ok ls" "drop p pkt = name_wire ls @ 0 # r" "p + length (name_wire ls) < lim"
    "ns_name_len s + length (name_wire ls) + 1 \<le> m" "m \<le> length (ns_name s)" "2 \<le> length (ns_output s)"
    "ns_output_len s \<le> om" "2 \<le> om" "ns_end s = Some e"
  shows "get_name_loop counter pkt lim om m p s = Some (Inr (), if ls = [] then s else
    s\<lparr>ns_name := take (ns_name_len s) (ns_name s) @ name_wire ls @ 0 # drop (ns_name_len s + length (name_wire ls) + 1) (ns_name s),
      ns_name_len := ns_name_len s + length (name_wire ls), ns_output := NS_CMPRSFLGS # 0x0C # drop 2 (ns_output s), ns_output_len := 2\<rparr>)"
  using assms
proof (induction ls arbitrary: p s)
  case Nil
  then show ?case using drop_Cons_rd [of p pkt 0 r] by (simp add: get_name_loop_root)
next
  case (Cons l ls)
  define b where "b = (word_of_nat (length l) :: u8)"
  have l: "label_ok l" "unat b = length l" using Cons.prems(1) by (simp_all add: b_def label_ok_length)
  have d: "drop p pkt = b # l @ name_wire ls @ 0 # r" using Cons.prems(2) by (simp add: b_def)
  have rd: "rd pkt p = Some b" and d1: "drop (p + 1) pkt = l @ name_wire ls @ 0 # r" using drop_Cons_rd [OF d] by simp_all
  have "length (drop p pkt) = 1 + length l + length (name_wire ls) + 1 + length r" using d by simp
  then have len: "p + unat b + 2 \<le> length pkt" using l(2) by simp
  have nz: "b \<noteq> 0" "unat b < 192" using l by (auto simp: label_ok_def)
  define c where "c = hd (name_wire ls @ 0 # r)"
  have lab: "take (unat b + 1) (drop (p + 1) pkt) = l @ [c]"
    unfolding d1 l(2) c_def by (cases "name_wire ls") simp_all
  define s1 where "s1 = s\<lparr>ns_name := take (ns_name_len s) (ns_name s) @ b # (l @ [c]) @ drop (ns_name_len s + length l + 2) (ns_name s),
    ns_name_len := ns_name_len s + 1 + length l, ns_output := NS_CMPRSFLGS # 0x0C # drop 2 (ns_output s), ns_output_len := 2\<rparr>"
  have cp: "copy_label pkt p b s = Some s1"
    using copy_label_in [of p b pkt s] Cons.prems(4-6,9) len lab l(2) by (simp add: s1_def name_end_def)
  have d2: "drop (p + unat b + 1) pkt = name_wire ls @ 0 # r"
    using drop_append_drop [OF d1] l(2) by (simp add: add.commute)
  have "get_name_loop counter pkt lim om m p s = get_name_loop counter pkt lim om m (p + unat b + 1) s1"
    unfolding get_name_loop_label [OF rd nz] cp using Cons.prems(3,4,7) l(2) by simp
  also have "\<dots> = Some (Inr (), if ls = [] then s1 else
    s1\<lparr>ns_name := take (ns_name_len s1) (ns_name s1) @ name_wire ls @ 0 # drop (ns_name_len s1 + length (name_wire ls) + 1) (ns_name s1),
      ns_name_len := ns_name_len s1 + length (name_wire ls), ns_output := NS_CMPRSFLGS # 0x0C # drop 2 (ns_output s1), ns_output_len := 2\<rparr>)"
    by (rule Cons.IH) (use Cons.prems l(2) d2 in \<open>auto simp: s1_def\<close>)
  finally show ?case
    using Cons.prems(4,5) by (simp add: s1_def b_def c_def ac_simps)
qed

lemma rd16_at: "drop i m = be16 n @ r \<Longrightarrow> n < 65536 \<Longrightarrow> rd16 m i = Some n"
proof -
  assume "drop i m = be16 n @ r" and n: "n < 65536"
  then have "drop i m = word_of_nat (n div 256) # word_of_nat n # r" by (simp add: be16_def)
  then have "rd m i = Some (word_of_nat (n div 256))" "rd m (i + 1) = Some (word_of_nat n)"
    using drop_Cons_rd [of i m] drop_Cons_rd [of "i + 1" m] by auto
  moreover have "n div 256 mod 256 = n div 256" using n by (simp add: div_less_iff_less_mult)
  ultimately show ?thesis by (simp add: rd16_def unat_of_nat)
qed

lemma rd32_at: "drop i m = be32 n @ r \<Longrightarrow> n < 2 ^ 32 \<Longrightarrow> rd32 m i = Some n"
proof -
  assume d: "drop i m = be32 n @ r" and n: "n < 2 ^ 32"
  define k where "k = n mod 65536"
  have "drop i m = be16 (n div 65536) @ be16 n @ r" using d by (simp add: be32_def)
  moreover have "be16 n = be16 k"
  proof -
    have "n = (n div 65536) * 65536 + k" by (simp add: k_def)
    moreover have "be16 (a * 65536 + b) = be16 b" for a b
    proof -
      have "a * 65536 + b = 256 * (a * 256) + b" by simp
      then have "(a * 65536 + b) div 256 = a * 256 + b div 256" by (simp only: div_mult_self4)
      moreover have "(word_of_nat (a * 65536 + b) :: u8) = word_of_nat b"
        unfolding \<open>a * 65536 + b = 256 * (a * 256) + b\<close> by (simp only: of_nat_add of_nat_mult of_nat_numeral u8_256 mult_zero_left add_0)
      ultimately show ?thesis by (simp add: be16_def u8_256)
    qed
    ultimately show ?thesis by metis
  qed
  ultimately have d': "drop i m = be16 (n div 65536) @ be16 k @ r" by simp
  then have "rd16 m i = Some (n div 65536)" using n by (intro rd16_at) (auto simp: div_less_iff_less_mult)
  moreover have "rd16 m (i + 2) = Some k"
    using drop_append_drop [OF d'] by (intro rd16_at) (auto simp: k_def)
  ultimately show ?thesis by (simp add: rd32_def k_def)
qed

text \<open>A record of a response that is stored as it is: its owner is a pointer to the question.\<close>

definition rr_plain :: "nat \<Rightarrow> nat \<Rightarrow> dns_rr \<Rightarrow> bool" where
  "rr_plain qtype qclass r \<longleftrightarrow> r_type r = qtype \<and> r_class r = qclass \<and> r_ttl r < 2 ^ 31 \<and> length (r_data r) \<le> 242"

definition rrs_wire :: "dns_rr list \<Rightarrow> u8 list" where
  "rrs_wire rrs = concat (map (\<lambda>r. owner True @ rr_wire r) rrs)"

lemma rrs_wire_simps [simp]: "rrs_wire [] = []" "rrs_wire (r # rrs) = NS_CMPRSFLGS # 0x0C # rr_wire r @ rrs_wire rrs"
  by (simp_all add: rrs_wire_def owner_def)

lemma parse_rr_fields_plain:
  assumes "drop e buf = rr_wire r @ rest" "e + length (rr_wire r) \<le> lim" "lim \<le> length buf" "r_type r < 65536" "r_class r < 65536"
    "r_ttl r < 2 ^ 31" "off + length (rr_wire r) \<le> rr_rsp_len s" "rr_rsp_len s \<le> length (rr_rsp s)" "length (r_data r) < 65536"
  shows "parse_rr_fields buf lim off e s = Some (Inr (), s\<lparr>rr_type := r_type r, rr_class := r_class r, rr_ttl := r_ttl r,
    rr_rdlen := length (r_data r), rr_end := Some (e + length (rr_wire r)), rr_rsp_len := off + length (rr_wire r),
    rr_rsp := take off (rr_rsp s) @ rr_wire r @ drop (off + length (rr_wire r)) (rr_rsp s)\<rparr>)"
proof -
  have d: "drop e buf = be16 (r_type r) @ be16 (r_class r) @ be32 (r_ttl r) @ be16 (length (r_data r)) @ r_data r @ rest"
    using assms(1) by (simp add: rr_wire_def)
  then have d2: "drop (e + 2) buf = be16 (r_class r) @ be32 (r_ttl r) @ be16 (length (r_data r)) @ r_data r @ rest"
    using drop_append_drop [of e buf "be16 (r_type r)"] by simp
  then have d4: "drop (e + 4) buf = be32 (r_ttl r) @ be16 (length (r_data r)) @ r_data r @ rest"
    using drop_append_drop [of "e + 2" buf "be16 (r_class r)"] by (simp add: numeral_eq_Suc)
  then have d8: "drop (e + 8) buf = be16 (length (r_data r)) @ r_data r @ rest"
    using drop_append_drop [of "e + 4" buf "be32 (r_ttl r)"] by (simp add: numeral_eq_Suc)
  then have d10: "drop (e + 10) buf = r_data r @ rest"
    using drop_append_drop [of "e + 8" buf "be16 (length (r_data r))"] by (simp add: numeral_eq_Suc)
  define fixed where "fixed = be16 (r_type r) @ be16 (r_class r) @ be32 (r_ttl r) @ be16 (length (r_data r))"
  have fx: "length fixed = 10" "rr_wire r = fixed @ r_data r" by (simp_all add: fixed_def rr_wire_def)
  have f: "rd16 buf e = Some (r_type r)" "rd16 buf (e + 2) = Some (r_class r)" "rd32 buf (e + 4) = Some (r_ttl r)"
    "rd16 buf (e + 8) = Some (length (r_data r))"
    using rd16_at [OF d assms(4)] rd16_at [OF d2 assms(5)] rd32_at [OF d4] rd16_at [OF d8 assms(9)] assms(6) by simp_all
  have b: "rd_bytes buf e 10 = Some fixed" "rd_bytes buf (e + 10) (length (r_data r)) = Some (r_data r)"
    using assms(1-3) fx d10 by (simp_all add: rd_bytes_def length_rr_wire)
  have w: "wr_bytes (rr_rsp s) off fixed = Some (take off (rr_rsp s) @ fixed @ drop (off + 10) (rr_rsp s))"
    "wr_bytes (take off (rr_rsp s) @ fixed @ drop (off + 10) (rr_rsp s)) (off + 10) (r_data r) =
     Some (take off (rr_rsp s) @ rr_wire r @ drop (off + length (rr_wire r)) (rr_rsp s))"
    using assms(7,8) fx wr_bytes_wr_bytes [of off fixed "r_data r" "rr_rsp s"] by (simp_all add: wr_bytes_def add.assoc)
  have l: "length (rr_wire r) = 10 + length (r_data r)" by (rule length_rr_wire)
  show ?thesis
    using assms(2,6,7) unfolding parse_rr_fields_def Let_def by (simp add: f f(2) [simplified] b w l add.assoc [symmetric] del: drop_drop)
qed

text \<open>A message whose question is the name \<open>ls\<close>.\<close>

definition question_at :: "u8 list list \<Rightarrow> u8 list \<Rightarrow> nat \<Rightarrow> bool" where
  "question_at ls buf lim \<longleftrightarrow> list_all label_ok ls \<and> ls \<noteq> [] \<and> length (name_wire ls) < NS_MAXDNAME \<and>
     12 + length (name_wire ls) < lim \<and> lim \<le> length buf \<and> (\<exists>r. drop 12 buf = name_wire ls @ 0 # r)"

lemma get_name_question:
  assumes "question_at ls buf lim" "drop p buf = NS_CMPRSFLGS # 0x0C # r" "ns_end s = None" "ns_name_len s = 0" "ns_output_len s = 0"
    "length (ns_name s) = NS_MAXDNAME + 1" "2 \<le> length (ns_output s)" "2 \<le> om"
  shows "get_name 0 buf p lim om NS_MAXDNAME s = Some (Inr (),
    s\<lparr>ns_end := Some (p + 2), ns_name := name_wire ls @ 0 # drop (length (name_wire ls) + 1) (ns_name s),
      ns_name_len := length (name_wire ls), ns_output := NS_CMPRSFLGS # 0x0C # drop 2 (ns_output s), ns_output_len := 2\<rparr>)"
proof -
  have rd: "rd buf p = Some NS_CMPRSFLGS" "rd buf (p + 1) = Some 0x0C"
    using drop_Cons_rd [OF assms(2)] drop_Cons_rd [of "p + 1" buf "0x0C" r] by simp_all
  obtain r0 where q: "list_all label_ok ls" "drop 12 buf = name_wire ls @ 0 # r0" "12 + length (name_wire ls) < lim"
    "length (name_wire ls) < NS_MAXDNAME" "ls \<noteq> []"
    using assms(1) by (auto simp: question_at_def)
  have "get_name 0 buf p lim om NS_MAXDNAME s = get_name_loop 1 buf lim om NS_MAXDNAME 12 (name_end (p + 2) s)"
    using q(3) by (simp add: get_name_def get_name_loop_ptr [OF rd(1)] rd(2) [simplified])
  also have "\<dots> = Some (Inr (), if ls = [] then name_end (p + 2) s else
    (name_end (p + 2) s)\<lparr>ns_name := take (ns_name_len (name_end (p + 2) s)) (ns_name (name_end (p + 2) s)) @ name_wire ls
        @ 0 # drop (ns_name_len (name_end (p + 2) s) + length (name_wire ls) + 1) (ns_name (name_end (p + 2) s)),
      ns_name_len := ns_name_len (name_end (p + 2) s) + length (name_wire ls),
      ns_output := NS_CMPRSFLGS # 0x0C # drop 2 (ns_output (name_end (p + 2) s)), ns_output_len := 2\<rparr>)"
    by (rule get_name_loop_wire [OF q(1,2,3), where e = "p + 2"]) (use q(4) assms(3-8) in auto)
  finally show ?thesis using q(5) assms(3-5) by (simp add: name_end_def)
qed

lemma parse_rr_plain:
  assumes "question_at ls buf lim" "drop p buf = NS_CMPRSFLGS # 0x0C # rr_wire r @ rest" "p + 2 + length (rr_wire r) \<le> lim"
    "rr_plain ty cl r" "ty < 65536" "cl < 65536"
  shows "\<exists>t. parse_rr buf p lim NS_MAXDNAME (fresh_rr s) = Some (Inr (), t) \<and> rr_type t = ty \<and> rr_class t = cl \<and> rr_ttl t = r_ttl r \<and>
    rr_end t = Some (p + 2 + length (rr_wire r)) \<and> rr_rsp_len t = 2 + length (rr_wire r) \<and> rr_rsp_len t \<le> length (rr_rsp t) \<and>
    take (rr_rsp_len t) (rr_rsp t) = NS_CMPRSFLGS # 0x0C # rr_wire r \<and> bstr (rr_name t) = name_wire ls"
proof -
  define n0 where "n0 = \<lparr>ns_output = rr_rsp (fresh_rr s), ns_output_len = 0, ns_end = rr_end (fresh_rr s),
    ns_name = rr_name (fresh_rr s), ns_name_len = 0\<rparr>"
  define n1 where "n1 = n0\<lparr>ns_end := Some (p + 2), ns_name := name_wire ls @ 0 # drop (length (name_wire ls) + 1) (ns_name n0),
      ns_name_len := length (name_wire ls), ns_output := NS_CMPRSFLGS # 0x0C # drop 2 (ns_output n0), ns_output_len := 2\<rparr>"
  have g: "get_name 0 buf p lim (rr_rsp_len (fresh_rr s)) NS_MAXDNAME n0 = Some (Inr (), n1)"
    unfolding n1_def by (rule get_name_question [OF assms(1,2)]) (simp_all add: n0_def fresh_rr_def)
  define s1 where "s1 = (fresh_rr s)\<lparr>rr_rsp := ns_output n1, rr_end := ns_end n1, rr_name := ns_name n1\<rparr>"
  have d: "drop (p + 2) buf = rr_wire r @ rest"
    using drop_append_drop [of p buf "[NS_CMPRSFLGS, 0x0C]"] assms(2) by simp
  have lr: "length (rr_wire r) \<le> 252" "lim \<le> length buf"
    using assms(1,4) by (simp_all add: rr_plain_def length_rr_wire question_at_def)
  have "parse_rr buf p lim NS_MAXDNAME (fresh_rr s) = parse_rr_fields buf lim 2 (p + 2) s1"
    unfolding parse_rr_def n0_def [symmetric] g by (simp add: s1_def n1_def Let_def) (simp add: fresh_rr_def)
  also have "\<dots> = Some (Inr (), s1\<lparr>rr_type := r_type r, rr_class := r_class r, rr_ttl := r_ttl r,
    rr_rdlen := length (r_data r), rr_end := Some (p + 2 + length (rr_wire r)), rr_rsp_len := 2 + length (rr_wire r),
    rr_rsp := take 2 (rr_rsp s1) @ rr_wire r @ drop (2 + length (rr_wire r)) (rr_rsp s1)\<rparr>)"
    by (rule parse_rr_fields_plain [OF d assms(3)]) (use lr assms(4-6) in \<open>auto simp: rr_plain_def s1_def n1_def n0_def fresh_rr_def\<close>)
  finally show ?thesis
    using assms(1,4) lr by (simp add: rr_plain_def s1_def n1_def n0_def fresh_rr_def bstr_name question_at_def)
qed

text \<open>
  A list of such records, of any types but \<open>CNAME\<close>: those of the type of the question are stored as
  they are, the others are skipped, and the type and lifetime that are reported are those of the last.
\<close>

definition rr_any :: "nat \<Rightarrow> dns_rr \<Rightarrow> bool" where
  "rr_any cl r \<longleftrightarrow> rr_plain (r_type r) cl r \<and> r_type r < 65536 \<and> r_type r \<noteq> DNS_TYPE_CNAME"

definition of_type :: "nat \<Rightarrow> dns_rr list \<Rightarrow> dns_rr list" where
  "of_type ty rrs = filter (\<lambda>r. r_type r = ty) rrs"

lemma of_type_simps [simp]: "of_type ty [] = []" "of_type ty (r # rrs) = (if r_type r = ty then r # of_type ty rrs else of_type ty rrs)"
  by (simp_all add: of_type_def)

lemma parse_answers_plain:
  assumes "question_at ls buf lim" "bstr question = name_wire ls" "cl < 65536"
    "list_all (rr_any cl) rrs" "drop (rs_ptr s) buf = rrs_wire rrs @ rest" "rs_ptr s + length (rrs_wire rrs) \<le> lim"
    "rs_aliases s = []" "rs_response_len s + length (rrs_wire (of_type ty rrs)) \<le> maxlen" "maxlen \<le> length (rs_response s)"
  shows "\<exists>t. parse_answers (length rrs) buf lim question ty cl maxlen s = Some t \<and>
    rs_response_len t = rs_response_len s + length (rrs_wire (of_type ty rrs)) \<and>
    take (rs_response_len t) (rs_response t) = take (rs_response_len s) (rs_response s) @ rrs_wire (of_type ty rrs) \<and>
    rs_answers t = rs_answers s + length (of_type ty rrs) \<and> rs_err t = (if of_type ty rrs = [] then rs_err s else Inr ()) \<and>
    rs_type t = (if rrs = [] then rs_type s else r_type (last rrs)) \<and> rs_class t = (if rrs = [] then rs_class s else cl) \<and>
    rs_ttl t = (if rrs = [] then rs_ttl s else r_ttl (last rrs))"
  using assms(4-9)
proof (induction rrs arbitrary: s)
  case Nil
  then show ?case by simp
next
  case (Cons r rrs)
  have r: "rr_plain (r_type r) cl r" "r_type r < 65536" "r_type r \<noteq> 5"
    and d: "drop (rs_ptr s) buf = NS_CMPRSFLGS # 0x0C # rr_wire r @ rrs_wire rrs @ rest"
    and lim: "rs_ptr s + 2 + length (rr_wire r) \<le> lim"
    using Cons.prems by (auto simp: rr_any_def)
  obtain t where t: "parse_rr buf (rs_ptr s) lim NS_MAXDNAME (fresh_rr s) = Some (Inr (), t)" "rr_type t = r_type r" "rr_class t = cl"
    "rr_ttl t = r_ttl r" "rr_end t = Some (rs_ptr s + 2 + length (rr_wire r))" "rr_rsp_len t = 2 + length (rr_wire r)"
    "rr_rsp_len t \<le> length (rr_rsp t)" "take (rr_rsp_len t) (rr_rsp t) = NS_CMPRSFLGS # 0x0C # rr_wire r" "bstr (rr_name t) = name_wire ls"
    using parse_rr_plain [OF assms(1) d lim r(1,2) assms(3), of s] by auto
  define x where "x = NS_CMPRSFLGS # 0x0C # rr_wire r"
  have lx: "length x = 2 + length (rr_wire r)" by (simp add: x_def)
  define s0 where "s0 = s\<lparr>rs_type := r_type r, rs_class := cl, rs_ttl := r_ttl r, rs_ptr := rs_ptr s + length x\<rparr>"
  have d1: "drop (rs_ptr s + length x) buf = rrs_wire rrs @ rest"
    using drop_append_drop [of "rs_ptr s" buf x] d by (simp add: x_def)
  have m: "strncmp_eq question (rr_name t) (length (bstr question))" using assms(2) t(9) by (simp add: strncmp_eq_def)
  show ?case
  proof (cases "r_type r = ty")
    case False
    have p: "parse_answer buf lim question ty cl maxlen s = Some (True, s0)"
      using t(1-6) r(3) False lx by (simp add: parse_answer_def Let_def s0_def)
    obtain t' where "parse_answers (length rrs) buf lim question ty cl maxlen s0 = Some t'"
      "rs_response_len t' = rs_response_len s0 + length (rrs_wire (of_type ty rrs))"
      "take (rs_response_len t') (rs_response t') = take (rs_response_len s0) (rs_response s0) @ rrs_wire (of_type ty rrs)"
      "rs_answers t' = rs_answers s0 + length (of_type ty rrs)" "rs_err t' = (if of_type ty rrs = [] then rs_err s0 else Inr ())"
      "rs_type t' = (if rrs = [] then rs_type s0 else r_type (last rrs))" "rs_class t' = (if rrs = [] then rs_class s0 else cl)"
      "rs_ttl t' = (if rrs = [] then rs_ttl s0 else r_ttl (last rrs))"
      using Cons.IH [of s0] Cons.prems lx d1 False by (auto simp: s0_def)
    with p False show ?thesis by (intro exI [of _ t']) (auto simp: s0_def)
  next
    case True
    obtain resp where w: "wr_bytes (rs_response s) (rs_response_len s) x = Some resp"
      using Cons.prems(5,6) lx True by (auto simp: wr_bytes_def)
    define s1 where "s1 = s0\<lparr>rs_response := resp, rs_response_len := rs_response_len s + length x,
      rs_answers := rs_answers s + 1, rs_err := Inr ()\<rparr>"
    have "rd_bytes (rr_rsp t) 0 (rr_rsp_len t) = Some x" using t(7,8) by (simp add: rd_bytes_def x_def)
    then have p: "parse_answer buf lim question ty cl maxlen s = Some (True, s1)"
      using t(1-6) w m r(3) Cons.prems(4,5) lx True by (auto simp: parse_answer_def Let_def s1_def s0_def)
    obtain t' where "parse_answers (length rrs) buf lim question ty cl maxlen s1 = Some t'"
      "rs_response_len t' = rs_response_len s1 + length (rrs_wire (of_type ty rrs))"
      "take (rs_response_len t') (rs_response t') = take (rs_response_len s1) (rs_response s1) @ rrs_wire (of_type ty rrs)"
      "rs_answers t' = rs_answers s1 + length (of_type ty rrs)" "rs_err t' = (if of_type ty rrs = [] then rs_err s1 else Inr ())"
      "rs_type t' = (if rrs = [] then rs_type s1 else r_type (last rrs))" "rs_class t' = (if rrs = [] then rs_class s1 else cl)"
      "rs_ttl t' = (if rrs = [] then rs_ttl s1 else r_ttl (last rrs))"
      using Cons.IH [of s1] Cons.prems lx d1 True wr_bytes_SomeD(2) [OF w] by (auto simp: s1_def s0_def)
    then show ?thesis
      using p wr_bytes_append [OF w] lx True by (intro exI [of _ t']) (auto simp: s1_def s0_def x_def)
  qed
qed

text \<open>A whole response: header, question and records.\<close>

definition dns_header :: "nat \<Rightarrow> u8 \<Rightarrow> u8 \<Rightarrow> nat \<Rightarrow> nat \<Rightarrow> nat \<Rightarrow> nat \<Rightarrow> u8 list" where
  "dns_header i b2 b3 qd an ns ar = be16 i @ [b2, b3] @ be16 qd @ be16 an @ be16 ns @ be16 ar"

definition response_body :: "u8 list list \<Rightarrow> nat \<Rightarrow> nat \<Rightarrow> dns_rr list \<Rightarrow> u8 list" where
  "response_body ls ty cl rrs = name_wire ls @ 0 # be16 ty @ be16 cl @ rrs_wire rrs"

lemma length_dns_header [simp]: "length (dns_header i b2 b3 qd an ns ar) = 12"
  by (simp add: dns_header_def)

lemma dns_header_fields:
  assumes "qd < 65536" "an < 65536" "ns < 65536" "ar < 65536"
  shows "rd16 (dns_header i b2 b3 qd an ns ar @ r) 4 = Some qd" "rd16 (dns_header i b2 b3 qd an ns ar @ r) 6 = Some an"
    "rd16 (dns_header i b2 b3 qd an ns ar @ r) 8 = Some ns" "rd16 (dns_header i b2 b3 qd an ns ar @ r) 10 = Some ar"
    "hdr_qr (dns_header i b2 b3 qd an ns ar @ r) 0 = Some (bit b2 7)"
    "hdr_rcode (dns_header i b2 b3 qd an ns ar @ r) 0 = Some (unat (b3 AND 0x0F))"
proof -
  show "rd16 (dns_header i b2 b3 qd an ns ar @ r) 4 = Some qd"
    by (rule rd16_at [OF _ assms(1)]) (simp add: dns_header_def)
  show "rd16 (dns_header i b2 b3 qd an ns ar @ r) 6 = Some an"
    by (rule rd16_at [OF _ assms(2)]) (simp add: dns_header_def)
  show "rd16 (dns_header i b2 b3 qd an ns ar @ r) 8 = Some ns"
    by (rule rd16_at [OF _ assms(3)]) (simp add: dns_header_def)
  show "rd16 (dns_header i b2 b3 qd an ns ar @ r) 10 = Some ar"
    by (rule rd16_at [OF _ assms(4)]) (simp add: dns_header_def)
  show "hdr_qr (dns_header i b2 b3 qd an ns ar @ r) 0 = Some (bit b2 7)"
    "hdr_rcode (dns_header i b2 b3 qd an ns ar @ r) 0 = Some (unat (b3 AND 0x0F))"
    by (simp_all add: hdr_qr_def hdr_rcode_def rd_def dns_header_def nth_append)
qed

lemma parse_response_plain:
  assumes "buf = dns_header i b2 b3 1 (length rrs) ns ar @ response_body ls ty cl rrs @ pad"
    "buflen = 12 + length (response_body ls ty cl rrs)"
    "bit b2 7" "list_all label_ok ls" "ls \<noteq> []" "length (name_wire ls) < NS_MAXDNAME"
    "ty = DNS_TYPE_A \<or> ty = DNS_TYPE_AAAA" "cl < 65536" "of_type ty rrs \<noteq> []" "list_all (rr_any cl) rrs" "length rrs < 65536"
    "length question = NS_MAXDNAME + 1" "last question = 0" "ns < 65536" "ar < 65536"
    "length (rrs_wire (of_type ty rrs)) \<le> rs_response_len s" "rs_response_len s \<le> length (rs_response s)"
  shows "\<exists>q t. parse_response buf buflen question NS_MAXDNAME s = Some (q, t) \<and> bstr q = name_wire ls \<and>
    rs_response_len t = length (rrs_wire (of_type ty rrs)) \<and>
    take (rs_response_len t) (rs_response t) = rrs_wire (of_type ty rrs) \<and> rs_answers t = length (of_type ty rrs) \<and>
    rs_err t = Inr () \<and> rs_type t = r_type (last rrs) \<and> rs_class t = cl \<and> rs_ttl t = r_ttl (last rrs)"
proof -
  define w where "w = name_wire ls"
  have d12: "drop 12 buf = w @ 0 # be16 ty @ be16 cl @ rrs_wire rrs @ pad"
    using assms(1) by (simp add: response_body_def w_def)
  have lw: "length w < 1025" "bstr (drop 12 buf) = w" using assms(4,6) d12 by (simp_all add: w_def bstr_name)
  have ne: "rrs \<noteq> []" using assms(9) by auto
  have lrr: "12 \<le> length (rrs_wire rrs)" using ne by (cases rrs) (simp_all add: length_rr_wire)
  have bl: "buflen = 12 + length w + 5 + length (rrs_wire rrs)" "buflen \<le> length buf"
    using assms(1,2) by (simp_all add: response_body_def w_def)
  define n where "n = min 1025 (buflen - 12)"
  have n: "length w < n" using lw bl lrr by (simp add: n_def)
  define q where "q = w @ replicate (n - length w) 0"
  have sc: "strncpy_bytes buf 12 n = Some q"
    using n lw(2) bl by (simp add: strncpy_bytes_def q_def)
  have qb: "q = w @ 0 # replicate (n - length w - 1) 0"
    unfolding q_def using n by (cases "n - length w") auto
  obtain q1 where q1: "wr_bytes question 0 q = Some q1" "length q1 = NS_MAXDNAME + 1" "last q1 = 0" "c_strlen q1 0 = Some (length (bstr q1))"
  proof (rule question_copied [OF assms(12,13)])
    have "length q = n" "n \<le> 1025" using n by (simp_all add: q_def n_def)
    then show "length q \<le> NS_MAXDNAME" by simp
  qed
  have b1: "bstr q1 = w" using wr_bytes_SomeD(3) [OF q1(1)] qb assms(4) by (simp add: w_def bstr_name)
  define p where "p = 12 + length w + 1"
  have dp: "drop p buf = be16 ty @ be16 cl @ rrs_wire rrs @ pad"
    using drop_append_drop [of 12 buf "w @ [0]"] d12 by (simp add: p_def)
  have dp2: "drop (p + 2) buf = be16 cl @ rrs_wire rrs @ pad" using drop_append_drop [OF dp] by simp
  have dp4: "drop (p + 4) buf = rrs_wire rrs @ pad" using drop_append_drop [OF dp2] by (simp add: numeral_eq_Suc)
  have f: "rd16 buf 4 = Some 1" "hdr_qr buf 0 = Some True" "rd16 buf 6 = Some (length rrs)" "rd16 buf p = Some ty" "rd16 buf (p + 2) = Some cl"
    using dns_header_fields [of 1 "length rrs" ns ar] assms(1,3,11,14,15) rd16_at [OF dp] rd16_at [OF dp2] assms(7,8) by auto
  define s1 where "s1 = s\<lparr>rs_response_len := 0, rs_answers := 0, rs_aliases := [], rs_ptr := p + 4, rs_err := Inl ENOMSG\<rparr>"
  have "question_at ls buf buflen"
    using assms(4-6) bl d12 by (auto simp: question_at_def w_def)
  then obtain t where "parse_answers (length rrs) buf buflen q1 ty cl (rs_response_len s) s1 = Some t"
    "rs_response_len t = length (rrs_wire (of_type ty rrs))" "take (rs_response_len t) (rs_response t) = rrs_wire (of_type ty rrs)"
    "rs_answers t = length (of_type ty rrs)" "rs_err t = Inr ()" "rs_type t = r_type (last rrs)" "rs_class t = cl" "rs_ttl t = r_ttl (last rrs)"
    using parse_answers_plain [of ls buf buflen q1 cl rrs s1 pad ty "rs_response_len s"] assms(8-10,16,17) ne b1 dp4 bl
    by (auto simp: s1_def w_def p_def)
  moreover have "parse_response buf buflen question NS_MAXDNAME s =
      do { t \<leftarrow> parse_answers (length rrs) buf buflen q1 ty cl (rs_response_len s) s1; Some (q1, t) }"
  proof -
    have c: "\<not> buflen < 12" "(\<not> True \<or> (1 :: nat) \<noteq> 1) = False" "\<not> buflen \<le> p + 4" "(ty \<noteq> DNS_TYPE_A \<and> ty \<noteq> DNS_TYPE_AAAA) = False"
      using bl lrr assms(7) by (auto simp: p_def)
    have p': "12 + length (bstr q1) + 1 = p" by (simp add: p_def b1)
    show ?thesis
      unfolding parse_response_def Let_def n_def [symmetric]
      by (simp only: c f sc q1(1,4) p' bind.bind_lunit if_False) (simp add: s1_def)
  qed
  ultimately show ?thesis using b1 by (intro exI [of _ q1] exI [of _ t]) (simp add: w_def)
qed

section \<open>Lifetimes in a cached response\<close>

definition set_ttl :: "nat \<Rightarrow> dns_rr \<Rightarrow> dns_rr" where
  "set_ttl n r = r\<lparr>r_ttl := n\<rparr>"

lemma dns_name_length_ptr: "dns_name_length (pre @ NS_CMPRSFLGS # r) (length pre) = Some 2"
  by (simp add: dns_name_length_def rd_def)

lemma update_ttl_loop_rrs:
  assumes "list_all (\<lambda>r. length (r_data r) < 65536) rrs"
  shows "update_ttl_loop (pre @ rrs_wire rrs @ post) (length pre) (length (rrs_wire rrs)) (be32 n) =
    Some (pre @ rrs_wire (map (set_ttl n) rrs) @ post)"
  using assms
proof (induction rrs arbitrary: pre)
  case Nil
  then show ?case by (simp add: update_ttl_loop.simps)
next
  case (Cons r rrs)
  define a where "a = pre @ [NS_CMPRSFLGS, 0x0C] @ be16 (r_type r) @ be16 (r_class r)"
  define b where "b = be16 (length (r_data r)) @ r_data r @ rrs_wire rrs @ post"
  define m where "m = pre @ rrs_wire (r # rrs) @ post"
  have m: "m = a @ be32 (r_ttl r) @ b" by (simp add: m_def a_def b_def rr_wire_def)
  have la: "length a = length pre + 2 + 4" by (simp add: a_def)
  have nl: "dns_name_length m (length pre) = Some 2" unfolding m_def by (simp add: dns_name_length_ptr)
  have w: "wr_bytes m (length pre + 2 + 4) (be32 n) = Some (a @ be32 n @ b)"
    unfolding la [symmetric] m by (simp add: wr_bytes_def)
  have rl: "rd16 (a @ be32 n @ b) (length pre + 2 + 8) = Some (length (r_data r))"
    by (rule rd16_at [of _ _ _ "r_data r @ rrs_wire rrs @ post"]) (use Cons.prems la in \<open>auto simp: b_def\<close>)
  have len: "length (rrs_wire (r # rrs)) = 2 + (10 + length (r_data r)) + length (rrs_wire rrs)" by (simp add: length_rr_wire)
  have "update_ttl_loop m (length pre) (length (rrs_wire (r # rrs))) (be32 n) =
      update_ttl_loop (a @ be32 n @ b) (length pre + 2 + (10 + length (r_data r))) (length (rrs_wire rrs)) (be32 n)"
    by (subst update_ttl_loop.simps) (simp only: nl w rl len bind.bind_lunit, simp)
  also have "a @ be32 n @ b = (pre @ NS_CMPRSFLGS # 0x0C # rr_wire (set_ttl n r)) @ rrs_wire rrs @ post"
    by (simp add: a_def b_def rr_wire_def set_ttl_def)
  also have "length pre + 2 + (10 + length (r_data r)) = length (pre @ NS_CMPRSFLGS # 0x0C # rr_wire (set_ttl n r))"
    by (simp add: length_rr_wire set_ttl_def)
  finally show ?case
    using Cons.IH [of "pre @ NS_CMPRSFLGS # 0x0C # rr_wire (set_ttl n r)"] Cons.prems by (simp add: m_def)
qed

lemma dns_name_length_name:
  assumes "list_all label_ok ls"
  shows "dns_name_length (pre @ name_wire ls @ 0 # r) (length pre) = Some (length (name_wire ls) + 1)"
proof -
  have "c_strlen (pre @ name_wire ls @ 0 # r) (length pre) = Some (length (name_wire ls))"
    using bstr_name [OF assms, of r] by (simp add: c_strlen_def)
  moreover obtain b where b: "rd (pre @ name_wire ls @ 0 # r) (length pre) = Some b" "unat b < 192"
  proof (cases ls)
    case Nil
    with that [of 0] show thesis by (simp add: rd_def)
  next
    case (Cons l ls')
    then have "label_ok l" using assms by simp
    with Cons that [of "word_of_nat (length l)"] show thesis
      by (simp add: rd_def label_ok_length label_ok_def nth_append)
  qed
  ultimately show ?thesis by (simp add: dns_name_length_def compressed_iff not_le)
qed

text \<open>Setting the lifetime changes the lifetime of every record and nothing else.\<close>

lemma update_cached_ttl_response:
  assumes "list_all label_ok ls" "list_all (\<lambda>r. length (r_data r) < 65536) rrs" "length hdr = 12" "0 \<le> ttl"
  shows "update_cached_ttl (pre @ hdr @ response_body ls ty cl rrs) (length pre) (12 + length (response_body ls ty cl rrs)) ttl =
    Some (pre @ hdr @ response_body ls ty cl (map (set_ttl (nat ttl)) rrs))"
proof -
  define m where "m = pre @ hdr @ response_body ls ty cl rrs"
  have n: "dns_name_length m (length pre + 12) = Some (length (name_wire ls) + 1)"
    using dns_name_length_name [OF assms(1), of "pre @ hdr" "be16 ty @ be16 cl @ rrs_wire rrs"] assms(3)
    by (simp add: m_def response_body_def)
  have "update_cached_ttl m (length pre) (12 + length (response_body ls ty cl rrs)) ttl =
    update_ttl_loop m (length pre + 12 + (length (name_wire ls) + 1 + 4)) (length (rrs_wire rrs)) (be32 (nat ttl))"
    using assms(4) n by (simp add: update_cached_ttl_def response_body_def)
  also have "\<dots> = Some (pre @ hdr @ response_body ls ty cl (map (set_ttl (nat ttl)) rrs))"
    using update_ttl_loop_rrs [OF assms(2), of "pre @ hdr @ name_wire ls @ 0 # be16 ty @ be16 cl" "[]" "nat ttl"] assms(3)
    by (simp add: m_def response_body_def ac_simps)
  finally show ?thesis by (simp add: m_def)
qed

section \<open>Names in queries\<close>

text \<open>
  Host names as text: labels without dots and zeros; a query carries a dot behind every label, a
  search domain only between them.
\<close>

definition host_label :: "u8 list \<Rightarrow> bool" where
  "host_label l \<longleftrightarrow> label_ok l \<and> DOT \<notin> set l"

definition text_dots :: "u8 list list \<Rightarrow> u8 list" where
  "text_dots ls = concat (map (\<lambda>l. l @ [DOT]) ls)"

definition text_joined :: "u8 list list \<Rightarrow> u8 list" where
  "text_joined ls = text_dots (butlast ls) @ last ls"

lemma text_dots_simps [simp]: "text_dots [] = []" "text_dots (l # ls) = l @ DOT # text_dots ls"
  by (simp_all add: text_dots_def)

lemma length_text_dots: "length (text_dots ls) = length (name_wire ls)"
  by (induction ls) simp_all

lemma name_wire_append [simp]: "name_wire (ls @ ks) = name_wire ls @ name_wire ks"
  by (simp add: name_wire_def)

lemma text_dots_nonzero: "list_all host_label ls \<Longrightarrow> 0 \<notin> set (text_dots ls)"
  by (induction ls) (auto simp: host_label_def label_ok_def)

lemma host_label_ok: "list_all host_label ls \<Longrightarrow> list_all label_ok ls"
  by (induction ls) (simp_all add: host_label_def)

lemma label_span_label:
  assumes "drop d data = l @ c # r" "0 \<notin> set l" "DOT \<notin> set l" "c = 0 \<or> c = DOT"
  shows "label_span data d = Some (length l)"
proof -
  have "takeWhile (\<lambda>b. b \<noteq> 0 \<and> b \<noteq> DOT) (drop d data) = l"
    unfolding assms(1) using assms(2-4) by (subst takeWhile_append2) auto
  moreover have "length (drop d data) = length l + 1 + length r" using assms(1) by simp
  then have "d + length l < length data" by simp
  ultimately show ?thesis by (simp add: label_span_def)
qed

lemma append_data_loop_label:
  assumes "drop d data = l @ c # r" "host_label l" "c = 0 \<or> c = DOT" "length l + 1 \<le> sz" "ptr + sz \<le> length buf"
  shows "append_data_loop buf ptr sz data d =
    append_data_loop (take ptr buf @ label_wire l @ drop (ptr + length l + 1) buf) (ptr + length l + 1) (sz - (length l + 1)) data (d + length l + 1)"
proof -
  have l: "l \<noteq> []" "label_span data d = Some (length l)"
    using assms(2) label_span_label [OF assms(1) _ _ assms(3)] by (auto simp: host_label_def label_ok_def)
  have "length (drop d data) = length l + 1 + length r" using assms(1) by simp
  then have "d + length l \<le> length data" by simp
  then have s: "rd_bytes data d (length l) = Some l" using assms(1) by (simp add: rd_bytes_def)
  have w1: "wr_bytes buf ptr [word_of_nat (length l)] = Some (take ptr buf @ [word_of_nat (length l)] @ drop (ptr + 1) buf)"
    using assms(4,5) by (simp add: wr_bytes_def)
  have w2: "wr_bytes (take ptr buf @ [word_of_nat (length l)] @ drop (ptr + 1) buf) (ptr + 1) l =
      Some (take ptr buf @ label_wire l @ drop (ptr + length l + 1) buf)"
    using wr_bytes_wr_bytes [of ptr "[word_of_nat (length l)]" l buf] assms(4,5) by (simp add: label_wire_def ac_simps)
  show ?thesis
    using l(1) assms(4) by (subst append_data_loop.simps) (simp only: l(2) s w1 w2 bind.bind_lunit, simp add: ac_simps)
qed

lemma append_data_loop_labels:
  assumes "list_all host_label ls" "drop d data = text_dots ls @ r" "length (name_wire ls) \<le> sz" "ptr + sz \<le> length buf"
  shows "append_data_loop buf ptr sz data d =
    append_data_loop (take ptr buf @ name_wire ls @ drop (ptr + length (name_wire ls)) buf) (ptr + length (name_wire ls))
      (sz - length (name_wire ls)) data (d + length (text_dots ls))"
  using assms
proof (induction ls arbitrary: buf ptr sz d)
  case Nil
  then show ?case by simp
next
  case (Cons l ls)
  define buf1 where "buf1 = take ptr buf @ label_wire l @ drop (ptr + length l + 1) buf"
  have d: "drop d data = l @ DOT # text_dots ls @ r" using Cons.prems(2) by simp
  have d1: "drop (d + length l + 1) data = text_dots ls @ r"
    using drop_append_drop [of d data "l @ [DOT]"] d by simp
  have l1: "length buf1 = length buf" using Cons.prems(3,4) by (simp add: buf1_def label_wire_def)
  have b1: "take (ptr + length l + 1) buf1 = take ptr buf @ label_wire l"
    using Cons.prems(3,4) by (simp add: buf1_def label_wire_def)
  have b2: "drop (ptr + length l + 1 + k) buf1 = drop (ptr + length l + 1 + k) buf" for k
    using Cons.prems(3,4) by (simp add: buf1_def label_wire_def ac_simps)
  have "append_data_loop buf ptr sz data d = append_data_loop buf1 (ptr + length l + 1) (sz - (length l + 1)) data (d + length l + 1)"
    unfolding buf1_def by (rule append_data_loop_label [OF d]) (use Cons.prems in auto)
  also have "\<dots> = append_data_loop (take (ptr + length l + 1) buf1 @ name_wire ls @ drop (ptr + length l + 1 + length (name_wire ls)) buf1)
      (ptr + length l + 1 + length (name_wire ls)) (sz - (length l + 1) - length (name_wire ls)) data (d + length l + 1 + length (text_dots ls))"
    by (rule Cons.IH) (use Cons.prems d1 l1 in auto)
  finally show ?case unfolding b1 b2 by (simp add: label_wire_def ac_simps)
qed

text \<open>The end of the text: a string that ends with a dot, one that does not, and the end of the object.\<close>

lemma append_data_loop_stop: "drop d data = c # r \<Longrightarrow> c = 0 \<or> c = DOT \<Longrightarrow> append_data_loop buf ptr sz data d = Some (Some ptr, buf)"
  using label_span_label [of d data "[]" c r] by (subst append_data_loop.simps) simp

lemma append_data_loop_out: "length data \<le> d \<Longrightarrow> append_data_loop buf ptr sz data d = None"
  by (subst append_data_loop.simps) (simp add: label_span_def)

lemma append_data_dots:
  assumes "list_all host_label ls" "data = text_dots ls @ 0 # r" "length (name_wire ls) \<le> sz" "ptr + sz \<le> length buf"
  shows "append_data buf ptr sz data = Some (Some (length (name_wire ls)), take ptr buf @ name_wire ls @ drop (ptr + length (name_wire ls)) buf)"
  using append_data_loop_labels [OF assms(1) _ assms(3,4), of 0 data "0 # r"] assms(2)
    append_data_loop_stop [of "length (text_dots ls)" data 0 r]
  by (simp add: append_data_def)

lemma append_data_last:
  assumes "list_all host_label ls" "ls \<noteq> []" "data = text_joined ls @ 0 # r" "length (name_wire ls) \<le> sz" "ptr + sz \<le> length buf"
  shows "append_data_loop buf ptr sz data 0 =
    append_data_loop (take ptr buf @ name_wire ls @ drop (ptr + length (name_wire ls)) buf) (ptr + length (name_wire ls))
      (sz - length (name_wire ls)) data (length (text_joined ls) + 1)"
proof -
  obtain ks l where ls: "ls = ks @ [l]" using assms(2) by (cases ls rule: rev_cases) auto
  have d: "drop 0 data = text_dots ks @ l @ 0 # r" and ok: "list_all host_label ks" "host_label l"
    and j: "text_joined ls = text_dots ks @ l"
    using assms(1,3) ls by (simp_all add: text_joined_def)
  define n where "n = length (name_wire ks)"
  define buf1 where "buf1 = take ptr buf @ name_wire ks @ drop (ptr + n) buf"
  have n: "length (name_wire ls) = n + length l + 1" "length (text_dots ks) = n" by (simp_all add: ls n_def length_text_dots)
  have l1: "length buf1 = length buf" using assms(4,5) n by (simp add: buf1_def n_def)
  have d1: "drop n data = l @ 0 # r" using d n(2) by simp
  have "append_data_loop buf ptr sz data 0 = append_data_loop buf1 (ptr + n) (sz - n) data n"
    using append_data_loop_labels [OF ok(1) d _ assms(5)] assms(4) n by (simp add: buf1_def n_def length_text_dots)
  also have "\<dots> = append_data_loop (take (ptr + n) buf1 @ label_wire l @ drop (ptr + n + length l + 1) buf1) (ptr + n + length l + 1)
      (sz - n - (length l + 1)) data (n + length l + 1)"
    by (rule append_data_loop_label [OF d1 ok(2)]) (use assms(4,5) n l1 in auto)
  also have "take (ptr + n) buf1 = take ptr buf @ name_wire ks" using assms(4,5) n by (simp add: buf1_def n_def)
  also have "drop (ptr + n + length l + 1) buf1 = drop (ptr + n + length l + 1) buf" using assms(4,5) n by (simp add: buf1_def n_def ac_simps)
  finally show ?thesis using n by (simp add: ls j [unfolded ls] label_wire_def ac_simps)
qed

lemma append_data_joined:
  assumes "list_all host_label ls" "ls \<noteq> []" "data = text_joined ls @ 0 # c # r" "c = 0 \<or> c = DOT" "length (name_wire ls) \<le> sz" "ptr + sz \<le> length buf"
  shows "append_data buf ptr sz data = Some (Some (length (name_wire ls)), take ptr buf @ name_wire ls @ drop (ptr + length (name_wire ls)) buf)"
proof -
  have "drop (length (text_joined ls) + 1) data = c # r" using assms(3) by simp
  then show ?thesis
    using append_data_last [OF assms(1,2,3,5,6)] append_data_loop_stop [OF _ assms(4)] by (simp add: append_data_def)
qed

text \<open>A string that ends with its object and with no dot: the loop reads behind the terminating zero.\<close>

lemma append_data_overread:
  assumes "list_all host_label ls" "ls \<noteq> []" "data = text_joined ls @ [0]" "length (name_wire ls) \<le> sz" "ptr + sz \<le> length buf"
  shows "append_data buf ptr sz data = None"
  using append_data_last [OF assms(1,2,3,4,5)] append_data_loop_out [of data "length (text_joined ls) + 1"] assms(3)
  by (simp add: append_data_def)

text \<open>A query and a search domain give the wire form of the whole name.\<close>

lemma append_query_wire:
  assumes "list_all host_label ls" "list_all host_label ds" "ds \<noteq> []" "query = text_dots ls @ 0 # r"
    "domain = text_joined ds @ 0 # c # r'" "c = 0 \<or> c = DOT" "length (name_wire (ls @ ds)) < sz" "ptr + sz \<le> length buf"
  shows "append_query buf ptr sz query domain =
    Some (Some (length (name_wire (ls @ ds))), take ptr buf @ name_wire (ls @ ds) @ 0 # drop (ptr + length (name_wire (ls @ ds)) + 1) buf)"
proof -
  define n1 n2 where "n1 = length (name_wire ls)" and "n2 = length (name_wire ds)"
  define buf1 where "buf1 = take ptr buf @ name_wire ls @ drop (ptr + n1) buf"
  define buf2 where "buf2 = take (ptr + n1) buf1 @ name_wire ds @ drop (ptr + n1 + n2) buf1"
  have n: "n1 + n2 < sz" using assms(7) by (simp add: n1_def n2_def)
  have a1: "append_data buf ptr sz query = Some (Some n1, buf1)"
    using append_data_dots [OF assms(1,4) _ assms(8)] n by (simp add: n1_def buf1_def)
  have l1: "length buf1 = length buf" using n assms(8) by (simp add: buf1_def n1_def)
  have a2: "append_data buf1 (ptr + n1) (sz - n1) domain = Some (Some n2, buf2)"
    using append_data_joined [OF assms(2,3,5,6), of "sz - n1" "ptr + n1" buf1] n l1 assms(8) by (simp add: n2_def buf2_def)
  have t1: "take (ptr + n1) buf1 = take ptr buf @ name_wire ls" "drop (ptr + n1 + n2) buf1 = drop (ptr + n1 + n2) buf"
    using n assms(8) by (simp_all add: buf1_def n1_def ac_simps)
  have b2: "buf2 = (take ptr buf @ name_wire (ls @ ds)) @ drop (ptr + n1 + n2) buf" by (simp add: buf2_def t1)
  have lp: "length (take ptr buf @ name_wire (ls @ ds)) = ptr + (n1 + n2)" using n assms(8) by (simp add: n1_def n2_def)
  have "wr_bytes buf2 (ptr + (n1 + n2)) [0] = Some (take ptr buf @ name_wire (ls @ ds) @ 0 # drop (ptr + n1 + n2 + 1) buf)"
    using lp n assms(8) unfolding b2 by (simp add: wr_bytes_def n1_def n2_def ac_simps)
  moreover have "sz - (sz - n1 - n2) = n1 + n2" "sz - n1 - n2 \<noteq> 0" using n by simp_all
  moreover have "length (name_wire (ls @ ds)) = n1 + n2" by (simp add: n1_def n2_def)
  ultimately show ?thesis
    unfolding append_query_def by (simp add: a1 a2 Let_def add.assoc del: name_wire_append)
qed

section \<open>Reading requests\<close>

lemma size_sub_le: "b \<le> a \<Longrightarrow> a < 2 ^ 64 \<Longrightarrow> size_sub a b = a - b"
proof -
  assume "b \<le> a" "a < 2 ^ 64"
  then have "a + 2 ^ 64 - b = (a - b) + 2 ^ 64" "a - b < 2 ^ 64" by simp_all
  then show ?thesis by (simp only: size_sub_def mod_add_self2 mod_less)
qed

lemma c_strlen_0: "length (bstr m) < length m \<Longrightarrow> c_strlen m 0 = Some (length (bstr m))"
  by (simp add: c_strlen_def)

lemma bstr_take: "take (length (bstr m)) m = bstr m"
  by (simp add: bstr_def takeWhile_eq_take [symmetric])

text \<open>Appending to a string that has room for it.\<close>

lemma wr_bytes_string:
  assumes "length (bstr m) + length s < length m" "0 \<notin> set s"
  shows "\<exists>m'. wr_bytes m (length (bstr m)) (s @ [0]) = Some m' \<and> bstr m' = bstr m @ s \<and> length m' = length m"
proof -
  define m' where "m' = take (length (bstr m)) m @ (s @ [0]) @ drop (length (bstr m) + length (s @ [0])) m"
  have "wr_bytes m (length (bstr m)) (s @ [0]) = Some m'" using assms(1) by (simp add: wr_bytes_def m'_def)
  moreover have "bstr m' = bstr m @ s"
  proof -
    have "0 \<notin> set (bstr m @ s)" using assms(2) by (auto simp: bstr_def dest: set_takeWhileD)
    moreover have e: "m' = (bstr m @ s) @ 0 # drop (length (bstr m) + length (s @ [0])) m" by (simp add: m'_def bstr_take)
    ultimately show ?thesis unfolding bstr_def [of m'] by (subst e, subst takeWhile_append2) auto
  qed
  moreover have "length m' = length m" using wr_bytes_SomeD(2) calculation(1) by blast
  ultimately show ?thesis by blast
qed

lemma request_label:
  assumes "drop i buf = l @ r" "r \<noteq> []" "host_label l" "length (bstr name) + length l + 1 < length name"
  shows "\<exists>name1 name2. strncat_bytes name buf i (length l) = Some name1 \<and> strcat_dot name1 = Some name2 \<and>
    bstr name2 = bstr name @ l @ [DOT] \<and> length name2 = length name"
proof -
  have nz: "0 \<notin> set l" using assms(3) by (auto simp: host_label_def label_ok_def)
  have s: "take (length l) (bstr (drop i buf)) = l"
    unfolding assms(1) bstr_def using nz by (subst takeWhile_append2) auto
  obtain name1 where n1: "wr_bytes name (length (bstr name)) (l @ [0]) = Some name1" "bstr name1 = bstr name @ l" "length name1 = length name"
    using wr_bytes_string [of name l] assms(4) nz by auto
  obtain name2 where "wr_bytes name1 (length (bstr name1)) ([DOT] @ [0]) = Some name2" "bstr name2 = bstr name1 @ [DOT]" "length name2 = length name1"
    using wr_bytes_string [of name1 "[DOT]"] assms(4) n1 by auto
  then show ?thesis
    using n1 s assms(4) by (simp add: strncat_bytes_def strcat_dot_def c_strlen_0 Let_def)
qed

lemma parse_request_loop_name:
  assumes "list_all host_label ls" "drop ptr buf = name_wire ls @ 0 # be16 ty @ be16 cl @ r" "cl = DNS_CLASS_IN \<or> cl = DNS_CLASS_ANY"
    "length (name_wire ls) + 5 \<le> remain" "remain < 2 ^ 64" "used + length (name_wire ls) < sz" "sz \<le> length name" "length (bstr name) = used"
  shows "\<exists>name1. parse_request_loop buf ptr remain used sz name =
      Some (Inr (ptr + length (name_wire ls) + 5, remain - (length (name_wire ls) + 5)), name1) \<and>
    bstr name1 = bstr name @ text_dots ls \<and> length name1 = length name"
  using assms
proof (induction ls arbitrary: ptr remain used name)
  case Nil
  then have "rd buf ptr = Some 0" "drop (ptr + 3) buf = be16 cl @ r"
    using drop_Cons_rd [of ptr buf 0] drop_append_drop [of ptr buf "0 # be16 ty"] by simp_all
  moreover have "rd16 buf (ptr + 3) = Some cl" using rd16_at [OF calculation(2)] Nil.prems(3) by auto
  ultimately show ?case
    using Nil.prems(3-5) by (subst parse_request_loop.simps) (auto simp: size_sub_le)
next
  case (Cons l ls)
  define b where "b = (word_of_nat (length l) :: u8)"
  have l: "host_label l" "unat b = length l" "b \<noteq> 0"
    using Cons.prems(1) label_ok_length [of l] by (auto simp: b_def host_label_def label_ok_def)
  have d: "drop ptr buf = b # l @ name_wire ls @ 0 # be16 ty @ be16 cl @ r" using Cons.prems(2) by (simp add: b_def)
  then have rd: "rd buf ptr = Some b" and d1: "drop (ptr + 1) buf = l @ name_wire ls @ 0 # be16 ty @ be16 cl @ r"
    using drop_Cons_rd [OF d] by simp_all
  have d2: "drop (ptr + length l + 1) buf = name_wire ls @ 0 # be16 ty @ be16 cl @ r"
    using drop_append_drop [OF d1] by (simp add: ac_simps)
  obtain name1 name2 where nm: "strncat_bytes name buf (ptr + 1) (length l) = Some name1" "strcat_dot name1 = Some name2"
    "bstr name2 = bstr name @ l @ [DOT]" "length name2 = length name"
    using request_label [OF d1 _ l(1), of name] Cons.prems(6-8) by auto
  have "parse_request_loop buf ptr remain used sz name =
      parse_request_loop buf (ptr + length l + 1) (remain - (length l + 1)) (used + length l + 1) sz name2"
    using Cons.prems(4-6) l nm(1,2) rd by (subst parse_request_loop.simps) (simp add: size_sub_le)
  moreover have "\<exists>name3. parse_request_loop buf (ptr + length l + 1) (remain - (length l + 1)) (used + length l + 1) sz name2 =
      Some (Inr (ptr + length l + 1 + length (name_wire ls) + 5, remain - (length l + 1) - (length (name_wire ls) + 5)), name3) \<and>
    bstr name3 = bstr name2 @ text_dots ls \<and> length name3 = length name2"
    by (rule Cons.IH [OF _ d2]) (use Cons.prems nm in auto)
  ultimately show ?case using nm(3,4) by (auto simp: ac_simps)
qed

text \<open>A well-formed request is read to the dotted text of its name.\<close>

lemma parse_request_name:
  assumes "buf = pre @ dns_header i b2 b3 1 0 0 0 @ name_wire ls @ 0 # be16 ty @ be16 cl @ r" "\<not> bit b2 7"
    "list_all host_label ls" "cl = DNS_CLASS_IN \<or> cl = DNS_CLASS_ANY" "length (name_wire ls) < sz" "sz \<le> length name"
    "12 + length (name_wire ls) + 5 \<le> len" "len < 2 ^ 64"
  shows "\<exists>name1. parse_request buf (length pre) len name sz = Some (Inr (), name1) \<and> bstr name1 = text_dots ls"
proof -
  have rd16_pre: "rd16 (pre @ m) (length pre + k) = rd16 m k" and rd_pre: "hdr_qr (pre @ m) (length pre) = hdr_qr m 0" for m k
    by (simp_all add: rd16_def hdr_qr_def rd_def nth_append numeral_2_eq_2)
  have f: "rd16 buf (length pre + 4) = Some 1" "rd16 buf (length pre + 6) = Some 0" "rd16 buf (length pre + 8) = Some 0"
    "rd16 buf (length pre + 10) = Some 0" "hdr_qr buf (length pre) = Some False"
    using dns_header_fields [of 1 0 0 0] assms(1,2) by (simp_all add: rd16_pre rd_pre)
  define name0 where "name0 = 0 # drop 1 name"
  have w: "wr_bytes name 0 [0] = Some name0" and n0: "bstr name0 = []" "length name0 = length name"
    using assms(5,6) by (simp_all add: wr_bytes_def name0_def bstr_def)
  have d: "drop (length pre + 12) buf = name_wire ls @ 0 # be16 ty @ be16 cl @ r" using assms(1) by simp
  obtain name1 where "parse_request_loop buf (length pre + 12) (len - 12) 0 sz name0 =
      Some (Inr (length pre + 12 + length (name_wire ls) + 5, len - 12 - (length (name_wire ls) + 5)), name1)" "bstr name1 = text_dots ls"
  proof -
    have "length (name_wire ls) + 5 \<le> len - 12" "len - 12 < 2 ^ 64" using assms(7,8) by linarith+
    then show thesis
      using that parse_request_loop_name [OF assms(3) d assms(4), of "len - 12" 0 sz name0] assms(5,6) n0 by auto
  qed
  then show ?thesis
    using f w assms(5,7) by (simp add: parse_request_def)
qed

text \<open>
  One byte is missing in the check of the space: a name that fills the array exactly is written
  with its terminating zero behind it.
\<close>

definition overflow_request :: "u8 list" where
  "overflow_request = dns_header 7 0 0 1 0 0 0 @ name_wire [[97, 98, 99]] @ 0 # be16 1 @ be16 1"

lemma parse_request_overflow: "parse_request overflow_request 0 (length overflow_request) [0, 0, 0, 0] 4 = None"
  by (simp add: parse_request_def overflow_request_def dns_header_def be16_def rd16_def hdr_qr_def rd_def wr_bytes_def
      parse_request_loop.simps strncat_bytes_def strcat_dot_def c_strlen_def bstr_def)

section \<open>Properties\<close>


definition empty_response :: response_state where
  "empty_response = \<lparr>rs_ptr = 0, rs_aliases = [], rs_err = Inr (), rs_type = 0, rs_class = 0, rs_ttl = 0,
     rs_response = replicate NS_MAXDNAME 0, rs_response_len = NS_MAXDNAME, rs_answers = 0\<rparr>"


text \<open>
  The query that is built for a host and a search domain is read back by the parser of requests as
  the host followed by the domain, for every host and domain of which the name fits, and nothing
  before the name is changed.
\<close>

lemma query_round_trip:
  assumes "list_all host_label ls" "list_all host_label ds" "ds \<noteq> []" "\<not> bit b2 7" "cl = DNS_CLASS_IN \<or> cl = DNS_CLASS_ANY"
    "length (name_wire (ls @ ds)) < sz" "sz \<le> length name" "sz < 2 ^ 32" "sz \<le> length space"
  shows "\<exists>n msg name1.
    append_query (dns_header i b2 b3 1 0 0 0 @ space) 12 sz (text_dots ls @ [0]) (text_joined ds @ [0, 0]) = Some (Some n, msg) \<and>
    take 12 msg = dns_header i b2 b3 1 0 0 0 \<and>
    parse_request (take (12 + n + 1) msg @ be16 ty @ be16 cl) 0 (12 + n + 5) name sz = Some (Inr (), name1) \<and>
    bstr name1 = text_dots (ls @ ds)"
proof -
  define h where "h = dns_header i b2 b3 1 0 0 0"
  define n where "n = length (name_wire (ls @ ds))"
  define msg where "msg = h @ name_wire (ls @ ds) @ 0 # drop (n + 1) space"
  have "append_query (h @ space) 12 sz (text_dots ls @ [0]) (text_joined ds @ [0, 0]) = Some (Some n, msg)"
    using append_query_wire [OF assms(1-3), of "text_dots ls @ [0]" "[]" "text_joined ds @ [0, 0]" 0 "[]" sz 12 "h @ space"] assms(6,9)
    by (simp add: h_def n_def msg_def)
  moreover have "take (12 + n + 1) msg @ be16 ty @ be16 cl = [] @ h @ name_wire (ls @ ds) @ 0 # be16 ty @ be16 cl @ []"
    by (simp add: msg_def h_def n_def)
  then have "\<exists>name1. parse_request (take (12 + n + 1) msg @ be16 ty @ be16 cl) 0 (12 + n + 5) name sz = Some (Inr (), name1) \<and>
      bstr name1 = text_dots (ls @ ds)"
    using parse_request_name [of "take (12 + n + 1) msg @ be16 ty @ be16 cl" "[]" i b2 b3 "ls @ ds" ty cl "[]" sz name "12 + n + 5"] assms
    by (simp add: h_def n_def)
  moreover have "take 12 msg = h" by (simp add: msg_def h_def)
  ultimately show ?thesis unfolding h_def [symmetric] by blast
qed

lemma query_round_trip_example:
  "\<exists>n msg name1.
    append_query (dns_header 7 1 0 1 0 0 0 @ replicate 64 0) 12 64 ([119, 119, 119, 46] @ [0]) ([101, 120, 46, 111, 114, 103] @ [0, 0]) = Some (Some n, msg) \<and>
    take 12 msg = dns_header 7 1 0 1 0 0 0 \<and>
    parse_request (take (12 + n + 1) msg @ be16 1 @ be16 1) 0 (12 + n + 5) (replicate 64 0) 64 = Some (Inr (), name1) \<and>
    bstr name1 = [119, 119, 119, 46, 101, 120, 46, 111, 114, 103, 46]"
  using query_round_trip [of "[[119, 119, 119]]" "[[101, 120], [111, 114, 103]]" 1 1 64 "replicate 64 0" "replicate 64 0" 7 0 1]
  by (simp add: host_label_def label_ok_def text_dots_def text_joined_def bit_numeral_rec)

end
