(* ===== verification/DnsCache.thy ===== *)
theory DnsCache
  imports DnsMessage
begin

unbundle bit_operations_syntax

text \<open>
  The cache of the DNS proxy, \<open>src/src/dnsproxy.c\<close>: entries with one answer for each address
  family, their validity, refreshing, cleaning and invalidation, the storing of a response and the
  answering of a request from the cache.

  The hash table is the list of its pairs of key and entry in the order in which it is traversed;
  keys are names in wire form without the terminating zero. \<open>now\<close> is the result of \<open>time\<close> during
  one call. Lookups that the cache starts itself are recorded with their family and name. As in
  \<open>DnsMessage\<close>, \<open>None\<close> is an access outside an object.
\<close>

section \<open>State\<close>

record cache_data =
  cd_inserted :: int
  cd_valid_until :: int
  cd_cache_until :: int
  cd_timeout :: int
  cd_type :: nat
  cd_answers :: nat
  cd_data :: "u8 list"

record cache_entry =
  ce_want_refresh :: bool
  ce_hits :: nat
  ce_ipv4 :: "cache_data option"
  ce_ipv6 :: "cache_data option"

type_synonym cache_table = "(u8 list \<times> cache_entry) list"

record dns_cache =
  dc_cache :: "cache_table option"
  dc_size :: int
  dc_refcount :: int
  dc_next_refresh :: int
  dc_timer :: bool
  dc_max_timeout :: int
  dc_lookups :: "(nat \<times> u8 list) list"

abbreviation (input) "MAX_CACHE_TTL \<equiv> 1800 :: int"
abbreviation (input) "MIN_CACHE_TTL \<equiv> 30 :: int"
abbreviation (input) "MAX_CACHE_SIZE \<equiv> 256 :: int"

definition dns_cache_init :: dns_cache where
  "dns_cache_init = \<lparr>dc_cache = None, dc_size = 0, dc_refcount = 0, dc_next_refresh = 0, dc_timer = False,
     dc_max_timeout = 0, dc_lookups = []\<rparr>"

text \<open>Lookup, change and removal of an entry; removal runs the destructor of the table.\<close>

definition cache_lookup :: "u8 list \<Rightarrow> dns_cache \<Rightarrow> cache_entry option" where
  "cache_lookup k c = (case dc_cache c of None \<Rightarrow> None | Some t \<Rightarrow> map_of t k)"

definition set_entry :: "u8 list \<Rightarrow> cache_entry \<Rightarrow> dns_cache \<Rightarrow> dns_cache" where
  "set_entry k e c = c\<lparr>dc_cache := map_option (map (\<lambda>(k', e'). if k' = k then (k', e) else (k', e'))) (dc_cache c)\<rparr>"

definition cache_element_destroy :: "dns_cache \<Rightarrow> dns_cache" where
  "cache_element_destroy c = c\<lparr>dc_size := (if dc_size c - 1 < 0 then 0 else dc_size c - 1)\<rparr>"

definition hash_table_remove :: "u8 list \<Rightarrow> dns_cache \<Rightarrow> dns_cache" where
  "hash_table_remove k c =
     (if cache_lookup k c = None then c
      else cache_element_destroy (c\<lparr>dc_cache := map_option (filter (\<lambda>(k', e). k' \<noteq> k)) (dc_cache c)\<rparr>))"

section \<open>Validity\<close>

text \<open>Division of C, which rounds towards zero.\<close>

definition c_div :: "int \<Rightarrow> int \<Rightarrow> int" where
  "c_div a b = (if 0 \<le> a then a div b else - ((- a) div b))"

definition round_down_ttl :: "int \<Rightarrow> int \<Rightarrow> int" where
  "round_down_ttl end_time ttl =
     (if ttl < 15 then end_time
      else if ttl < 300 then c_div end_time 10 * 10
      else c_div end_time 30 * 30)"

definition cache_check_is_valid :: "cache_data option \<Rightarrow> int \<Rightarrow> bool" where
  "cache_check_is_valid data now = (case data of None \<Rightarrow> False | Some d \<Rightarrow> \<not> cd_cache_until d < now)"

definition cache_free_ipv4 :: "cache_entry \<Rightarrow> cache_entry" where
  "cache_free_ipv4 e = e\<lparr>ce_ipv4 := None\<rparr>"

definition cache_free_ipv6 :: "cache_entry \<Rightarrow> cache_entry" where
  "cache_free_ipv6 e = e\<lparr>ce_ipv6 := None\<rparr>"

definition cache_enforce_validity :: "int \<Rightarrow> cache_entry \<Rightarrow> cache_entry" where
  "cache_enforce_validity now e =
     (let e1 = (if ce_ipv4 e \<noteq> None \<and> \<not> cache_check_is_valid (ce_ipv4 e) now then cache_free_ipv4 e else e)
      in if ce_ipv6 e1 \<noteq> None \<and> \<not> cache_check_is_valid (ce_ipv6 e1) now then cache_free_ipv6 e1 else e1)"

definition cache_check_validity :: "int \<Rightarrow> u8 list \<Rightarrow> nat \<Rightarrow> cache_entry \<Rightarrow> dns_cache \<Rightarrow> bool \<times> dns_cache" where
  "cache_check_validity now question type e c =
     (let e1 = cache_enforce_validity now e; c1 = set_entry question e1 c in
      if type \<noteq> DNS_TYPE_A \<and> type \<noteq> DNS_TYPE_AAAA then (False, c1)
      else
        let cached_ip = (if type = DNS_TYPE_A then ce_ipv4 e1 else ce_ipv6 e1);
            other_ip = (if type = DNS_TYPE_A then ce_ipv6 e1 else ce_ipv4 e1) in
        if \<not> cache_check_is_valid cached_ip now then
          if 2 < ce_hits e1 then (True, set_entry question (e1\<lparr>ce_want_refresh := True\<rparr>) c1)
          else if \<not> cache_check_is_valid other_ip now then (False, hash_table_remove question c1)
          else (True, c1)
        else (True, c1))"

section \<open>Creation and removal of the table\<close>

definition try_remove_cache :: "dns_cache \<Rightarrow> dns_cache" where
  "try_remove_cache c =
     (let c1 = c\<lparr>dc_timer := False, dc_refcount := dc_refcount c - 1\<rparr> in
      if dc_refcount c = 1 then c1\<lparr>dc_cache := None, dc_size := 0\<rparr> else c1)"

definition create_cache :: "dns_cache \<Rightarrow> dns_cache" where
  "create_cache c =
     (let c1 = c\<lparr>dc_refcount := dc_refcount c + 1\<rparr> in
      if dc_refcount c = 0 then c1\<lparr>dc_cache := Some [], dc_size := 0\<rparr> else c1)"

text \<open>The part of \<open>destroy_server\<close> that starts the removal of the cache.\<close>

definition start_cache_timer :: "dns_cache \<Rightarrow> dns_cache" where
  "start_cache_timer c = (if dc_cache c \<noteq> None \<and> \<not> dc_timer c then c\<lparr>dc_timer := True\<rparr> else c)"

text \<open>\<open>cache_check\<close> on a request with the answer to be looked for: its key and type.\<close>

definition cache_check :: "int \<Rightarrow> u8 list \<Rightarrow> protocol \<Rightarrow> dns_cache \<Rightarrow> ((u8 list \<times> nat) option \<times> dns_cache) option" where
  "cache_check now request proto c =
     do { let o1 = protocol_offset proto + DNS_HEADER_SIZE;
          n \<leftarrow> c_strlen request o1;
          type \<leftarrow> rd16 request (o1 + n + 1);
          let question = bstr (drop o1 request);
          if type \<noteq> DNS_TYPE_A \<and> type \<noteq> DNS_TYPE_AAAA then Some (None, c)
          else if dc_cache c = None then Some (None, create_cache c)
          else case cache_lookup question c of
            None \<Rightarrow> Some (None, c)
          | Some e \<Rightarrow> (case cache_check_validity now question type e c of
                (valid, c1) \<Rightarrow> Some (if valid then Some (question, type) else None, c1)) }"

section \<open>Cleaning\<close>

text \<open>\<open>g_hash_table_foreach_remove\<close>: the callback may change the entry and its own data.\<close>

fun foreach_remove ::
  "('s \<Rightarrow> cache_entry \<Rightarrow> bool \<times> cache_entry \<times> 's) \<Rightarrow> 's \<Rightarrow> cache_table \<Rightarrow> cache_table \<times> 's \<times> nat" where
  "foreach_remove f d [] = ([], d, 0)"
| "foreach_remove f d ((k, e) # t) =
     (case f d e of (del, e1, d1) \<Rightarrow> case foreach_remove f d1 t of (t1, d2, n) \<Rightarrow>
        (if del then (t1, d2, n + 1) else ((k, e1) # t1, d2, n)))"

definition destroy_elements :: "nat \<Rightarrow> dns_cache \<Rightarrow> dns_cache" where
  "destroy_elements n c = (cache_element_destroy ^^ n) c"

text \<open>The data of the callback is the largest time found so far.\<close>

definition cache_check_entry :: "int \<Rightarrow> bool \<Rightarrow> int \<Rightarrow> cache_entry \<Rightarrow> bool \<times> cache_entry \<times> int" where
  "cache_check_entry now try_harder max_timeout e =
     (let e1 = e\<lparr>ce_hits := ce_hits e div 2\<rparr>;
          step = (\<lambda>data m. case data of
              None \<Rightarrow> (False, m)
            | Some d \<Rightarrow> if 0 < cd_timeout d then (cd_cache_until d < now, max m (cd_cache_until d)) else (False, m));
          (old4, m4) = step (ce_ipv4 e) max_timeout in
      if old4 then (True, e1, m4)
      else let (old6, m6) = step (ce_ipv6 e) m4 in
        if old6 then (True, e1, m6)
        else (try_harder \<and> ce_hits e1 < 4, e1, m6))"

definition cache_pass :: "int \<Rightarrow> bool \<Rightarrow> int \<Rightarrow> dns_cache \<Rightarrow> dns_cache \<times> int \<times> nat" where
  "cache_pass now try_harder m c =
     (case dc_cache c of
        None \<Rightarrow> (c, m, 0)
      | Some t \<Rightarrow> (case foreach_remove (cache_check_entry now try_harder) m t of
            (t1, m1, n) \<Rightarrow> (destroy_elements n (c\<lparr>dc_cache := Some t1\<rparr>), m1, n)))"

definition cache_cleanup :: "int \<Rightarrow> dns_cache \<Rightarrow> dns_cache" where
  "cache_cleanup now c =
     (let (c1, m1, n1) = (if dc_max_timeout c \<le> now then cache_pass now False 0 c else (c, 0, 0));
          (c2, m2, n2) = (if n1 = 0 then cache_pass now True m1 c1 else (c1, m1, n1))
      in c2\<lparr>dc_max_timeout := (if n2 = 0 then m2 else 0)\<rparr>)"

section \<open>Invalidation and refreshing\<close>

definition cache_invalidate_entry :: "int \<Rightarrow> unit \<Rightarrow> cache_entry \<Rightarrow> bool \<times> cache_entry \<times> unit" where
  "cache_invalidate_entry now u e =
     (let e1 = cache_enforce_validity now e;
          e2 = (if 0 < ce_hits e1 \<and> (ce_ipv4 e1 \<noteq> None \<or> ce_ipv6 e1 \<noteq> None) then e1\<lparr>ce_want_refresh := True\<rparr> else e1);
          e3 = cache_free_ipv6 (cache_free_ipv4 e2)
      in (\<not> ce_want_refresh e3, e3, u))"

definition cache_invalidate :: "int \<Rightarrow> dns_cache \<Rightarrow> dns_cache" where
  "cache_invalidate now c =
     (case dc_cache c of
        None \<Rightarrow> c
      | Some t \<Rightarrow> (case foreach_remove (cache_invalidate_entry now) () t of
            (t1, u, n) \<Rightarrow> destroy_elements n (c\<lparr>dc_cache := Some t1\<rparr>)))"

text \<open>
  The conversion of a name to text replaces every length byte by a dot. The lengths are read as
  signed characters: one of 128 or more leads backwards.
\<close>

lemma undot_count:
  fixes m :: "u8 list"
  assumes "i < length m" "sint (m ! i) < 0" "0 \<le> sint v"
  shows "length (filter (\<lambda>b. sint b < 0) (m[i := v])) < length (filter (\<lambda>b. sint b < 0) m)"
  using assms by (induction m arbitrary: i) (auto split: nat.split simp: nth_Cons)

lemma undot_count_same:
  fixes m :: "u8 list"
  assumes "i < length m" "0 \<le> sint (m ! i)" "0 \<le> sint v"
  shows "length (filter (\<lambda>b. sint b < 0) (m[i := v])) = length (filter (\<lambda>b. sint b < 0) m)"
  using assms by (induction m arbitrary: i) (auto split: nat.split simp: nth_Cons)

function undot :: "u8 list \<Rightarrow> int \<Rightarrow> u8 list option" where
  "undot m c =
     (if c < 0 \<or> int (length m) \<le> c then None
      else let b = m ! nat c in
        if b = 0 then Some m else undot (m[nat c := DOT]) (c + sint b + 1))"
  by pat_completeness auto
termination
proof (relation "measures [\<lambda>(m, c). length (filter (\<lambda>b. sint b < 0) m), \<lambda>(m, c). nat (int (length m) - c)]", goal_cases)
  case 1
  then show ?case by simp
next
  case (2 m c b)
  have dot: "0 \<le> sint (DOT :: u8)" by simp
  have c: "nat c < length m" using 2 by auto
  show ?case
  proof (cases "sint b < 0")
    case True
    then show ?thesis using 2 c undot_count [OF c _ dot] by simp
  next
    case False
    then show ?thesis using 2 c undot_count_same [OF c _ dot] by simp
  qed
qed

declare undot.simps [simp del]

definition refresh_dns_entry :: "cache_entry \<Rightarrow> u8 list \<Rightarrow> cache_entry \<times> (nat \<times> u8 list) list" where
  "refresh_dns_entry e name =
     (let l4 = (if ce_ipv4 e = None then [(DNS_TYPE_A, name)] else []);
          l6 = (if ce_ipv6 e = None then [(DNS_TYPE_AAAA, name)] else []);
          age = (if ce_ipv4 e = None \<or> ce_ipv6 e = None then 4 else 1)
      in (e\<lparr>ce_hits := (if age < ce_hits e then ce_hits e - age else 0)\<rparr>, l4 @ l6))"

text \<open>The array for the name has 1026 bytes, of which the copy sets all but the last.\<close>

definition cache_refresh_entry :: "int \<Rightarrow> u8 list \<Rightarrow> cache_entry \<Rightarrow> (cache_entry \<times> (nat \<times> u8 list) list) option" where
  "cache_refresh_entry now key e =
     (let e1 = cache_enforce_validity now e;
          e2 = (if 2 < ce_hits e1 \<and> (ce_ipv4 e1 = None \<or> ce_ipv6 e1 = None) then e1\<lparr>ce_want_refresh := True\<rparr> else e1) in
      if ce_want_refresh e2 then
        do { m \<leftarrow> undot (take NS_MAXDNAME key @ replicate (NS_MAXDNAME - length key) 0) 0;
             Some (refresh_dns_entry (e2\<lparr>ce_want_refresh := False\<rparr>) (bstr (drop 1 m))) }
      else Some (e2, []))"

fun cache_refresh_iterator :: "int \<Rightarrow> cache_table \<Rightarrow> (cache_table \<times> (nat \<times> u8 list) list) option" where
  "cache_refresh_iterator now [] = Some ([], [])"
| "cache_refresh_iterator now ((k, e) # t) =
     do { (e1, l1) \<leftarrow> cache_refresh_entry now k e;
          (t1, l2) \<leftarrow> cache_refresh_iterator now t;
          Some ((k, e1) # t1, l1 @ l2) }"

definition cache_refresh :: "int \<Rightarrow> dns_cache \<Rightarrow> dns_cache option" where
  "cache_refresh now c =
     (case dc_cache c of
        None \<Rightarrow> Some c
      | Some t \<Rightarrow> do { (t1, l) \<leftarrow> cache_refresh_iterator now t;
                       Some (c\<lparr>dc_cache := Some t1, dc_lookups := dc_lookups c @ l\<rparr>) })"

section \<open>Storing a response\<close>

text \<open>
  The answer to an IPv6 question without a result is stored beside an answer for IPv4. The stored
  message always begins with the two length bytes of TCP.
\<close>

definition negative_data :: "protocol \<Rightarrow> u8 list \<Rightarrow> nat \<Rightarrow> nat \<Rightarrow> cache_data \<Rightarrow> cache_data" where
  "negative_data proto bytes type ancount d4 =
     \<lparr>cd_inserted = cd_inserted d4, cd_valid_until = cd_valid_until d4, cd_cache_until = cd_cache_until d4,
      cd_timeout = cd_timeout d4, cd_type = type, cd_answers = ancount,
      cd_data = (if proto = IPPROTO_UDP then be16 (length bytes) else []) @ bytes\<rparr>"

definition answer_data :: "int \<Rightarrow> u8 list \<Rightarrow> u8 list \<Rightarrow> response_state \<Rightarrow> cache_data" where
  "answer_data now hdr question r =
     (let ttl = max (int (rs_ttl r)) MIN_CACHE_TTL;
          cut = min ttl MAX_CACHE_TTL;
          body = hdr @ question @ 0 # be16 (rs_type r) @ be16 (rs_class r) @ take (rs_response_len r) (rs_response r)
      in \<lparr>cd_inserted = now, cd_valid_until = now + ttl, cd_cache_until = round_down_ttl (now + cut) cut,
          cd_timeout = ttl, cd_type = rs_type r, cd_answers = rs_answers r, cd_data = be16 (length body) @ body\<rparr>)"

definition add_answer :: "nat \<Rightarrow> cache_data \<Rightarrow> cache_entry \<Rightarrow> cache_entry" where
  "add_answer type d e = (if type = DNS_TYPE_A then e\<lparr>ce_ipv4 := Some d\<rparr> else e\<lparr>ce_ipv6 := Some d\<rparr>)"

text \<open>
  The end of \<open>cache_update\<close>, with the parsed response. \<open>mem\<close> says whether \<open>g_try_new\<close> gives memory.
\<close>

definition cache_store :: "int \<Rightarrow> bool \<Rightarrow> u8 list \<Rightarrow> u8 list \<Rightarrow> response_state \<Rightarrow> dns_cache \<Rightarrow> unit result \<times> dns_cache" where
  "cache_store now mem hdr question r c =
     (let d = answer_data now hdr question r in
      case cache_lookup question c of
        None \<Rightarrow>
          if \<not> mem then (Inl ENOMEM, c)
          else
            let e = add_answer (rs_type r) d \<lparr>ce_want_refresh = False, ce_hits = 0, ce_ipv4 = None, ce_ipv6 = None\<rparr> in
            (Inr (), c\<lparr>dc_cache := map_option (\<lambda>t. (question, e) # t) (dc_cache c), dc_size := dc_size c + 1\<rparr>)
      | Some e \<Rightarrow>
          if rs_type r = DNS_TYPE_A \<and> ce_ipv4 e \<noteq> None then (Inr (), c)
          else if rs_type r = DNS_TYPE_AAAA \<and> ce_ipv6 e \<noteq> None then (Inr (), c)
          else if \<not> mem then (Inl ENOMEM, c)
          else (Inr (), set_entry question (add_answer (rs_type r) d (e\<lparr>ce_hits := ce_hits e - 1\<rparr>)) c))"

text \<open>What follows the parsing of the response: the check of its result, and the case without an answer.\<close>

definition cache_store_ok :: "int \<Rightarrow> bool \<Rightarrow> protocol \<Rightarrow> u8 list \<Rightarrow> u8 list \<Rightarrow> response_state \<Rightarrow> dns_cache \<Rightarrow> (unit result \<times> dns_cache) option" where
  "cache_store_ok now mem proto msg key r c =
     (if rs_err r \<noteq> Inr () \<or> rs_ttl r = 0 then Some (Inr (), c)
      else do { hdr \<leftarrow> rd_bytes msg (protocol_offset proto) DNS_HEADER_SIZE; Some (cache_store now mem hdr key r c) })"

definition cache_insert ::
  "int \<Rightarrow> bool \<Rightarrow> protocol \<Rightarrow> u8 list \<Rightarrow> nat \<Rightarrow> u8 list \<Rightarrow> response_state \<Rightarrow> dns_cache \<Rightarrow> (unit result \<times> dns_cache) option" where
  "cache_insert now mem proto msg msg_len key r c =
     do { let offset = protocol_offset proto;
          aaaa \<leftarrow> (if rs_err r = Inl ENOMSG \<or> rs_err r = Inl ENOBUFS
                   then map_option (\<lambda>ty. ty = DNS_TYPE_AAAA) (reply_query_type msg offset (size_sub msg_len offset))
                   else Some False);
          case cache_lookup key c of
            None \<Rightarrow> cache_store_ok now mem proto msg key r c
          | Some e \<Rightarrow>
              (case (ce_ipv4 e, ce_ipv6 e) of
                 (Some d4, None) \<Rightarrow>
                   if \<not> aaaa then cache_store_ok now mem proto msg key r c
                   else if \<not> mem then Some (Inl ENOMEM, c)
                   else do { ancount \<leftarrow> rd16 msg (offset + 6);
                             bytes \<leftarrow> rd_bytes msg 0 msg_len;
                             Some (Inr (), set_entry key (e\<lparr>ce_ipv6 := Some (negative_data proto bytes (rs_type r) ancount d4),
                               ce_hits := ce_hits e - 1\<rparr>) c) }
               | _ \<Rightarrow> cache_store_ok now mem proto msg key r c) }"

definition fresh_response :: "u8 list \<Rightarrow> response_state" where
  "fresh_response response = \<lparr>rs_ptr = 0, rs_aliases = [], rs_err = Inr (), rs_type = 0, rs_class = 0, rs_ttl = 0,
     rs_response = response, rs_response_len = NS_MAXDNAME, rs_answers = 0\<rparr>"

text \<open>\<open>question\<close> and \<open>response\<close> are the stack arrays with what they hold before the call.\<close>

definition cache_update ::
  "int \<Rightarrow> bool \<Rightarrow> u8 list \<Rightarrow> u8 list \<Rightarrow> protocol \<Rightarrow> u8 list \<Rightarrow> nat \<Rightarrow> dns_cache \<Rightarrow> (unit result \<times> dns_cache) option" where
  "cache_update now mem question response proto msg msg_len c =
     (let offset = protocol_offset proto;
          c1 = (if MAX_CACHE_SIZE \<le> dc_size c then cache_cleanup now c else c) in
      if MAX_CACHE_SIZE \<le> dc_size c1 then Some (Inr (), c1)
      else do {
        c2 \<leftarrow> (if dc_next_refresh c1 < now then map_option (\<lambda>x. x\<lparr>dc_next_refresh := now + 30\<rparr>) (cache_refresh now c1) else Some c1);
        rcode \<leftarrow> hdr_rcode msg offset;
        if rcode \<noteq> 0 then Some (Inr (), c2)
        else do {
          let c3 = (if dc_cache c2 = None then create_cache c2 else c2);
          (q, r) \<leftarrow> parse_response (drop offset msg) (size_sub msg_len offset)
                      (question[NS_MAXDNAME := 0]) NS_MAXDNAME (fresh_response response);
          cache_insert now mem proto msg msg_len (bstr q) r c3 } })"

section \<open>Answering from the cache\<close>

text \<open>
  The header of a cached response as it is sent, and the message that is sent. The stored message
  is changed in place; \<open>i\<close> is the identifier of the request.
\<close>

definition response_header :: "u8 list \<Rightarrow> nat \<Rightarrow> nat \<Rightarrow> nat \<Rightarrow> u8 list option" where
  "response_header m h i answers =
     do { b2 \<leftarrow> rd m (h + 2);
          b3 \<leftarrow> rd m (h + 3);
          m1 \<leftarrow> wr_bytes m h (be16 i @ [b2 OR 0x80 OR (if answers = 0 then 0x04 else 0), b3 AND 0xF0]);
          wr_bytes m1 (h + 6) (be16 answers @ be16 0 @ be16 0) }"

definition send_cached_response :: "u8 list \<Rightarrow> protocol \<Rightarrow> nat \<Rightarrow> nat \<Rightarrow> int \<Rightarrow> (u8 list \<times> u8 list option) option" where
  "send_cached_response data proto i answers ttl =
     do { let skip = (if proto = IPPROTO_UDP then DNS_HEADER_TCP_EXTRA_BYTES else 0);
          let len = size_sub (length data) skip;
          let h = skip + protocol_offset proto;
          dns_len \<leftarrow> (if proto = IPPROTO_UDP then Some len else rd16 data skip);
          if len < DNS_HEADER_SIZE then Some (data, None)
          else do { m1 \<leftarrow> response_header data h i answers;
                    m2 \<leftarrow> (if answers = 0 then Some m1 else update_cached_ttl m1 h dns_len ttl);
                    Some (m2, Some (drop skip m2)) } }"

text \<open>
  The result of \<open>ns_try_resolv_from_cache\<close>: a hit, a miss or an error, with the message sent.
  \<open>udp_sk\<close> says whether the listener of the request has a UDP socket.
\<close>

datatype cache_answer = Cache_hit | Cache_miss | Cache_error errno

definition ns_try_resolv_from_cache ::
  "int \<Rightarrow> protocol \<Rightarrow> nat \<Rightarrow> bool \<Rightarrow> u8 list \<Rightarrow> dns_cache \<Rightarrow> (cache_answer \<times> u8 list option \<times> dns_cache) option" where
  "ns_try_resolv_from_cache now proto srcid udp_sk request c =
     do { (found, c1) \<leftarrow> cache_check now request proto c;
          case found of
            None \<Rightarrow> Some (Cache_miss, None, c1)
          | Some (key, type) \<Rightarrow>
              (case cache_lookup key c1 of
                 None \<Rightarrow> Some (Cache_miss, None, c1)
               | Some e \<Rightarrow>
                   (case (if type = DNS_TYPE_A then ce_ipv4 e else ce_ipv6 e) of
                      None \<Rightarrow> Some (Cache_miss, None, c1)
                    | Some d \<Rightarrow>
                        let e1 = e\<lparr>ce_hits := ce_hits e + 1\<rparr> in
                        if proto = IPPROTO_UDP \<and> \<not> udp_sk then Some (Cache_error EIO, None, set_entry key e1 c1)
                        else do { (data1, sent) \<leftarrow> send_cached_response (cd_data d) proto srcid (cd_answers d) (cd_valid_until d - now);
                                  Some (Cache_hit, sent,
                                    set_entry key (if type = DNS_TYPE_A then e1\<lparr>ce_ipv4 := Some (d\<lparr>cd_data := data1\<rparr>)\<rparr>
                                                   else e1\<lparr>ce_ipv6 := Some (d\<lparr>cd_data := data1\<rparr>)\<rparr>) c1) })) }"

section \<open>Size and life of the table\<close>

text \<open>
  The table exists exactly while it is referenced, the timer runs only while it exists, keys are
  distinct, and the count of entries is exact and within the limit.
\<close>

definition table_inv :: "cache_table \<Rightarrow> int \<Rightarrow> bool" where
  "table_inv t n \<longleftrightarrow> distinct (map fst t) \<and> n = int (length t) \<and> n \<le> MAX_CACHE_SIZE"

definition cache_inv :: "dns_cache \<Rightarrow> bool" where
  "cache_inv c \<longleftrightarrow> 0 \<le> dc_refcount c \<and> (dc_cache c = None \<longleftrightarrow> dc_refcount c = 0) \<and> (dc_timer c \<longrightarrow> dc_cache c \<noteq> None) \<and>
     (case dc_cache c of None \<Rightarrow> dc_size c = 0 | Some t \<Rightarrow> table_inv t (dc_size c))"

lemma cache_inv_init: "cache_inv dns_cache_init"
  by (simp add: cache_inv_def dns_cache_init_def)

lemma fst_set_entry [simp]: "fst \<circ> (\<lambda>(k', e'). if k' = k then (k', e) else (k', e')) = fst"
  by (auto simp: fun_eq_iff)

lemma set_entry_inv: "cache_inv c \<Longrightarrow> cache_inv (set_entry k e c)"
  by (auto simp: cache_inv_def set_entry_def table_inv_def split: option.splits)

lemma set_entry_fields [simp]:
  "dc_size (set_entry k e c) = dc_size c" "dc_refcount (set_entry k e c) = dc_refcount c" "dc_timer (set_entry k e c) = dc_timer c"
  "dc_cache (set_entry k e c) = None \<longleftrightarrow> dc_cache c = None"
  by (simp_all add: set_entry_def)

lemma cache_lookup_set_entry:
  "cache_lookup k' (set_entry k e c) = (if k' = k \<and> cache_lookup k c \<noteq> None then Some e else cache_lookup k' c)"
proof (cases "dc_cache c")
  case (Some t)
  have "map_of (map (\<lambda>(k', e'). if k' = k then (k', e) else (k', e')) t) k' =
      (if k' = k \<and> map_of t k \<noteq> None then Some e else map_of t k')"
    by (induction t) auto
  with Some show ?thesis by (simp add: cache_lookup_def set_entry_def)
qed (simp add: cache_lookup_def set_entry_def)

lemma length_filter_key: "distinct (map fst t) \<Longrightarrow> map_of t k = Some e \<Longrightarrow> length (filter (\<lambda>(k', e). k' = k) t) = 1"
proof (induction t)
  case (Cons x t)
  then show ?case by (cases x) (auto simp: filter_empty_conv image_iff split: if_splits)
qed simp

lemma hash_table_remove_inv:
  assumes "cache_inv c"
  shows "cache_inv (hash_table_remove k c)"
proof (cases "cache_lookup k c")
  case None
  with assms show ?thesis by (simp add: hash_table_remove_def)
next
  case (Some e)
  then obtain t where t: "dc_cache c = Some t" "map_of t k = Some e" by (auto simp: cache_lookup_def split: option.splits)
  with assms have inv: "table_inv t (dc_size c)" by (simp add: cache_inv_def)
  have "length t = length (filter (\<lambda>(k', e). k' \<noteq> k) t) + length (filter (\<lambda>(k', e). k' = k) t)"
    using sum_length_filter_compl [of "\<lambda>(k', e). k' \<noteq> k" t] by (simp add: case_prod_unfold)
  moreover have "length (filter (\<lambda>(k', e). k' = k) t) = 1"
    using inv t(2) by (simp add: table_inv_def length_filter_key)
  moreover have "distinct (map fst (filter (\<lambda>(k', e). k' \<noteq> k) t))"
    using inv unfolding table_inv_def by (simp add: distinct_map_filter)
  ultimately have "table_inv (filter (\<lambda>(k', e). k' \<noteq> k) t) (dc_size c - 1)" "\<not> dc_size c - 1 < 0"
    using inv by (auto simp: table_inv_def)
  then show ?thesis
    using assms t Some by (simp add: hash_table_remove_def cache_element_destroy_def cache_inv_def)
qed

lemma cache_check_validity_inv:
  "cache_inv c \<Longrightarrow> cache_check_validity now q ty e c = (b, c1) \<Longrightarrow> cache_inv c1"
  by (auto simp: cache_check_validity_def Let_def set_entry_inv hash_table_remove_inv split: if_splits)

lemma create_cache_inv: "cache_inv c \<Longrightarrow> cache_inv (create_cache c)"
  by (auto simp: cache_inv_def create_cache_def Let_def table_inv_def split: option.splits)

lemma start_cache_timer_inv: "cache_inv c \<Longrightarrow> cache_inv (start_cache_timer c)"
  by (cases "dc_cache c") (simp_all add: cache_inv_def start_cache_timer_def)

lemma try_remove_cache_inv: "cache_inv c \<Longrightarrow> dc_timer c \<Longrightarrow> cache_inv (try_remove_cache c)"
  by (auto simp: cache_inv_def try_remove_cache_def Let_def split: option.splits)

lemma cache_check_inv:
  assumes "cache_inv c" "cache_check now request proto c = Some (r, c1)"
  shows "cache_inv c1"
  using assms
  by (auto simp: cache_check_def bind_eq_Some_conv Let_def create_cache_inv cache_check_validity_inv
      split: if_splits option.splits prod.splits)

lemma foreach_remove_length:
  "foreach_remove f d t = (t1, d1, n) \<Longrightarrow> length t1 + n = length t \<and> set (map fst t1) \<subseteq> set (map fst t) \<and>
     (distinct (map fst t) \<longrightarrow> distinct (map fst t1))"
proof (induction f d t arbitrary: t1 d1 n rule: foreach_remove.induct)
  case (2 f d k e t)
  obtain del e1 d2 where f: "f d e = (del, e1, d2)" by (cases "f d e")
  obtain t2 d3 n2 where r: "foreach_remove f d2 t = (t2, d3, n2)" by (cases "foreach_remove f d2 t")
  have ih: "length t2 + n2 = length t" "fst ` set t2 \<subseteq> fst ` set t" "distinct (map fst t) \<Longrightarrow> distinct (map fst t2)"
    using "2.IH" [OF f [symmetric] refl r] by auto
  have "t1 = (if del then t2 else (k, e1) # t2)" "n = (if del then n2 + 1 else n2)" using "2.prems" f r by (auto split: if_splits)
  with ih show ?case by (cases del) (simp_all, blast+)
qed simp

lemma destroy_elements_fields:
  "int n \<le> dc_size c \<Longrightarrow> destroy_elements n c = c\<lparr>dc_size := dc_size c - int n\<rparr>"
  by (induction n arbitrary: c) (simp_all add: destroy_elements_def cache_element_destroy_def)

lemma foreach_remove_inv:
  assumes "cache_inv c" "dc_cache c = Some t" "foreach_remove f d t = (t1, d1, n)"
  shows "cache_inv (destroy_elements n (c\<lparr>dc_cache := Some t1\<rparr>))"
    "dc_size (destroy_elements n (c\<lparr>dc_cache := Some t1\<rparr>)) = dc_size c - int n"
  using assms foreach_remove_length [OF assms(3)] by (auto simp: destroy_elements_fields cache_inv_def table_inv_def)

lemma cache_pass_inv: "cache_inv c \<Longrightarrow> cache_pass now h m c = (c1, m1, n) \<Longrightarrow> cache_inv c1"
  by (auto simp: cache_pass_def foreach_remove_inv split: option.splits prod.splits)

lemma dc_max_timeout_inv [simp]: "cache_inv (c\<lparr>dc_max_timeout := m\<rparr>) = cache_inv c"
  and dc_next_refresh_inv [simp]: "cache_inv (c\<lparr>dc_next_refresh := m\<rparr>) = cache_inv c"
  and dc_lookups_inv [simp]: "cache_inv (c\<lparr>dc_lookups := l\<rparr>) = cache_inv c"
  by (cases "dc_cache c"; simp add: cache_inv_def)+

lemma cache_cleanup_inv: "cache_inv c \<Longrightarrow> cache_inv (cache_cleanup now c)"
  by (auto simp: cache_cleanup_def split: prod.split dest: cache_pass_inv)

lemma cache_invalidate_inv: "cache_inv c \<Longrightarrow> cache_inv (cache_invalidate now c)"
  by (auto simp: cache_invalidate_def foreach_remove_inv split: option.splits prod.splits)

lemma cache_refresh_iterator_keys: "cache_refresh_iterator now t = Some (t1, l) \<Longrightarrow> map fst t1 = map fst t"
  by (induction now t arbitrary: t1 l rule: cache_refresh_iterator.induct) (auto simp: bind_eq_Some_conv)

lemma cache_refresh_inv: "cache_inv c \<Longrightarrow> cache_refresh now c = Some c1 \<Longrightarrow> cache_inv c1 \<and> dc_size c1 = dc_size c"
  by (auto simp: cache_refresh_def cache_inv_def table_inv_def bind_eq_Some_conv split: option.splits
      dest!: cache_refresh_iterator_keys dest: map_eq_imp_length_eq)

lemma cache_store_inv:
  assumes "cache_inv c" "dc_cache c \<noteq> None" "dc_size c < MAX_CACHE_SIZE"
  shows "cache_inv (snd (cache_store now mem hdr q r c))"
proof (cases "cache_lookup q c")
  case None
  then obtain t where "dc_cache c = Some t" "map_of t q = None" using assms(2) by (auto simp: cache_lookup_def)
  then show ?thesis
    using assms None by (auto simp: cache_store_def Let_def cache_inv_def table_inv_def map_of_eq_None_iff)
next
  case (Some e)
  with assms(1) show ?thesis by (simp add: cache_store_def Let_def set_entry_inv)
qed

lemma cache_insert_inv:
  assumes "cache_inv c" "dc_cache c \<noteq> None" "dc_size c < MAX_CACHE_SIZE" "cache_insert now mem proto msg msg_len key r c = Some (res, c')"
  shows "cache_inv c'"
proof -
  have st: "cache_inv b" if "cache_store_ok now mem proto msg key r c = Some (a, b)" for a b
    using that cache_store_inv [OF assms(1-3), of now mem _ key r] assms(1)
    by (auto simp: cache_store_ok_def bind_eq_Some_conv split: if_splits) (metis snd_conv)
  obtain aaaa where a: "(if rs_err r = Inl ENOMSG \<or> rs_err r = Inl ENOBUFS
      then map_option (\<lambda>ty. ty = DNS_TYPE_AAAA) (reply_query_type msg (protocol_offset proto) (size_sub msg_len (protocol_offset proto)))
      else Some False) = Some aaaa"
    using assms(4) unfolding cache_insert_def Let_def by (auto simp only: bind_eq_Some_conv)
  note run = assms(4) [unfolded cache_insert_def Let_def a bind.bind_lunit]
  show ?thesis
  proof (cases "cache_lookup key c")
    case None
    with run st show ?thesis by simp
  next
    case (Some e)
    with run st assms(1) show ?thesis
      by (cases "ce_ipv4 e"; cases "ce_ipv6 e"; cases aaaa; cases mem) (auto simp: bind_eq_Some_conv set_entry_inv)
  qed
qed

lemma cache_update_inv:
  assumes "cache_inv c" "cache_update now mem question response proto msg msg_len c = Some (res, c')"
  shows "cache_inv c'"
proof -
  define c1 where "c1 = (if MAX_CACHE_SIZE \<le> dc_size c then cache_cleanup now c else c)"
  have i1: "cache_inv c1" using assms(1) by (simp add: c1_def cache_cleanup_inv)
  note def = cache_update_def Let_def c1_def [symmetric]
  show ?thesis
  proof (cases "MAX_CACHE_SIZE \<le> dc_size c1")
    case True
    then have "c' = c1" using assms(2) unfolding def by simp
    with i1 show ?thesis by simp
  next
    case False
    from assms(2) False obtain c2 rcode where
      c2: "(if dc_next_refresh c1 < now then map_option (\<lambda>x. x\<lparr>dc_next_refresh := now + 30\<rparr>) (cache_refresh now c1) else Some c1) = Some c2"
      and rc: "hdr_rcode msg (protocol_offset proto) = Some rcode"
      unfolding def by (auto simp: bind_eq_Some_conv)
    have i2: "cache_inv c2" "dc_size c2 = dc_size c1"
      using c2 i1 cache_refresh_inv [OF i1, of now] by (auto split: if_splits)
    define c3 where "c3 = (if dc_cache c2 = None then create_cache c2 else c2)"
    have i3: "cache_inv c3" "dc_cache c3 \<noteq> None" "dc_size c3 < MAX_CACHE_SIZE"
      using i2 False by (auto simp: c3_def create_cache_inv) (auto simp: create_cache_def Let_def cache_inv_def)
    show ?thesis
    proof (cases "rcode = 0")
      case rc0: False
      then have "c' = c2" using assms(2) False c2 rc unfolding def by simp
      with i2 show ?thesis by simp
    next
      case True
      show ?thesis
        using assms(2) False c2 rc True unfolding def
        by (simp add: c3_def [symmetric]) (auto simp: bind_eq_Some_conv dest: cache_insert_inv [OF i3])
    qed
  qed
qed

lemma ns_try_resolv_from_cache_inv:
  assumes "cache_inv c" "ns_try_resolv_from_cache now proto srcid udp request c = Some (a, sent, c')"
  shows "cache_inv c'"
proof -
  obtain found c1 where f: "cache_check now request proto c = Some (found, c1)"
    using assms(2) by (auto simp: ns_try_resolv_from_cache_def bind_eq_Some_conv)
  show ?thesis
    using assms(2) f cache_check_inv [OF assms(1) f]
    by (auto simp: ns_try_resolv_from_cache_def bind_eq_Some_conv Let_def set_entry_inv split: option.splits if_splits)
qed

text \<open>All states the cache gets into, by any sequence of its operations.\<close>

inductive cache_reach :: "dns_cache \<Rightarrow> bool" where
  reach_init: "cache_reach dns_cache_init"
| reach_create: "cache_reach c \<Longrightarrow> cache_reach (create_cache c)"
| reach_start: "cache_reach c \<Longrightarrow> cache_reach (start_cache_timer c)"
| reach_timer: "cache_reach c \<Longrightarrow> dc_timer c \<Longrightarrow> cache_reach (try_remove_cache c)"
| reach_invalidate: "cache_reach c \<Longrightarrow> cache_reach (cache_invalidate now c)"
| reach_refresh: "cache_reach c \<Longrightarrow> cache_refresh now c = Some c' \<Longrightarrow> cache_reach c'"
| reach_check: "cache_reach c \<Longrightarrow> cache_check now request proto c = Some (r, c') \<Longrightarrow> cache_reach c'"
| reach_resolv: "cache_reach c \<Longrightarrow> ns_try_resolv_from_cache now proto srcid udp request c = Some (a, sent, c') \<Longrightarrow> cache_reach c'"
| reach_update: "cache_reach c \<Longrightarrow> cache_update now mem question response proto msg len c = Some (res, c') \<Longrightarrow> cache_reach c'"

lemma cache_reach_inv: "cache_reach c \<Longrightarrow> cache_inv c"
proof (induction rule: cache_reach.induct)
  case (reach_refresh c now c')
  then show ?case using cache_refresh_inv by blast
qed (auto simp: cache_inv_init create_cache_inv start_cache_timer_inv try_remove_cache_inv cache_invalidate_inv
    intro: cache_check_inv ns_try_resolv_from_cache_inv cache_update_inv)

section \<open>Answers from the cache\<close>

lemma response_header_sent:
  assumes "answers < 65536"
  shows "response_header (pre @ dns_header i b2 b3 qd an ns ar @ r) (length pre) j answers =
    Some (pre @ dns_header j (b2 OR 0x80 OR (if answers = 0 then 0x04 else 0)) (b3 AND 0xF0) qd answers 0 0 @ r)"
proof -
  define m where "m = pre @ dns_header i b2 b3 qd an ns ar @ r"
  define x where "x = [b2 OR 0x80 OR (if answers = 0 then 0x04 else 0), b3 AND 0xF0]"
  have b: "rd m (length pre + 2) = Some b2" "rd m (length pre + 3) = Some b3"
    by (simp_all add: m_def rd_def dns_header_def nth_append)
  have m: "m = pre @ (be16 i @ [b2, b3]) @ be16 qd @ (be16 an @ be16 ns @ be16 ar) @ r" by (simp add: m_def dns_header_def)
  have w1: "wr_bytes m (length pre) (be16 j @ x) = Some (pre @ (be16 j @ x) @ be16 qd @ (be16 an @ be16 ns @ be16 ar) @ r)"
    unfolding m by (simp add: wr_bytes_def x_def)
  have "wr_bytes (pre @ (be16 j @ x) @ be16 qd @ (be16 an @ be16 ns @ be16 ar) @ r) (length pre + 6) (be16 answers @ be16 0 @ be16 0) =
      Some (pre @ (be16 j @ x) @ be16 qd @ (be16 answers @ be16 0 @ be16 0) @ r)"
    by (simp add: wr_bytes_def x_def)
  with b w1 show ?thesis
    unfolding response_header_def m_def [symmetric] x_def [symmetric] by (simp add: dns_header_def x_def)
qed

text \<open>The cached message: length, header, question and records.\<close>

definition cached_message :: "u8 list \<Rightarrow> u8 list" where
  "cached_message body = be16 (length body) @ body"

lemma length_response_set_ttl:
  "length (response_body ls ty cl (map (set_ttl n) rrs)) = length (response_body ls ty cl rrs)"
  by (simp add: response_body_def rrs_wire_def comp_def length_concat owner_def length_rr_wire set_ttl_def)

lemma send_cached_response_plain:
  assumes "body = dns_header i b2 b3 1 an ns ar @ response_body ls ty cl rrs" "length body < 65536" "list_all label_ok ls"
    "list_all (\<lambda>r. length (r_data r) < 65536) rrs" "0 \<le> ttl" "answers < 65536" "answers \<noteq> 0"
    "sent = dns_header j (b2 OR 0x80) (b3 AND 0xF0) 1 answers 0 0 @ response_body ls ty cl (map (set_ttl (nat ttl)) rrs)"
  shows "send_cached_response (cached_message body) proto j answers ttl =
    Some (cached_message sent, Some (if proto = IPPROTO_UDP then sent else cached_message sent))"
proof -
  define pre where "pre = be16 (length body)"
  have lp: "length pre = 2" and m: "cached_message body = pre @ body" by (simp_all add: pre_def cached_message_def)
  have "response_header (pre @ body) 2 j answers =
      Some (pre @ dns_header j (b2 OR 0x80 OR (if answers = 0 then 0x04 else 0)) (b3 AND 0xF0) 1 answers 0 0 @ response_body ls ty cl rrs)"
    unfolding assms(1) lp [symmetric] by (rule response_header_sent [OF assms(6)])
  then have h: "response_header (pre @ body) 2 j answers =
      Some (pre @ dns_header j (b2 OR 0x80) (b3 AND 0xF0) 1 answers 0 0 @ response_body ls ty cl rrs)"
    using assms(7) by simp
  have lb: "length body = 12 + length (response_body ls ty cl rrs)" by (simp add: assms(1))
  have "update_cached_ttl (pre @ dns_header j (b2 OR 0x80) (b3 AND 0xF0) 1 answers 0 0 @ response_body ls ty cl rrs) (length pre)
      (12 + length (response_body ls ty cl rrs)) ttl = Some (pre @ sent)"
    unfolding assms(8) by (rule update_cached_ttl_response [OF assms(3,4) _ assms(5)]) simp
  then have u: "update_cached_ttl (pre @ dns_header j (b2 OR 0x80) (b3 AND 0xF0) 1 answers 0 0 @ response_body ls ty cl rrs) 2
      (length body) ttl = Some (pre @ sent)" by (simp add: lp lb)
  have ls: "length sent = length body"
    unfolding assms(8) lb by (simp add: length_response_set_ttl)
  then have ms: "cached_message sent = pre @ sent" by (simp add: cached_message_def pre_def)
  have len: "size_sub (length (pre @ body)) 2 = length body" "size_sub (length (pre @ body)) 0 = length (pre @ body)"
    using assms(2) lp by (simp_all add: size_sub_le)
  have "rd16 (pre @ body) 0 = Some (length body)" unfolding pre_def by (rule rd16_at [OF _ assms(2)]) simp
  then show ?thesis
    using h u len lb lp assms(7)
    by (cases proto) (simp_all add: send_cached_response_def Let_def m ms protocol_offset_def numeral_2_eq_2)
qed

text \<open>How long an answer is kept and how long it is valid.\<close>

definition answer_ttl :: "dns_rr list \<Rightarrow> int" where
  "answer_ttl rrs = max (int (r_ttl (last rrs))) MIN_CACHE_TTL"

definition keep_until :: "int \<Rightarrow> dns_rr list \<Rightarrow> int" where
  "keep_until now rrs = (let cut = min (answer_ttl rrs) MAX_CACHE_TTL in round_down_ttl (now + cut) cut)"

lemma keep_until_le: "0 \<le> now \<Longrightarrow> keep_until now rrs \<le> now + answer_ttl rrs"
proof -
  assume n: "0 \<le> now"
  define cut where "cut = min (answer_ttl rrs) MAX_CACHE_TTL"
  have cut: "30 \<le> cut" "cut \<le> answer_ttl rrs" by (simp_all add: cut_def answer_ttl_def)
  have "x div k * k \<le> x" if "0 \<le> x" "0 < k" for x k :: int using that by (metis div_mult_mod_eq le_add_same_cancel1 pos_mod_sign)
  then have "round_down_ttl (now + cut) cut \<le> now + cut" using n cut by (simp add: round_down_ttl_def c_div_def)
  then show ?thesis using cut by (simp add: keep_until_def Let_def cut_def [symmetric])
qed

text \<open>
  A response with one question, some answers to it and perhaps other records (no \<open>CNAME\<close>), all owned
  by the name of the question.
\<close>

record plain_response =
  pr_id :: nat
  pr_flags :: "u8 \<times> u8"
  pr_nscount :: nat
  pr_arcount :: nat
  pr_labels :: "u8 list list"
  pr_qtype :: nat
  pr_qclass :: nat
  pr_rrs :: "dns_rr list"

definition pr_answers :: "plain_response \<Rightarrow> dns_rr list" where
  "pr_answers p = of_type (pr_qtype p) (pr_rrs p)"

definition pr_key :: "plain_response \<Rightarrow> u8 list" where
  "pr_key p = name_wire (pr_labels p)"

definition pr_message :: "plain_response \<Rightarrow> u8 list" where
  "pr_message p = dns_header (pr_id p) (fst (pr_flags p)) (snd (pr_flags p)) 1 (length (pr_rrs p)) (pr_nscount p) (pr_arcount p)
     @ response_body (pr_labels p) (pr_qtype p) (pr_qclass p) (pr_rrs p)"

definition pr_ok :: "plain_response \<Rightarrow> bool" where
  "pr_ok p \<longleftrightarrow> bit (fst (pr_flags p)) 7 \<and> unat (snd (pr_flags p) AND 0x0F) = 0 \<and> pr_nscount p < 65536 \<and> pr_arcount p < 65536 \<and>
     list_all label_ok (pr_labels p) \<and> pr_labels p \<noteq> [] \<and> length (pr_key p) < NS_MAXDNAME \<and>
     (pr_qtype p = DNS_TYPE_A \<or> pr_qtype p = DNS_TYPE_AAAA) \<and> pr_qclass p < 65536 \<and>
     list_all (rr_any (pr_qclass p)) (pr_rrs p) \<and> length (pr_rrs p) < 65536 \<and> pr_answers p \<noteq> [] \<and>
     length (rrs_wire (pr_answers p)) \<le> NS_MAXDNAME \<and> r_ttl (last (pr_rrs p)) \<noteq> 0 \<and> length (pr_message p) < 65536"

definition pr_cached :: "int \<Rightarrow> plain_response \<Rightarrow> cache_data" where
  "pr_cached now p = \<lparr>cd_inserted = now, cd_valid_until = now + answer_ttl (pr_rrs p), cd_cache_until = keep_until now (pr_rrs p),
     cd_timeout = answer_ttl (pr_rrs p), cd_type = r_type (last (pr_rrs p)), cd_answers = length (pr_answers p),
     cd_data = cached_message (dns_header (pr_id p) (fst (pr_flags p)) (snd (pr_flags p)) 1 (length (pr_rrs p)) (pr_nscount p) (pr_arcount p)
       @ response_body (pr_labels p) (r_type (last (pr_rrs p))) (pr_qclass p) (pr_answers p))\<rparr>"

lemma cache_update_plain:
  assumes "pr_ok p" "cache_inv c" "dc_size c < MAX_CACHE_SIZE" "now \<le> dc_next_refresh c" "cache_lookup (pr_key p) c = None"
    "length pre = protocol_offset proto" "length question = NS_MAXDNAME + 1" "length response = NS_MAXDNAME + 1"
  shows "\<exists>c'. cache_update now True question response proto (pre @ pr_message p @ pad) (length (pre @ pr_message p)) c = Some (Inr (), c') \<and>
    dc_cache c' \<noteq> None \<and>
    cache_lookup (pr_key p) c' = Some (add_answer (r_type (last (pr_rrs p))) (pr_cached now p)
      \<lparr>ce_want_refresh = False, ce_hits = 0, ce_ipv4 = None, ce_ipv6 = None\<rparr>)"
proof -
  define msg where "msg = pre @ pr_message p @ pad"
  define off where "off = protocol_offset proto"
  define c3 where "c3 = (if dc_cache c = None then create_cache c else c)"
  define hdr where "hdr = dns_header (pr_id p) (fst (pr_flags p)) (snd (pr_flags p)) 1 (length (pr_rrs p)) (pr_nscount p) (pr_arcount p)"
  have off: "length pre = off" "off \<le> 2" using assms(6) by (auto simp: off_def protocol_offset_def split: protocol.splits)
  have ok: "bit (fst (pr_flags p)) 7" "unat (snd (pr_flags p) AND 0x0F) = 0" "pr_nscount p < 65536" "pr_arcount p < 65536"
    "list_all label_ok (pr_labels p)" "pr_labels p \<noteq> []" "length (name_wire (pr_labels p)) < NS_MAXDNAME" "pr_qtype p = DNS_TYPE_A \<or> pr_qtype p = DNS_TYPE_AAAA"
    "pr_qclass p < 65536" "of_type (pr_qtype p) (pr_rrs p) \<noteq> []" "list_all (rr_any (pr_qclass p)) (pr_rrs p)" "length (pr_rrs p) < 65536"
    "length (rrs_wire (of_type (pr_qtype p) (pr_rrs p))) \<le> NS_MAXDNAME" "r_ttl (last (pr_rrs p)) \<noteq> 0"
    using assms(1) by (simp_all add: pr_ok_def pr_key_def pr_answers_def)
  have body: "pr_message p @ pad = hdr @ response_body (pr_labels p) (pr_qtype p) (pr_qclass p) (pr_rrs p) @ pad"
    and len: "length (pr_message p) = 12 + length (response_body (pr_labels p) (pr_qtype p) (pr_qclass p) (pr_rrs p))"
    by (simp_all add: pr_message_def hdr_def)
  have rc: "hdr_rcode msg off = Some 0"
  proof -
    have "hdr_rcode msg off = hdr_rcode (pr_message p @ pad) 0"
      unfolding msg_def off(1) [symmetric] by (simp add: hdr_rcode_def rd_def nth_append)
    then show ?thesis unfolding body hdr_def using dns_header_fields(6) ok(2-4,12) by simp
  qed
  have q: "length (question[NS_MAXDNAME := 0]) = NS_MAXDNAME + 1" "last (question[NS_MAXDNAME := 0]) = 0"
    using assms(7) by (simp_all add: last_conv_nth flip: length_greater_0_conv)
  obtain qq r where r: "parse_response (pr_message p @ pad) (length (pr_message p)) (question[NS_MAXDNAME := 0]) NS_MAXDNAME (fresh_response response) = Some (qq, r)"
    "bstr qq = pr_key p" "rs_response_len r = length (rrs_wire (pr_answers p))" "take (rs_response_len r) (rs_response r) = rrs_wire (pr_answers p)"
    "rs_answers r = length (pr_answers p)" "rs_err r = Inr ()" "rs_type r = r_type (last (pr_rrs p))" "rs_class r = pr_qclass p" "rs_ttl r = r_ttl (last (pr_rrs p))"
    using parse_response_plain [OF body [unfolded hdr_def] len ok(1,5-12) q ok(3,4), of "fresh_response response"] ok(13) assms(8)
    by (auto simp: fresh_response_def pr_key_def pr_answers_def)
  have look: "cache_lookup (pr_key p) c3 = None" "dc_cache c3 \<noteq> None"
    using assms(2,5) by (auto simp: c3_def create_cache_def Let_def cache_inv_def cache_lookup_def split: option.splits)
  have hd: "rd_bytes msg off 12 = Some hdr"
    unfolding msg_def off(1) [symmetric] pr_message_def hdr_def by (simp add: rd_bytes_def)
  have sz: "size_sub (length (pre @ pr_message p)) off = length (pr_message p)" "drop off msg = pr_message p @ pad"
    using off assms(1) by (simp_all add: size_sub_le pr_ok_def msg_def)
  have "answer_data now hdr (pr_key p) r = pr_cached now p"
    using r by (simp add: answer_data_def pr_cached_def Let_def answer_ttl_def keep_until_def cached_message_def hdr_def response_body_def pr_key_def)
  moreover have "cache_update now True question response proto msg (length (pre @ pr_message p)) c = Some (cache_store now True hdr (pr_key p) r c3)"
    using assms(3,4) rc r(1,2,6,9) look(1) hd sz ok(14)
    by (simp add: cache_update_def Let_def c3_def [symmetric] off_def [symmetric] cache_insert_def cache_store_ok_def)
  ultimately show ?thesis
    using look r(7) unfolding msg_def by (auto simp: cache_store_def cache_lookup_def)
qed

text \<open>A request for the name of a response.\<close>

definition request_for :: "u8 list \<Rightarrow> plain_response \<Rightarrow> nat \<Rightarrow> u8 list \<Rightarrow> u8 list" where
  "request_for hdr p ty rest = hdr @ pr_key p @ 0 # be16 ty @ rest"

text \<open>The message that answers it from the cache.\<close>

definition pr_sent :: "plain_response \<Rightarrow> nat \<Rightarrow> int \<Rightarrow> u8 list" where
  "pr_sent p srcid ttl =
     dns_header srcid (fst (pr_flags p) OR 0x80) (snd (pr_flags p) AND 0xF0) 1 (length (pr_answers p)) 0 0
     @ response_body (pr_labels p) (r_type (last (pr_rrs p))) (pr_qclass p) (map (set_ttl (nat ttl)) (pr_answers p))"

lemma cache_check_hit:
  assumes "list_all label_ok (pr_labels p)" "length hdr = protocol_offset proto + 12" "ty = DNS_TYPE_A \<or> ty = DNS_TYPE_AAAA"
    "cache_lookup (pr_key p) c = Some (add_answer ty d \<lparr>ce_want_refresh = False, ce_hits = 0, ce_ipv4 = None, ce_ipv6 = None\<rparr>)"
    "now \<le> cd_cache_until d"
  shows "\<exists>c1. cache_check now (request_for hdr p ty rest) proto c = Some (Some (pr_key p, ty), c1) \<and>
    cache_lookup (pr_key p) c1 = cache_lookup (pr_key p) c"
proof -
  define e where "e = add_answer ty d \<lparr>ce_want_refresh = False, ce_hits = 0, ce_ipv4 = None, ce_ipv6 = None\<rparr>"
  define req where "req = request_for hdr p ty rest"
  define o1 where "o1 = protocol_offset proto + 12"
  have d: "drop o1 req = pr_key p @ 0 # be16 ty @ rest" using assms(2) by (simp add: req_def request_for_def o1_def)
  have b: "bstr (drop o1 req) = pr_key p" using bstr_name [OF assms(1)] d by (simp add: pr_key_def)
  have sl: "c_strlen req o1 = Some (length (pr_key p))"
    unfolding c_strlen_def b using assms(2) by (simp add: req_def request_for_def o1_def)
  have dt: "drop (o1 + length (pr_key p) + 1) req = be16 ty @ rest"
    using drop_append_drop [of o1 req "pr_key p @ [0]"] d by simp
  have ty: "rd16 req (o1 + length (pr_key p) + 1) = Some ty" using rd16_at [OF dt] assms(3) by auto
  have v: "cache_enforce_validity now e = e"
    using assms(3,5) by (auto simp: cache_enforce_validity_def e_def add_answer_def cache_check_is_valid_def Let_def)
  have cv: "cache_check_validity now (pr_key p) ty e c = (True, set_entry (pr_key p) e c)"
    using assms(3,5) by (auto simp: cache_check_validity_def v Let_def) (auto simp: e_def add_answer_def cache_check_is_valid_def)
  have "dc_cache c \<noteq> None" using assms(4) by (auto simp: cache_lookup_def split: option.splits)
  then have "cache_check now req proto c = Some (Some (pr_key p, ty), set_entry (pr_key p) e c)"
    using assms(3,4) sl ty b cv by (auto simp: cache_check_def Let_def o1_def [symmetric] e_def [symmetric])
  then show ?thesis unfolding req_def by (simp add: cache_lookup_set_entry assms(4) e_def)
qed

text \<open>Every response of the kind is served to the next request of the family it is stored under.\<close>

lemma stored_answer_served:
  assumes "pr_ok p" "cache_lookup (pr_key p) c = Some (add_answer ty (pr_cached now p)
      \<lparr>ce_want_refresh = False, ce_hits = 0, ce_ipv4 = None, ce_ipv6 = None\<rparr>)"
    "ty = DNS_TYPE_A \<or> ty = DNS_TYPE_AAAA" "0 \<le> now" "later \<le> keep_until now (pr_rrs p)" "length hdr = protocol_offset proto + 12"
  shows "\<exists>c'. ns_try_resolv_from_cache later proto srcid True (request_for hdr p ty rest) c =
    Some (Cache_hit, Some (if proto = IPPROTO_UDP then pr_sent p srcid (now + answer_ttl (pr_rrs p) - later)
      else cached_message (pr_sent p srcid (now + answer_ttl (pr_rrs p) - later))), c')"
proof -
  define ttl where "ttl = now + answer_ttl (pr_rrs p) - later"
  define e where "e = add_answer ty (pr_cached now p) \<lparr>ce_want_refresh = False, ce_hits = 0, ce_ipv4 = None, ce_ipv6 = None\<rparr>"
  have ok: "list_all label_ok (pr_labels p)" "pr_answers p \<noteq> []" "length (pr_answers p) < 65536" "0 \<le> ttl"
    "list_all (\<lambda>r. length (r_data r) < 65536) (pr_answers p)"
    using assms(1,5) keep_until_le [OF assms(4), of "pr_rrs p"]
    by (auto simp: pr_ok_def ttl_def pr_answers_def of_type_def list_all_iff rr_any_def rr_plain_def
        intro: le_less_trans [OF length_filter_le])
  have lb: "length (dns_header (pr_id p) (fst (pr_flags p)) (snd (pr_flags p)) 1 (length (pr_rrs p)) (pr_nscount p) (pr_arcount p)
       @ response_body (pr_labels p) (r_type (last (pr_rrs p))) (pr_qclass p) (pr_answers p)) < 65536"
    using assms(1) by (simp add: pr_ok_def response_body_def pr_key_def)
  obtain c1 where c1: "cache_check later (request_for hdr p ty rest) proto c = Some (Some (pr_key p, ty), c1)" "cache_lookup (pr_key p) c1 = Some e"
    using cache_check_hit [OF ok(1) assms(6,3,2)] assms(5) by (auto simp: pr_cached_def e_def assms(2))
  have slot: "(if ty = DNS_TYPE_A then ce_ipv4 e else ce_ipv6 e) = Some (pr_cached now p)" by (simp add: e_def add_answer_def)
  have "cd_valid_until (pr_cached now p) - later = ttl" by (simp add: pr_cached_def ttl_def)
  moreover have "send_cached_response (cd_data (pr_cached now p)) proto srcid (cd_answers (pr_cached now p)) ttl =
      Some (cached_message (pr_sent p srcid ttl), Some (if proto = IPPROTO_UDP then pr_sent p srcid ttl else cached_message (pr_sent p srcid ttl)))"
    unfolding pr_cached_def cache_data.simps
    by (rule send_cached_response_plain [OF refl lb ok(1,5,4,3)]) (use ok(2) in \<open>simp_all add: pr_sent_def\<close>)
  ultimately show ?thesis
    using c1 slot by (simp add: ns_try_resolv_from_cache_def ttl_def [symmetric] Let_def)
qed

text \<open>Only data whose time is not over is served.\<close>

lemma cache_enforce_validity_slots:
  "ce_ipv4 (cache_enforce_validity now e) = (if cache_check_is_valid (ce_ipv4 e) now then ce_ipv4 e else None)"
  "ce_ipv6 (cache_enforce_validity now e) = (if cache_check_is_valid (ce_ipv6 e) now then ce_ipv6 e else None)"
  by (auto simp: cache_enforce_validity_def cache_free_ipv4_def cache_free_ipv6_def cache_check_is_valid_def Let_def split: option.splits)

lemma cache_check_fresh:
  assumes "cache_check now req proto c = Some (Some (key, ty), c1)"
  shows "\<exists>e e1. cache_lookup key c = Some e \<and> cache_lookup key c1 = Some e1 \<and>
    ce_ipv4 e1 = ce_ipv4 (cache_enforce_validity now e) \<and> ce_ipv6 e1 = ce_ipv6 (cache_enforce_validity now e)"
proof -
  from assms obtain e where e: "cache_lookup key c = Some e" "cache_check_validity now key ty e c = (True, c1)"
    by (auto simp: cache_check_def bind_eq_Some_conv Let_def split: if_splits option.splits prod.splits)
  from e(2) consider "c1 = set_entry key (cache_enforce_validity now e) c"
    | "c1 = set_entry key ((cache_enforce_validity now e)\<lparr>ce_want_refresh := True\<rparr>) (set_entry key (cache_enforce_validity now e) c)"
    by (auto simp: cache_check_validity_def Let_def split: if_splits)
  then show ?thesis by cases (simp_all add: e(1) cache_lookup_set_entry)
qed

lemma served_data_fresh:
  assumes "ns_try_resolv_from_cache now proto srcid udp req c = Some (Cache_hit, sent, c')"
  shows "\<exists>key e d data1. cache_lookup key c = Some e \<and> (ce_ipv4 e = Some d \<or> ce_ipv6 e = Some d) \<and> now \<le> cd_cache_until d \<and>
    send_cached_response (cd_data d) proto srcid (cd_answers d) (cd_valid_until d - now) = Some (data1, sent)"
proof -
  obtain found c1 where f: "cache_check now req proto c = Some (found, c1)"
    using assms by (auto simp: ns_try_resolv_from_cache_def bind_eq_Some_conv)
  note run = assms [unfolded ns_try_resolv_from_cache_def f bind.bind_lunit prod.case]
  obtain key ty where k: "found = Some (key, ty)" using run by (cases found) auto
  obtain e1 where e1: "cache_lookup key c1 = Some e1" using run k by (cases "cache_lookup key c1") auto
  obtain d where d: "(if ty = DNS_TYPE_A then ce_ipv4 e1 else ce_ipv6 e1) = Some d"
    using run k e1 by (cases "if ty = DNS_TYPE_A then ce_ipv4 e1 else ce_ipv6 e1") (simp_all del: One_nat_def)
  obtain data1 where s: "send_cached_response (cd_data d) proto srcid (cd_answers d) (cd_valid_until d - now) = Some (data1, sent)"
    using run by (simp add: k e1 d Let_def del: One_nat_def) (auto simp: bind_eq_Some_conv split: if_splits)
  note h = f [unfolded k] e1 d s
  obtain e where "cache_lookup key c = Some e" "ce_ipv4 e1 = ce_ipv4 (cache_enforce_validity now e)" "ce_ipv6 e1 = ce_ipv6 (cache_enforce_validity now e)"
    using cache_check_fresh [OF h(1)] h(2) by auto
  moreover from this h(3) have "(ce_ipv4 e = Some d \<or> ce_ipv6 e = Some d) \<and> now \<le> cd_cache_until d"
    by (auto simp: cache_enforce_validity_slots cache_check_is_valid_def split: if_splits option.splits)
  ultimately show ?thesis using h(4) by blast
qed

section \<open>Cases in which the cache goes wrong\<close>

text \<open>
  The family an answer is stored under is the type of the last record of the response: an IPv4
  answer followed by a record of another type is served to requests for IPv6.
\<close>

lemma answer_under_wrong_family:
  assumes "pr_ok p" "pr_qtype p = DNS_TYPE_A" "r_type (last (pr_rrs p)) \<noteq> DNS_TYPE_A"
    "cache_reach c" "dc_size c < MAX_CACHE_SIZE" "now \<le> dc_next_refresh c" "cache_lookup (pr_key p) c = None"
    "length pre = protocol_offset proto" "length question = NS_MAXDNAME + 1" "length response = NS_MAXDNAME + 1"
    "0 \<le> now" "later \<le> keep_until now (pr_rrs p)" "length hdr = 12"
  shows "\<exists>c1 c2. cache_update now True question response proto (pre @ pr_message p @ pad) (length (pre @ pr_message p)) c = Some (Inr (), c1) \<and>
    ns_try_resolv_from_cache later IPPROTO_UDP srcid True (request_for hdr p DNS_TYPE_AAAA rest) c1 =
      Some (Cache_hit, Some (pr_sent p srcid (now + answer_ttl (pr_rrs p) - later)), c2)"
proof -
  obtain c1 where c1: "cache_update now True question response proto (pre @ pr_message p @ pad) (length (pre @ pr_message p)) c = Some (Inr (), c1)"
    "cache_lookup (pr_key p) c1 = Some (add_answer DNS_TYPE_AAAA (pr_cached now p)
      \<lparr>ce_want_refresh = False, ce_hits = 0, ce_ipv4 = None, ce_ipv6 = None\<rparr>)"
    using cache_update_plain [OF assms(1) cache_reach_inv [OF assms(4)] assms(5-10)] assms(3) by (auto simp: add_answer_def)
  have "length hdr = protocol_offset IPPROTO_UDP + 12" using assms(13) by (simp add: protocol_offset_def)
  then show ?thesis
    using c1 stored_answer_served [OF assms(1) c1(2) disjI2 [OF refl] assms(11,12), of hdr IPPROTO_UDP srcid rest] by auto
qed

text \<open>A name whose first label is longer than 127 bytes leads the conversion before its array.\<close>

lemma refresh_underflow:
  assumes "ce_want_refresh e" "key = b # r" "sint b < -1"
  shows "cache_refresh_entry now key e = None"
proof -
  have "b \<noteq> 0" using assms(3) by auto
  then have "undot (take NS_MAXDNAME key @ replicate (NS_MAXDNAME - length key) 0) 0 = None"
    using assms(2,3) by (subst undot.simps, simp add: Let_def, subst undot.simps) simp
  moreover have "ce_want_refresh (cache_enforce_validity now e)"
    using assms(1) by (simp add: cache_enforce_validity_def cache_free_ipv4_def cache_free_ipv6_def Let_def)
  ultimately show ?thesis by (simp add: cache_refresh_entry_def Let_def)
qed

text \<open>Two servers that go within three seconds give back one of their two references.\<close>

lemma cache_outlives_servers:
  fixes c :: dns_cache
  defines "c \<equiv> try_remove_cache (start_cache_timer (start_cache_timer (create_cache (create_cache dns_cache_init))))"
  shows "dc_cache c = Some [] \<and> dc_refcount c = 1 \<and> \<not> dc_timer c"
  by (simp add: c_def try_remove_cache_def start_cache_timer_def create_cache_def dns_cache_init_def Let_def)

section \<open>Properties\<close>

text \<open>
  Over every sequence of its operations (creation with each server socket, delayed removal,
  storing, answering, checking, refreshing, invalidation) the cache table exists exactly while it is
  referenced, the removal timer runs only while it exists, no name has two entries, and the count of
  entries is exact and at most 256.
\<close>

lemma dns_cache_bounded:
  assumes "cache_reach c"
  shows "(dc_cache c = None \<longleftrightarrow> dc_refcount c = 0) \<and> 0 \<le> dc_refcount c \<and> (dc_timer c \<longrightarrow> dc_cache c \<noteq> None) \<and>
    (\<forall>t. dc_cache c = Some t \<longrightarrow> distinct (map fst t) \<and> dc_size c = int (length t) \<and> length t \<le> 256)"
  using cache_reach_inv [OF assms] by (auto simp: cache_inv_def table_inv_def split: option.splits)

definition demo_response :: plain_response where
  "demo_response = \<lparr>pr_id = 7, pr_flags = (0x81, 0x80), pr_nscount = 0, pr_arcount = 0, pr_labels = [[119, 119, 119], [97]],
     pr_qtype = DNS_TYPE_A, pr_qclass = DNS_CLASS_IN,
     pr_rrs = [\<lparr>r_type = DNS_TYPE_A, r_class = DNS_CLASS_IN, r_ttl = 60, r_data = [10, 0, 0, 1]\<rparr>]\<rparr>"

lemma demo_response_ok: "pr_ok demo_response"
  by (simp add: pr_ok_def demo_response_def label_ok_def pr_key_def pr_answers_def rr_any_def rr_plain_def length_rr_wire
      pr_message_def response_body_def)

lemma dns_cache_bounded_example:
  "cache_reach (create_cache (create_cache dns_cache_init)) \<and> dc_refcount (create_cache (create_cache dns_cache_init)) = 2 \<and>
   dc_cache (create_cache (create_cache dns_cache_init)) \<noteq> None"
proof -
  have r: "cache_reach (create_cache (create_cache dns_cache_init))" by (intro reach_create reach_init)
  have n: "dc_refcount (create_cache (create_cache dns_cache_init)) = 2" by (simp add: create_cache_def dns_cache_init_def)
  show ?thesis using dns_cache_bounded [OF r] r n by simp
qed



end
