(* ===== verification/DnsReply.thy ===== *)
theory DnsReply
  imports DnsMessage
begin

unbundle bit_operations_syntax

text \<open>
  The removal of a search domain from a reply, \<open>src/src/dnsproxy.c\<close>: expanding the compressed names
  of a message (\<open>convert_label\<close>, \<open>uncompress\<close>), cutting the domain out of the expanded answers
  (\<open>strip_domains\<close>) and building the new reply (\<open>dns_reply_fixup_domains\<close>).

  \<open>dn_expand\<close> and \<open>dn_comp\<close> of the resolver library are a parameter. The buffers are plain
  \<open>char\<close>, which is signed on the platforms the program is built for: \<open>char_pair\<close> is what
  \<open>x[0] << 8 | x[1]\<close> gives there. As in \<open>DnsMessage\<close>, \<open>None\<close> is an access outside an object; a null
  pointer that the code returns is a value of its own.
\<close>

section \<open>Names of the resolver library\<close>

text \<open>
  \<open>dn_expand env msg start end ptr n\<close>: the bytes consumed and the text, if it fits in \<open>n\<close> bytes.
  \<open>dn_comp env text n\<close>: the bytes of the name in wire form with its terminating zero, if they fit.
\<close>

record resolv_env =
  dn_expand :: "u8 list \<Rightarrow> nat \<Rightarrow> nat \<Rightarrow> nat \<Rightarrow> nat \<Rightarrow> (nat \<times> u8 list) option"
  dn_comp :: "u8 list \<Rightarrow> nat \<Rightarrow> u8 list option"

definition convert_label :: "resolv_env \<Rightarrow> u8 list \<Rightarrow> nat \<Rightarrow> nat \<Rightarrow> nat \<Rightarrow> nat \<Rightarrow> (nat \<times> u8 list) option" where
  "convert_label env msg start eom ptr remaining_len =
     (case dn_expand env msg start eom ptr NS_MAXLABEL of
        None \<Rightarrow> None
      | Some (pos, name) \<Rightarrow> map_option (\<lambda>bytes. (pos, bytes)) (dn_comp env name remaining_len))"

section \<open>Expansion of a section\<close>

definition char_pair :: "u8 \<Rightarrow> u8 \<Rightarrow> int" where
  "char_pair a b = (if sint b < 0 then sint b else sint a * 256 + sint b)"

text \<open>The value as \<open>uint16_t\<close>.\<close>

definition u16_pair :: "u8 \<Rightarrow> u8 \<Rightarrow> nat" where
  "u16_pair a b = nat (char_pair a b mod 65536)"

text \<open>The target of the expansion: its bytes and the positions in it and in the message.\<close>

record unc_state =
  un_buf :: "u8 list"
  un_uptr :: nat
  un_ptr :: nat

text \<open>
  The data of a record, by its type. The two length bytes stand before the position; the code
  writes the high one as \<open>comp_pos << 8\<close>, which is zero as a byte. The inner \<open>None\<close> is the null
  pointer.
\<close>

definition unc_rdata :: "resolv_env \<Rightarrow> u8 list \<Rightarrow> nat \<Rightarrow> nat \<Rightarrow> nat \<Rightarrow> nat \<Rightarrow> unc_state \<Rightarrow> unc_state option option" where
  "unc_rdata env msg start eom uncomp_len dns_type s =
     (let uncomp_end = uncomp_len - 1; u = un_uptr s; p = un_ptr s in
      if dns_type = DNS_TYPE_CNAME then
        (case convert_label env msg start eom p (uncomp_len - u) of
           None \<Rightarrow> Some None
         | Some (pos, bytes) \<Rightarrow>
             do { b1 \<leftarrow> wr_bytes (un_buf s) u bytes;
                  b2 \<leftarrow> wr_bytes b1 (u - 2) [0, word_of_nat (length bytes)];
                  Some (Some (s\<lparr>un_buf := b2, un_uptr := u + length bytes, un_ptr := p + pos\<rparr>)) })
      else if dns_type = DNS_TYPE_A \<or> dns_type = DNS_TYPE_AAAA then
        do { h \<leftarrow> rd (un_buf s) (u - 2);
             l \<leftarrow> rd (un_buf s) (u - 1);
             let dlen = char_pair h l in
             if int eom - int p < dlen \<or> int uncomp_end - int u < dlen then Some None
             else if dlen < 0 then None
             else do { d \<leftarrow> rd_bytes msg p (nat dlen);
                       b1 \<leftarrow> wr_bytes (un_buf s) u d;
                       Some (Some (s\<lparr>un_buf := b1, un_uptr := u + nat dlen, un_ptr := p + nat dlen\<rparr>)) } }
      else if dns_type = DNS_TYPE_SOA then
        (case convert_label env msg start eom p (uncomp_len - u) of
           None \<Rightarrow> Some None
         | Some (pos1, bytes1) \<Rightarrow>
             do { b1 \<leftarrow> wr_bytes (un_buf s) u bytes1;
                  let u1 = u + length bytes1; p1 = p + pos1 in
                  case convert_label env msg start eom p1 (uncomp_len - u1) of
                    None \<Rightarrow> Some None
                  | Some (pos2, bytes2) \<Rightarrow>
                      do { b2 \<leftarrow> wr_bytes b1 u1 bytes2;
                           let u2 = u1 + length bytes2; p2 = p1 + pos2 in
                           if uncomp_end < u2 + 20 \<or> eom < p2 + 20 then Some None
                           else do { d \<leftarrow> rd_bytes msg p2 20;
                                     b3 \<leftarrow> wr_bytes b2 u2 d;
                                     b4 \<leftarrow> wr_bytes b3 (u - 2) [0, word_of_nat (length bytes1 + length bytes2 + 20)];
                                     Some (Some (s\<lparr>un_buf := b4, un_uptr := u2 + 20, un_ptr := p2 + 20\<rparr>)) } } })
      else Some (Some s))"

text \<open>One record: its name, its fixed part and its data.\<close>

definition unc_record :: "resolv_env \<Rightarrow> u8 list \<Rightarrow> nat \<Rightarrow> nat \<Rightarrow> nat \<Rightarrow> unc_state \<Rightarrow> unc_state option option" where
  "unc_record env msg start eom uncomp_len s =
     (let uncomp_end = uncomp_len - 1 in
      case convert_label env msg start eom (un_ptr s) NS_MAXLABEL of
        None \<Rightarrow> Some None
      | Some (pos, name) \<Rightarrow>
          do { n \<leftarrow> c_strlen name 0;
               let u = un_uptr s; ulen = n + 1 in
               if uncomp_end < u + ulen then Some None
               else do { b1 \<leftarrow> wr_bytes (un_buf s) u (take ulen name);
                         let u1 = u + ulen; p1 = un_ptr s + pos in
                         if uncomp_end < u1 + DNS_RR_SIZE then Some None
                         else do { fixed \<leftarrow> rd_bytes msg p1 DNS_RR_SIZE;
                                   b2 \<leftarrow> wr_bytes b1 u1 fixed;
                                   if u16_pair (fixed ! 2) (fixed ! 3) \<noteq> DNS_CLASS_IN then Some None
                                   else unc_rdata env msg start eom uncomp_len (u16_pair (fixed ! 0) (fixed ! 1))
                                          \<lparr>un_buf = b2, un_uptr = u1 + DNS_RR_SIZE, un_ptr = p1 + DNS_RR_SIZE\<rparr> } } })"

fun uncompress_loop :: "nat \<Rightarrow> resolv_env \<Rightarrow> u8 list \<Rightarrow> nat \<Rightarrow> nat \<Rightarrow> nat \<Rightarrow> unc_state \<Rightarrow> unc_state option option" where
  "uncompress_loop 0 env msg start eom uncomp_len s = Some (Some s)"
| "uncompress_loop (Suc n) env msg start eom uncomp_len s =
     (if \<not> un_ptr s < eom then Some (Some s)
      else do { r \<leftarrow> unc_record env msg start eom uncomp_len s;
                case r of None \<Rightarrow> Some None | Some s1 \<Rightarrow> uncompress_loop n env msg start eom uncomp_len s1 })"

text \<open>The count is an \<open>int16_t\<close>: one of 32768 or more is negative and the loop does not run.\<close>

definition uncompress :: "nat \<Rightarrow> resolv_env \<Rightarrow> u8 list \<Rightarrow> nat \<Rightarrow> nat \<Rightarrow> nat \<Rightarrow> unc_state \<Rightarrow> unc_state option option" where
  "uncompress field_count env msg start eom uncomp_len s =
     uncompress_loop (if field_count < 32768 then field_count else 0) env msg start eom uncomp_len s"

section \<open>Cutting out the domain\<close>

text \<open>\<open>strstr\<close>: the first position of a string in a string.\<close>

fun find_sub :: "u8 list \<Rightarrow> u8 list \<Rightarrow> nat option" where
  "find_sub pat [] = (if pat = [] then Some 0 else None)"
| "find_sub pat (x # s) = (if take (length pat) (x # s) = pat then Some 0 else map_option Suc (find_sub pat s))"

text \<open>
  One answer: the part of the owner behind the host is removed by moving what follows to the left.
  The result has the buffer and the new end.
\<close>

definition strip_owner :: "u8 list \<Rightarrow> u8 list \<Rightarrow> nat \<Rightarrow> nat \<Rightarrow> (u8 list \<times> nat) option" where
  "strip_owner name buf answers eom =
     do { k \<leftarrow> c_strlen buf answers;
          case find_sub name (bstr (drop answers buf)) of
            None \<Rightarrow> Some (buf, eom)
          | Some i \<Rightarrow>
              do { let domain = answers + i + length name;
                   domain_len \<leftarrow> c_strlen buf domain;
                   if domain_len = 0 then Some (buf, eom)
                   else if eom < domain + domain_len then None
                   else do { rest \<leftarrow> rd_bytes buf (domain + domain_len) (eom - (domain + domain_len));
                             buf1 \<leftarrow> wr_bytes buf domain rest;
                             Some (buf1, eom - domain_len) } } }"

lemma strip_owner_le: "strip_owner name buf answers eom = Some (buf1, eom1) \<Longrightarrow> eom1 \<le> eom"
  by (auto simp: strip_owner_def bind_eq_Some_conv Let_def split: option.splits if_splits)

function strip_loop :: "u8 list \<Rightarrow> u8 list \<Rightarrow> nat \<Rightarrow> nat \<Rightarrow> nat \<Rightarrow> (nat result \<times> u8 list) option" where
  "strip_loop name buf first answers eom =
     (if answers < eom then
        (case strip_owner name buf answers eom of
           None \<Rightarrow> None
         | Some (buf1, eom1) \<Rightarrow>
             do { k \<leftarrow> c_strlen buf1 answers;
                  let answers1 = answers + k + 1 in
                  if eom1 < answers1 + DNS_RR_SIZE then Some (Inl EINVAL, buf1)
                  else do { rdlen \<leftarrow> rd16 buf1 (answers1 + 8);
                            strip_loop name buf1 first (answers1 + DNS_RR_SIZE + rdlen) eom1 } })
      else if eom < answers then Some (Inl EINVAL, buf)
      else Some (Inr (eom - first), buf))"
  by pat_completeness auto
termination
  by (relation "measure (\<lambda>(name, buf, first, answers, eom). eom - answers)") (auto dest: strip_owner_le)

declare strip_loop.simps [simp del]

text \<open>The host label stands at the beginning of the same buffer.\<close>

definition strip_domains :: "u8 list \<Rightarrow> nat \<Rightarrow> nat \<Rightarrow> (nat result \<times> u8 list) option" where
  "strip_domains buf answers len = strip_loop (bstr buf) buf answers answers (answers + len)"

section \<open>The new reply\<close>

fun unc_sections :: "nat list \<Rightarrow> resolv_env \<Rightarrow> u8 list \<Rightarrow> nat \<Rightarrow> nat \<Rightarrow> unc_state \<Rightarrow> unc_state option option" where
  "unc_sections [] env msg start eom s = Some (Some s)"
| "unc_sections (n # ns) env msg start eom s =
     do { r \<leftarrow> uncompress n env msg start eom NS_MAXDNAME s;
          case r of None \<Rightarrow> Some None | Some s1 \<Rightarrow> unc_sections ns env msg start eom s1 }"

text \<open>
  The result is an error, no change, or the new reply. \<open>uncompressed\<close> is the stack array with what
  it holds before the call.
\<close>

definition dns_reply_fixup_domains ::
  "resolv_env \<Rightarrow> u8 list \<Rightarrow> u8 list \<Rightarrow> nat \<Rightarrow> nat \<Rightarrow> (u8 list option) result option" where
  "dns_reply_fixup_domains env uncompressed reply reply_len offset =
     (let header_len = offset + DNS_HEADER_SIZE in
      if reply_len < header_len + 1 then Some (Inl EINVAL)
      else do {
        n1 \<leftarrow> rd16 reply (offset + 6);
        n2 \<leftarrow> rd16 reply (offset + 8);
        n3 \<leftarrow> rd16 reply (offset + 10);
        hb \<leftarrow> rd reply header_len;
        let host_len = unat hb;
        let domain = header_len + host_len + 1;
        if reply_len \<le> domain then Some (Inl EINVAL)
        else do {
          let domain_len = (if host_len = 0 then 0 else length (bstr (take (reply_len - domain) (drop domain reply))) mod 65536);
          let qtc = domain + domain_len + 1;
          if reply_len < qtc + DNS_QTYPE_QCLASS_SIZE then Some (Inl EINVAL)
          else do {
            dns_type \<leftarrow> rd16 reply qtc;
            dns_class \<leftarrow> rd16 reply (qtc + 2);
            if domain_len = 0 then Some (Inr None)
            else if dns_type \<noteq> DNS_TYPE_A \<and> dns_type \<noteq> DNS_TYPE_AAAA \<and> dns_class \<noteq> DNS_CLASS_IN then Some (Inr None)
            else do {
              host \<leftarrow> rd_bytes reply header_len (host_len + 1);
              q \<leftarrow> rd_bytes reply qtc DNS_QTYPE_QCLASS_SIZE;
              b1 \<leftarrow> wr_bytes uncompressed 0 (host @ 0 # q);
              let fixed_len = host_len + 2 + DNS_QTYPE_QCLASS_SIZE;
              r \<leftarrow> unc_sections [n1, n2, n3] env reply offset reply_len
                     \<lparr>un_buf = b1, un_uptr = fixed_len, un_ptr = qtc + DNS_QTYPE_QCLASS_SIZE\<rparr>;
              case r of
                None \<Rightarrow> Some (Inr None)
              | Some s \<Rightarrow>
                  do { (res, b2) \<leftarrow> strip_domains (un_buf s) fixed_len (un_uptr s - fixed_len);
                       case res of
                         Inl e \<Rightarrow> Some (Inl EINVAL)
                       | Inr new_an_len \<Rightarrow>
                           do { hdr \<leftarrow> rd_bytes reply 0 header_len;
                                body \<leftarrow> rd_bytes b2 0 (new_an_len + fixed_len);
                                Some (Inr (Some (hdr @ body))) } } } } } })"

section \<open>Expansion of plain answers\<close>

text \<open>The resolver library expands a pointer to the question to the name of the question.\<close>

definition expands_question :: "resolv_env \<Rightarrow> u8 list \<Rightarrow> nat \<Rightarrow> nat \<Rightarrow> u8 list list \<Rightarrow> bool" where
  "expands_question env msg start eom ls \<longleftrightarrow>
     (\<forall>p r. drop p msg = NS_CMPRSFLGS # 0x0C # r \<and> p < eom \<longrightarrow>
        (\<exists>text. dn_expand env msg start eom p NS_MAXLABEL = Some (2, text) \<and>
           dn_comp env text NS_MAXLABEL = Some (name_wire ls @ [0])))"

definition addr_rr :: "dns_rr \<Rightarrow> bool" where
  "addr_rr r \<longleftrightarrow> (r_type r = DNS_TYPE_A \<or> r_type r = DNS_TYPE_AAAA) \<and> r_class r = DNS_CLASS_IN \<and> length (r_data r) < 128"

definition owned :: "u8 list \<Rightarrow> dns_rr list \<Rightarrow> u8 list" where
  "owned name rrs = concat (map (\<lambda>r. name @ 0 # rr_wire r) rrs)"

lemma owned_simps [simp]: "owned name [] = []" "owned name (r # rrs) = name @ 0 # rr_wire r @ owned name rrs"
  by (simp_all add: owned_def)

lemma sint_char_small: "n < 128 \<Longrightarrow> sint (word_of_nat n :: u8) = int n"
proof -
  assume n: "n < 128"
  then have u: "uint (word_of_nat n :: u8) = int n" by (simp add: uint_nat unat_of_nat)
  have "signed_take_bit 7 (int n) = int n"
    using n by (intro signed_take_bit_int_eq_self) simp_all
  then show ?thesis by (simp add: sint_uint u)
qed

lemma pair_be16: "n < 128 \<Longrightarrow> char_pair (be16 n ! 0) (be16 n ! 1) = int n"
  using sint_char_small [of n] sint_char_small [of "n div 256"] by (simp add: be16_def char_pair_def)

lemma u16_pair_be16: "n < 128 \<Longrightarrow> u16_pair (be16 n ! 0) (be16 n ! 1) = n"
  unfolding u16_pair_def by (subst pair_be16) simp_all

lemma rr_wire_fixed:
  assumes "fixed = take 10 (rr_wire r)"
  shows "fixed ! 0 = be16 (r_type r) ! 0" "fixed ! 1 = be16 (r_type r) ! 1" "fixed ! 2 = be16 (r_class r) ! 0" "fixed ! 3 = be16 (r_class r) ! 1"
    "fixed ! 8 = be16 (length (r_data r)) ! 0" "fixed ! 9 = be16 (length (r_data r)) ! 1" "length fixed = 10"
  unfolding assms by (simp_all add: rr_wire_def nth_append)

lemma unc_record_addr:
  assumes "expands_question env msg start eom ls" "list_all label_ok ls" "addr_rr r" "drop (un_ptr s) msg = NS_CMPRSFLGS # 0x0C # rr_wire r @ rest"
    "un_ptr s + 2 + length (rr_wire r) \<le> eom" "eom \<le> length msg"
    "un_uptr s + length (name_wire ls) + 1 + length (rr_wire r) < uncomp_len" "uncomp_len \<le> length (un_buf s)"
  shows "unc_record env msg start eom uncomp_len s = Some (Some
    \<lparr>un_buf = take (un_uptr s) (un_buf s) @ (name_wire ls @ 0 # rr_wire r) @ drop (un_uptr s + length (name_wire ls @ 0 # rr_wire r)) (un_buf s),
     un_uptr = un_uptr s + length (name_wire ls @ 0 # rr_wire r), un_ptr = un_ptr s + 2 + length (rr_wire r)\<rparr>)"
proof -
  define u p w where "u = un_uptr s" and "p = un_ptr s" and "w = name_wire ls"
  define fixed where "fixed = take 10 (rr_wire r)"
  note fx = rr_wire_fixed [OF fixed_def]
  have lr: "length (rr_wire r) = 10 + length (r_data r)" "rr_wire r = fixed @ r_data r"
    unfolding length_rr_wire fixed_def by (simp_all add: rr_wire_def)
  have cv: "convert_label env msg start eom p NS_MAXLABEL = Some (2, w @ [0])"
    using assms(1,4,5) unfolding expands_question_def p_def w_def by (auto simp: convert_label_def)
  have sl: "c_strlen (w @ [0]) 0 = Some (length w)"
    using bstr_name [OF assms(2), of "[]"] by (simp add: c_strlen_def w_def)
  define b0 b1 b2 where "b0 = un_buf s" and "b1 = take u b0 @ (w @ [0]) @ drop (u + length (w @ [0])) b0"
    and "b2 = take u b0 @ ((w @ [0]) @ fixed) @ drop (u + length ((w @ [0]) @ fixed)) b0"
  have room: "u + length w + 1 + 10 + length (r_data r) < uncomp_len" "uncomp_len \<le> length b0"
    using assms(7,8) lr by (simp_all add: u_def w_def b0_def)
  have w1: "wr_bytes b0 u (w @ [0]) = Some b1" using room by (simp add: wr_bytes_def b1_def)
  have w2: "wr_bytes b1 (u + (length w + 1)) fixed = Some b2"
    using wr_bytes_wr_bytes [of u "w @ [0]" fixed b0] room fx(7) unfolding b1_def b2_def by (simp add: ac_simps)
  have dp: "drop (p + 2) msg = fixed @ r_data r @ rest"
    using drop_append_drop [of p msg "[NS_CMPRSFLGS, 0x0C]"] assms(4) lr by (simp add: p_def)
  have rf: "rd_bytes msg (p + 2) 10 = Some fixed" using dp fx(7) assms(5,6) lr by (simp add: rd_bytes_def p_def)
  have dd: "drop (p + 2 + 10) msg = r_data r @ rest" using drop_append_drop [OF dp] fx(7) by simp
  have rdd: "rd_bytes msg (p + 2 + 10) (length (r_data r)) = Some (r_data r)"
    using dd assms(5,6) lr by (simp add: rd_bytes_def p_def)
  have cl: "u16_pair (fixed ! 2) (fixed ! 3) = DNS_CLASS_IN" and ty: "u16_pair (fixed ! 0) (fixed ! 1) = r_type r"
    unfolding fx(1-4) using assms(3) u16_pair_be16 [of "r_class r"] u16_pair_be16 [of "r_type r"]
    by (auto simp del: One_nat_def simp: addr_rr_def)
  define u2 where "u2 = u + (length w + 1) + 10"
  have i: "b2 ! (u2 - 2) = fixed ! 8" "b2 ! (u2 - 1) = fixed ! 9" "u2 \<le> length b2"
    using room fx(7) by (simp_all add: b2_def u2_def nth_append)
  have u2room: "u2 + length (r_data r) < uncomp_len" using room by (simp add: u2_def)
  have "2 \<le> u2" by (simp add: u2_def)
  then have l: "rd b2 (u2 - 2) = Some (be16 (length (r_data r)) ! 0)" "rd b2 (u2 - 1) = Some (be16 (length (r_data r)) ! 1)"
    using i fx(5,6) by (auto simp: rd_def)
  have dl: "char_pair (be16 (length (r_data r)) ! 0) (be16 (length (r_data r)) ! 1) = int (length (r_data r))"
    by (rule pair_be16) (use assms(3) in \<open>simp add: addr_rr_def\<close>)
  have w3: "wr_bytes b2 u2 (r_data r) = Some (take u b0 @ ((w @ [0]) @ fixed) @ r_data r @ drop (u2 + length (r_data r)) b0)"
    using wr_bytes_wr_bytes [of u "(w @ [0]) @ fixed" "r_data r" b0] room fx(7) by (simp add: b2_def u2_def ac_simps)
  have "unc_rdata env msg start eom uncomp_len (r_type r) \<lparr>un_buf = b2, un_uptr = u2, un_ptr = p + 2 + 10\<rparr> =
      Some (Some \<lparr>un_buf = take u b0 @ ((w @ [0]) @ fixed) @ r_data r @ drop (u2 + length (r_data r)) b0,
        un_uptr = u2 + length (r_data r), un_ptr = p + 2 + 10 + length (r_data r)\<rparr>)"
    using assms(3,5) room(2) u2room lr unfolding unc_rdata_def Let_def
    by (auto simp: l [simplified] dl [simplified] rdd [simplified] w3 addr_rr_def p_def [symmetric])
  moreover have c: "\<not> uncomp_len - 1 < u + (length w + 1)" "\<not> uncomp_len - 1 < u + (length w + 1) + 10"
    "take (length w + 1) (w @ [0]) = w @ [0]"
    using room by auto
  have "unc_record env msg start eom uncomp_len s =
      unc_rdata env msg start eom uncomp_len (r_type r) \<lparr>un_buf = b2, un_uptr = u2, un_ptr = p + 2 + 10\<rparr>"
    unfolding unc_record_def Let_def u_def [symmetric] p_def [symmetric] b0_def [symmetric]
    by (simp only: cv option.case prod.case sl bind.bind_lunit c w1 rf w2 cl ty if_False u2_def simp_thms)
  ultimately show ?thesis
    using lr by (simp add: u_def p_def b0_def w_def u2_def ac_simps)
qed

lemma uncompress_addrs:
  assumes "expands_question env msg start eom ls" "list_all label_ok ls" "list_all addr_rr rrs" "eom \<le> length msg"
    "drop (un_ptr s) msg = rrs_wire rrs @ rest" "un_ptr s + length (rrs_wire rrs) \<le> eom"
    "un_uptr s + length (owned (name_wire ls) rrs) < uncomp_len" "uncomp_len \<le> length (un_buf s)"
  shows "uncompress_loop (length rrs) env msg start eom uncomp_len s = Some (Some
    \<lparr>un_buf = take (un_uptr s) (un_buf s) @ owned (name_wire ls) rrs @ drop (un_uptr s + length (owned (name_wire ls) rrs)) (un_buf s),
     un_uptr = un_uptr s + length (owned (name_wire ls) rrs), un_ptr = un_ptr s + length (rrs_wire rrs)\<rparr>)"
  using assms(3,5-8)
proof (induction rrs arbitrary: s)
  case Nil
  then show ?case by simp
next
  case (Cons r rrs)
  define w x where "w = name_wire ls" and "x = w @ 0 # rr_wire r"
  define s1 where "s1 = \<lparr>un_buf = take (un_uptr s) (un_buf s) @ x @ drop (un_uptr s + length x) (un_buf s),
     un_uptr = un_uptr s + length x, un_ptr = un_ptr s + 2 + length (rr_wire r)\<rparr>"
  have d: "drop (un_ptr s) msg = NS_CMPRSFLGS # 0x0C # rr_wire r @ rrs_wire rrs @ rest" using Cons.prems(2) by simp
  have r: "unc_record env msg start eom uncomp_len s = Some (Some s1)"
    unfolding s1_def x_def w_def by (rule unc_record_addr [OF assms(1,2) _ d _ assms(4)]) (use Cons.prems in auto)
  have d1: "drop (un_ptr s1) msg = rrs_wire rrs @ rest"
    using drop_append_drop [of "un_ptr s" msg "NS_CMPRSFLGS # 0x0C # rr_wire r"] d by (simp add: s1_def)
  have room: "un_uptr s + length x + length (owned w rrs) < uncomp_len" using Cons.prems(4) by (simp add: x_def w_def)
  have ih: "uncompress_loop (length rrs) env msg start eom uncomp_len s1 = Some (Some
    \<lparr>un_buf = take (un_uptr s1) (un_buf s1) @ owned (name_wire ls) rrs @ drop (un_uptr s1 + length (owned (name_wire ls) rrs)) (un_buf s1),
     un_uptr = un_uptr s1 + length (owned (name_wire ls) rrs), un_ptr = un_ptr s1 + length (rrs_wire rrs)\<rparr>)"
    by (rule Cons.IH [OF _ d1]) (use Cons.prems room in \<open>auto simp: s1_def x_def w_def\<close>)
  have "un_ptr s < eom" using Cons.prems(3) by simp
  then have loop: "uncompress_loop (length (r # rrs)) env msg start eom uncomp_len s = uncompress_loop (length rrs) env msg start eom uncomp_len s1"
    by (simp add: r)
  have tk: "take (un_uptr s1) (un_buf s1) = take (un_uptr s) (un_buf s) @ x"
    and dr: "drop (un_uptr s1 + k) (un_buf s1) = drop (un_uptr s1 + k) (un_buf s)" for k
    using room Cons.prems(5) by (simp_all add: s1_def ac_simps)
  have "un_uptr s1 = un_uptr s + length x" "un_ptr s1 = un_ptr s + 2 + length (rr_wire r)" by (simp_all add: s1_def)
  then show ?case unfolding loop ih tk dr by (simp add: x_def w_def ac_simps)
qed

section \<open>Cutting the domain out of plain answers\<close>

lemma find_sub_prefix: "find_sub pat (pat @ s) = Some 0"
proof (cases "pat @ s")
  case (Cons a l)
  then have "take (length pat) (a # l) = pat" by (metis append_eq_conv_conj)
  then show ?thesis by (simp add: Cons)
qed simp

lemma strip_owner_plain:
  assumes "label_ok h" "list_all label_ok ds" "ds \<noteq> []"
    "buf = pre @ label_wire h @ name_wire ds @ 0 # tl1 @ junk" "eom = length pre + length (label_wire h @ name_wire ds @ 0 # tl1)"
  shows "\<exists>junk1. strip_owner (label_wire h) buf (length pre) eom =
    Some (pre @ label_wire h @ 0 # tl1 @ junk1, length pre + length (label_wire h @ 0 # tl1))"
proof -
  define w where "w = name_wire (h # ds)"
  define D where "D = length pre + length (label_wire h)"
  have w: "w = label_wire h @ name_wire ds" by (simp add: w_def label_wire_def)
  have ok: "list_all label_ok (h # ds)" using assms(1,2) by simp
  have d0: "drop (length pre) buf = w @ 0 # tl1 @ junk" and dD: "drop D buf = name_wire ds @ 0 # tl1 @ junk"
    by (simp_all add: assms(4) w D_def)
  have b0: "bstr (drop (length pre) buf) = w" "bstr (drop D buf) = name_wire ds"
    unfolding d0 dD w_def using bstr_name [OF ok] bstr_name [OF assms(2)] by simp_all
  have sl: "c_strlen buf (length pre) = Some (length w)" "c_strlen buf D = Some (length (name_wire ds))"
    unfolding c_strlen_def b0 by (simp_all add: assms(4) w D_def)
  have fs: "find_sub (label_wire h) w = Some 0" unfolding w by (rule find_sub_prefix)
  have ne: "length (name_wire ds) \<noteq> 0" using assms(3) by (cases ds) simp_all
  have re: "rd_bytes buf (D + length (name_wire ds)) (eom - (D + length (name_wire ds))) = Some (0 # tl1)"
    by (simp add: rd_bytes_def assms(4,5) D_def)
  define k where "k = length (name_wire ds)"
  have "wr_bytes buf D (0 # tl1) = Some (take D buf @ (0 # tl1) @ drop (D + length (0 # tl1)) buf)"
    by (simp add: wr_bytes_def assms(4) D_def)
  moreover have "take D buf = pre @ label_wire h" by (simp add: assms(4) D_def)
  ultimately have wr: "wr_bytes buf D (0 # tl1) = Some (pre @ label_wire h @ 0 # tl1 @ drop (D + length (0 # tl1)) buf)" by simp
  have le: "\<not> eom < D + length (name_wire ds)" "eom - length (name_wire ds) = length pre + length (label_wire h @ 0 # tl1)"
    by (simp_all add: assms(5) D_def)
  show ?thesis
    unfolding strip_owner_def using sl fs b0 ne re wr le by (simp add: Let_def D_def [symmetric])
qed

lemma strip_loop_plain:
  assumes "label_ok h" "list_all label_ok ds" "ds \<noteq> []" "list_all (\<lambda>r. length (r_data r) < 65536) rrs"
    "buf = pre @ owned (label_wire h @ name_wire ds) rrs @ junk" "eom = length pre + length (owned (label_wire h @ name_wire ds) rrs)"
    "first \<le> length pre"
  shows "\<exists>junk1. strip_loop (label_wire h) buf first (length pre) eom =
    Some (Inr (length pre + length (owned (label_wire h) rrs) - first), pre @ owned (label_wire h) rrs @ junk1)"
  using assms(4-7)
proof (induction rrs arbitrary: buf pre eom junk)
  case Nil
  then show ?case by (subst strip_loop.simps) auto
next
  case (Cons r rrs)
  define L where "L = label_wire h @ name_wire ds"
  define tl1 where "tl1 = rr_wire r @ owned L rrs"
  have buf: "buf = pre @ label_wire h @ name_wire ds @ 0 # tl1 @ junk" using Cons.prems(2) by (simp add: tl1_def L_def)
  have eom: "eom = length pre + length (label_wire h @ name_wire ds @ 0 # tl1)" using Cons.prems(3) by (simp add: tl1_def L_def)
  obtain junk1 where so: "strip_owner (label_wire h) buf (length pre) eom =
      Some (pre @ label_wire h @ 0 # tl1 @ junk1, length pre + length (label_wire h @ 0 # tl1))"
    using strip_owner_plain [OF assms(1-3) buf eom] by blast
  define buf1 where "buf1 = pre @ label_wire h @ 0 # tl1 @ junk1"
  define A where "A = length pre + length (label_wire h) + 1"
  have ok: "list_all label_ok [h]" using assms(1) by simp
  have sl: "c_strlen buf1 (length pre) = Some (length (label_wire h))"
    using bstr_name [OF ok, of "tl1 @ junk1"] by (simp add: c_strlen_def buf1_def label_wire_def)
  have d: "drop A buf1 = be16 (r_type r) @ be16 (r_class r) @ be32 (r_ttl r) @ be16 (length (r_data r)) @ r_data r @ owned L rrs @ junk1"
    by (simp add: A_def buf1_def tl1_def rr_wire_def)
  have rl: "rd16 buf1 (A + 8) = Some (length (r_data r))"
    by (rule rd16_at [of _ _ _ "r_data r @ owned L rrs @ junk1"])
      (use drop_append_drop [of A buf1 "be16 (r_type r) @ be16 (r_class r) @ be32 (r_ttl r)"] d Cons.prems(1) in auto)
  define pre1 where "pre1 = pre @ label_wire h @ 0 # rr_wire r"
  have b1: "buf1 = pre1 @ owned L rrs @ junk1" "A + 10 + length (r_data r) = length pre1"
    "length pre + length (label_wire h @ 0 # tl1) = length pre1 + length (owned L rrs)"
    by (simp_all add: buf1_def pre1_def tl1_def A_def length_rr_wire)
  have "\<exists>junk2. strip_loop (label_wire h) buf1 first (length pre1) (length pre1 + length (owned L rrs)) =
      Some (Inr (length pre1 + length (owned (label_wire h) rrs) - first), pre1 @ owned (label_wire h) rrs @ junk2)"
    unfolding L_def by (rule Cons.IH) (use Cons.prems b1 in \<open>auto simp: pre1_def L_def\<close>)
  moreover have "strip_loop (label_wire h) buf first (length pre) eom = strip_loop (label_wire h) buf1 first (length pre1) (length pre1 + length (owned L rrs))"
  proof -
    define E where "E = length pre + length (label_wire h @ 0 # tl1)"
    have lt: "length pre < eom" "\<not> E < A + 10" using eom b1(2,3) by (simp_all add: A_def E_def)
    have "strip_loop (label_wire h) buf first (length pre) eom =
        (if E < A + 10 then Some (Inl EINVAL, buf1) else do { rdlen \<leftarrow> rd16 buf1 (A + 8); strip_loop (label_wire h) buf1 first (A + 10 + rdlen) E })"
      using lt(1) by (subst strip_loop.simps)
        (simp only: so buf1_def [symmetric] E_def [symmetric] option.case prod.case sl bind.bind_lunit Let_def A_def [symmetric] if_True)
    then show ?thesis using lt(2) rl b1(2) b1(3) [folded E_def] by simp
  qed
  ultimately show ?case by (simp add: pre1_def add.assoc)
qed

text \<open>
  An address record whose length is 128 or more is copied with a negative length, since the low byte
  of the length is read as a signed character.
\<close>

lemma take_split: "take (length a) (a @ b) = a"
  by simp

lemma sint_large:
  fixes l :: u8
  assumes "128 \<le> unat l"
  shows "sint l < 0"
proof -
  have u: "128 \<le> uint l" using assms by (simp only: uint_nat)
  have v: "uint l < 256" using uint_lt2p [of l] by simp
  have "sint l = signed_take_bit 7 (uint l)" by (simp add: sint_uint)
  also have "\<dots> = (uint l + 128) mod 256 - 128" by (simp add: signed_take_bit_eq_take_bit_shift take_bit_eq_mod)
  also have "(uint l + 128) mod 256 = uint l + 128 - 256" using u v by (simp add: mod_pos_geq)
  finally show ?thesis using v by simp
qed

lemma uncompress_negative_length:
  assumes "ty = DNS_TYPE_A \<or> ty = DNS_TYPE_AAAA" "rd (un_buf s) (un_uptr s - 2) = Some h" "rd (un_buf s) (un_uptr s - 1) = Some l"
    "128 \<le> unat l" "un_ptr s \<le> eom" "un_uptr s < uncomp_len"
  shows "unc_rdata env msg start eom uncomp_len ty s = None"
  using sint_large [OF assms(4)] assms by (auto simp: unc_rdata_def Let_def char_pair_def)

section \<open>A reply to the query for a host in a domain\<close>

lemma unc_sections_addrs:
  assumes "expands_question env msg start eom ls" "list_all label_ok ls" "list_all addr_rr rrs" "length rrs < 32768"
    "drop p msg = rrs_wire rrs @ pad" "eom = p + length (rrs_wire rrs)" "eom \<le> length msg"
    "length pre + length (owned (name_wire ls) rrs) < NS_MAXDNAME" "length (pre @ rest) = NS_MAXDNAME"
  shows "unc_sections [length rrs, 0, 0] env msg start eom \<lparr>un_buf = pre @ rest, un_uptr = length pre, un_ptr = p\<rparr> = Some (Some
    \<lparr>un_buf = pre @ owned (name_wire ls) rrs @ drop (length (owned (name_wire ls) rrs)) rest,
     un_uptr = length pre + length (owned (name_wire ls) rrs), un_ptr = eom\<rparr>)"
proof -
  define s where "s = \<lparr>un_buf = pre @ rest, un_uptr = length pre, un_ptr = p\<rparr>"
  have "uncompress (length rrs) env msg start eom NS_MAXDNAME s = Some (Some
      \<lparr>un_buf = pre @ owned (name_wire ls) rrs @ drop (length (owned (name_wire ls) rrs)) rest,
       un_uptr = length pre + length (owned (name_wire ls) rrs), un_ptr = eom\<rparr>)"
    using uncompress_addrs [of env msg start eom ls rrs s pad NS_MAXDNAME] assms by (simp add: uncompress_def s_def)
  moreover have "uncompress 0 env msg start eom NS_MAXDNAME s1 = Some (Some s1)" for s1
    by (simp add: uncompress_def)
  ultimately show ?thesis by (simp add: s_def)
qed

lemma strip_domains_plain:
  assumes "label_ok h" "list_all label_ok ds" "ds \<noteq> []" "list_all addr_rr rrs" "pre = label_wire h @ 0 # q"
    "buf = pre @ owned (label_wire h @ name_wire ds) rrs @ junk"
  shows "\<exists>junk1. strip_domains buf (length pre) (length (owned (label_wire h @ name_wire ds) rrs)) =
    Some (Inr (length (owned (label_wire h) rrs)), pre @ owned (label_wire h) rrs @ junk1)"
proof -
  have "bstr buf = label_wire h"
    using bstr_name [of "[h]"] assms(1) by (simp add: assms(5,6) label_wire_def)
  moreover have "list_all (\<lambda>r. length (r_data r) < 65536) rrs"
    using assms(4) by (auto simp: addr_rr_def list_all_iff)
  ultimately show ?thesis
    using strip_loop_plain [OF assms(1-3) _ assms(6) refl, of "length pre"] unfolding strip_domains_def by auto
qed

text \<open>The fields of the question, read at their positions.\<close>

lemma query_layout:
  assumes "label_ok h" "list_all label_ok ds" "ty < 65536" "cl < 65536" "length (name_wire ds) < 65536"
    "m = hdr @ label_wire h @ name_wire ds @ 0 # be16 ty @ be16 cl @ rest @ pad"
    "Q = length hdr + length h + 1 + length (name_wire ds) + 1"
  shows "rd m (length hdr) = Some (word_of_nat (length h))"
    "length (bstr (take (Q + 4 + length rest - (length hdr + length h + 1)) (drop (length hdr + length h + 1) m))) mod 65536 = length (name_wire ds)"
    "rd16 m Q = Some ty" "rd16 m (Q + 2) = Some cl" "rd_bytes m (length hdr) (length h + 1) = Some (label_wire h)"
    "rd_bytes m Q 4 = Some (be16 ty @ be16 cl)" "rd_bytes m 0 (length hdr) = Some hdr" "drop (Q + 4) m = rest @ pad"
proof -
  have dH: "drop (length hdr) m = label_wire h @ name_wire ds @ 0 # be16 ty @ be16 cl @ rest @ pad" by (simp add: assms(6))
  have dD: "drop (length hdr + length h + 1) m = name_wire ds @ 0 # be16 ty @ be16 cl @ rest @ pad"
    using drop_append_drop [OF dH] by (simp add: label_wire_def)
  have dQ: "drop Q m = be16 ty @ be16 cl @ rest @ pad"
    using drop_append_drop [of "length hdr + length h + 1" m "name_wire ds @ [0]"] dD by (simp add: assms(7))
  have dQ2: "drop (Q + 2) m = be16 cl @ rest @ pad" using drop_append_drop [OF dQ] by simp
  show "rd m (length hdr) = Some (word_of_nat (length h))"
    using drop_Cons_rd [of "length hdr" m "word_of_nat (length h)"] dH by (simp add: label_wire_def)
  have "take (Q + 4 + length rest - (length hdr + length h + 1)) (drop (length hdr + length h + 1) m) =
      name_wire ds @ 0 # be16 ty @ be16 cl @ rest"
    unfolding dD using take_split [of "name_wire ds @ 0 # be16 ty @ be16 cl @ rest" pad] by (simp add: assms(7) ac_simps)
  then show "length (bstr (take (Q + 4 + length rest - (length hdr + length h + 1)) (drop (length hdr + length h + 1) m))) mod 65536 =
      length (name_wire ds)"
    using bstr_name [OF assms(2)] assms(5) by simp
  show "rd16 m Q = Some ty" "rd16 m (Q + 2) = Some cl" using rd16_at [OF dQ assms(3)] rd16_at [OF dQ2 assms(4)] by auto
  show "rd_bytes m (length hdr) (length h + 1) = Some (label_wire h)" "rd_bytes m Q 4 = Some (be16 ty @ be16 cl)"
    "rd_bytes m 0 (length hdr) = Some hdr"
    using dH dQ by (simp_all add: rd_bytes_def assms(6,7) label_wire_def)
  show "drop (Q + 4) m = rest @ pad" using drop_append_drop [OF dQ2] by (simp add: numeral_eq_Suc)
qed

section \<open>Properties\<close>


text \<open>The reply for www.ex.org with one address, cut down to the host; the library finds the name of the question.\<close>

definition demo_resolv :: resolv_env where
  "demo_resolv = \<lparr>dn_expand = (\<lambda>msg start eom p n. Some (2, [119, 119, 119, 46, 101, 120, 46, 111, 114, 103])),
     dn_comp = (\<lambda>text n. Some (name_wire [[119, 119, 119], [101, 120], [111, 114, 103]] @ [0]))\<rparr>"


end
