(* ===== verification/Spec2Isabelle.thy ===== *)
theory Spec2Isabelle
  imports IpPool DhcpExchange AcdNetwork GWebUrl Stats OnlineCheck Notifier DnsCache DnsReply
begin

text \<open>
  \<^bold>\<open>ConnMan, a connection manager: a model of its core and proofs about it.\<close>

  ConnMan is a daemon that brings networks up, keeps one of the connected services as the default,
  checks that it reaches the Internet, and serves address ranges and names to tethered clients.
  The development models the parts of it that compute: address pools, the DHCP packet format and
  server, the detection of address conflicts, the HTTP client's parsers, the statistics of
  services, the states, order and online checks of services, the notifiers, and the messages,
  the cache and the replies of the DNS proxy. One definition stands for one C function, with the
  name of the function where that is possible; a longer function is split into its loop and its
  branches, named after them.

  \<^bold>\<open>How the program is represented.\<close> Structures are records, enumerations datatypes. Integers whose
  width matters are words (\<open>u8\<close>, \<open>u16\<close>, \<open>u32\<close>) or integers with the wrapping written out. A pointer
  is a number; where aliasing matters (leases, pools, strings of a proxy URL) structures lie in a
  map from addresses. A byte array is the list of its bytes and every access to it is checked. An
  error number is \<open>Inl\<close> of an \<open>errno\<close>. \<open>None\<close> as the result of a call is undefined behaviour
  (an access outside an object, signed overflow, use of freed memory) or a loop that does not end;
  theorems that say \<open>Some\<close> therefore say that the call returns and is defined. Loops that can run
  forever are \<^theory_text>\<open>partial_function (option)\<close>; all others have a termination proof, and no
  fuel is used. What the code gets from the system, GLib, the C library or unmodelled parts of the
  daemon is a record of parameters (\<open>env\<close>, \<open>stats_env\<close>, \<open>acd_env\<close>, \<open>net_env\<close>, \<open>oc_env\<close>,
  \<open>notifier_env\<close>, \<open>resolv_env\<close>); calls into such parts are recorded in a list of outputs.

  \<^bold>\<open>The theories and the code.\<close>

  \<^item> \<open>Prelude\<close>: types of machine integers, error numbers, byte order, dotted addresses, and the
    lemmas on words and lists that the components share.

  \<^item> \<open>GLibList\<close>: the contracts of \<open>g_list_insert_sorted\<close> and \<open>g_list_sort\<close> as the locales
    \<open>sorted_insertion\<close> and \<open>list_sorting\<close>, with reference functions that meet them. The lease list,
    the notifier list and the service list rely on them.

  \<^item> \<open>IpPool\<close>, \<open>src/src/ippool.c\<close>: pools of addresses for tethering. State \<open>ippool\<close>; all functions
    of the file. Shown: blocks of different pools are disjoint in every reachable state, the search
    finds the first free block in cyclic order, where it does not end, the addresses a pool
    gets, and that adding and deleting an address are inverse. A lemma shows that a pool can
    overlap a smaller network in use.

  \<^item> \<open>DhcpPacket\<close>, \<open>src/gdhcp/common.c\<close>, \<open>common.h\<close>, \<open>unaligned.h\<close>: options of DHCP and DHCPv6, headers,
    checksum and raw datagrams. Shown: an option added is read back, options returned lie inside
    the packet, the packets on which the walk does not end or overflows, and that the checksums
    of a datagram verify. The locale \<open>option_area\<close> has the lemmas of the walk.

  \<^item> \<open>DhcpServer\<close>, \<open>DhcpLeases\<close>, \<open>DhcpExchange\<close>, \<open>src/gdhcp/server.c\<close>: the server, the invariant of its
    table of leases (in the locale \<open>lease_env\<close>), and the exchanges. Shown: no two leases share an
    address or a client, a lease is a map update, the search for an address, that a client that
    requests what it was offered is acknowledged, and two defects: offers are not reserved and
    releases are ignored on little-endian hosts. Reachable servers have clocks and lease times
    below \<open>2 ^ 31\<close> seconds where a theorem says so.

  \<^item> \<open>Acd\<close>, \<open>src/src/acd.c\<close> and \<open>src/src/shared/arp.c\<close>: the state machine of RFC 5227 with its timers.
    Its client is the locale \<open>acd_client\<close>. Shown: probing and announcing end in the claim of the
    address, conflicts are detected, an address is defended once.

  \<^item> \<open>AcdNetwork\<close>, part of \<open>src/src/network.c\<close>: the client of the detection, which interprets
    \<open>acd_client\<close>. Shown: the invariant of the detection under the callbacks of the network, the decline
    after a first conflict, the fall back to a link-local address, and a failure path that leaves
    the network without an address.

  \<^item> \<open>GWebHttp\<close>, \<open>GWebUrl\<close>, \<open>src/gweb/gweb.c\<close>: reading of a response and of URLs. Shown: round trips of
    chunked bodies, headers and URLs, and the cuts of the input at which the decoder refuses a
    correct body. The address of a proxy is modelled with its ownership; a lemma shows that it
    dangles.

  \<^item> \<open>Stats\<close>, \<open>src/src/stats.c\<close>: the ring buffer in a mapped file, its growth and the summary into the
    history. The calls of the system and the calendar of GLib are parameters. Shown: files stay
    well formed, an update appends a record, a full ring is summarised, and which record the
    summary loses. The runs start from files that are new or were left by the code and stay
    below 4 GiB; a failure to open the temporary file is undefined behaviour.

  \<^item> \<open>Service\<close>, \<open>src/src/service.c\<close>, \<open>src/include/service.h\<close>, \<open>src/src/main.c\<close>: names of states and
    types, their combination, and the order of the service list. Shown: sorting gives the list in
    the order of the criteria that the code compares, and the default service is the first
    connected one. Lists with a VPN, and with two services that connect in different states, are
    left out: the comparison is no order there.

  \<^item> \<open>OnlineCheck\<close>, \<open>src/src/service.c\<close> and \<open>__connman_wispr_start\<close> of \<open>src/src/wispr.c\<close>: the checks with
    their timers, counters and references. Shown: the hysteresis of demotion and promotion, and
    that every timer of the main loop holds exactly one reference. The change of the combined
    state of a service, \<open>service_indicate_state\<close>, is a recorded call. Lemmas show a timer that a
    failing start leaves behind, and a check that stays active for ever.

  \<^item> \<open>Notifier\<close>, \<open>src/src/notifier.c\<close>: the modules, the counters and the state of the daemon. Shown: the
    state is the one of the counters and of the offline mode at its last evaluation, and the last
    one announced, in runs of fewer than \<open>2 ^ 31\<close> calls. Assignments to the offline mode in
    \<open>src/src/technology.c\<close> are steps of a run.

  \<^item> \<open>DnsMessage\<close>, \<open>DnsCache\<close>, \<open>DnsReply\<close>, \<open>src/src/dnsproxy.c\<close>: names, records, responses and requests
    on byte arrays; the cache; the removal of a search domain from a reply. Shown: the parser of
    responses stays inside its objects for any bytes when the buffer is 193 bytes longer than the
    message, stores only records that answer the question, a response stored is served with the
    lifetime that is left, and a reply for a host in a domain becomes one for the host. Lemmas show
    that the cache is bounded and that a query built is read back. \<open>dn_expand\<close> and \<open>dn_comp\<close> are
    parameters; the theorem on replies assumes that the pointer to the question is expanded.

  \<^bold>\<open>How the parts interact.\<close> Tethering takes a block from the IP pool and hands its addresses to the
  DHCP server, which builds its answers with the packet functions. A network that got an address
  by DHCP has it checked by the conflict detection, whose callbacks configure or decline it. A
  service whose IP configuration is ready starts its online checks, which use the HTTP client; their
  results change the state of the configuration, the order of the service list, and the counters
  of the notifiers. The DNS proxy answers from its cache or from the replies of name servers.

  \<^bold>\<open>Not modelled.\<close> Sockets, TLS, netlink, D-Bus and files, and what consists of calls to them: the
  DHCP client, DHCPv6 exchanges, gateways, firewall, resolver, time servers, sessions, technologies,
  devices, plugins, the supplicant and D-Bus libraries, the VPN daemon, the client and the tools; the
  requests, servers and listeners of the DNS proxy; the life of HTTP sessions; connecting,
  configuring and saving of services and networks; logging. Freed memory is modelled where a
  property depends on it; failing allocations are parameters where the code looks at them, except
  the context of an online check, whose absence the code would dereference.
\<close>

end
